(* ===== verification/Prelude.thy ===== *)
theory Prelude
  imports Main "HOL-Library.Signed_Division" "HOL-Library.Char_ord"
begin

text \<open>
  The part of the JavaScript runtime that the debugger's sources use, and the lemmas on lists,
  strings and numbers that the components share:

  \<^item> errors as values (\<open>js_error\<close>): a method that may throw returns \<open>js_error + 'a\<close>;
  \<^item> \<open>Array.prototype.join\<close>, \<open>String.prototype.split\<close> with a one-character separator,
    \<open>padStart\<close>, \<open>Array.prototype.splice(i, 1)\<close>;
  \<^item> \<open>Number\<close>/\<open>BigInt\<close> \<open>toString(radix)\<close> and the reading of a digit string;
  \<^item> the regular-expression classes \<open>\d\<close>, \<open>\s\<close> and \<open>.\<close>.

  A JavaScript string is a list of UTF-16 code units; \<open>string\<close> holds the code units up to 255,
  which includes every character the sources compare with.
\<close>

named_theorems js_simps \<open>unfolding rules for the runtime functions\<close>
named_theorems inv_rules \<open>preservation rules for the component invariants\<close>

section \<open>Errors\<close>

datatype js_error =
    SyntaxError string      \<comment> \<open>the offending input\<close>
  | RangeError string
  | ReferenceError string
  | TypeError string
  | GenericError string
  | CommandError string     \<comment> \<open>the \<open>error\<close> field of the server's error packet\<close>

abbreviation is_ok :: "js_error + 'a \<Rightarrow> bool" where
  "is_ok r \<equiv> \<not> isl r"

fun sum_map :: "('a \<Rightarrow> js_error + 'b) \<Rightarrow> 'a list \<Rightarrow> js_error + 'b list" where
  "sum_map f [] = Inr []"
| "sum_map f (x # xs) =
     (case f x of Inl e \<Rightarrow> Inl e
      | Inr y \<Rightarrow> (case sum_map f xs of Inl e \<Rightarrow> Inl e | Inr ys \<Rightarrow> Inr (y # ys)))"

lemma sum_map_Inr:
  "(\<And>x. x \<in> set xs \<Longrightarrow> f x = Inr (g x)) \<Longrightarrow> sum_map f xs = Inr (map g xs)"
  by (induction xs) auto

lemma sum_map_Inl:
  "x \<in> set xs \<Longrightarrow> f x = Inl e \<Longrightarrow> (\<And>y. y \<in> set xs \<Longrightarrow> f y = Inl e \<or> (\<exists>z. f y = Inr z)) \<Longrightarrow> sum_map f xs = Inl e"
  by (induction xs) (fastforce split: sum.split)+

text \<open>
  The contract of a textual encoding: what one side prints, the other side reads back.
\<close>

locale wire_codec =
  fixes enc :: "'a \<Rightarrow> 'w"
    and dec :: "'w \<Rightarrow> js_error + 'a"
    and valid :: "'a \<Rightarrow> bool"
  assumes dec_enc: "valid x \<Longrightarrow> dec (enc x) = Inr x"
begin

lemma enc_inj: "valid x \<Longrightarrow> valid y \<Longrightarrow> enc x = enc y \<Longrightarrow> x = y"
  using dec_enc by (metis sum.inject(2))

lemma dec_all: "list_all valid xs \<Longrightarrow> sum_map dec (map enc xs) = Inr xs"
  by (induction xs) (auto simp: dec_enc)

end

section \<open>Lists and strings\<close>

fun join :: "string \<Rightarrow> string list \<Rightarrow> string" where
  "join sep [] = []"
| "join sep [x] = x"
| "join sep (x # y # xs) = x @ sep @ join sep (y # xs)"

fun split_on :: "char \<Rightarrow> string \<Rightarrow> string list" where
  "split_on c [] = [[]]"
| "split_on c (x # xs) =
     (if x = c then [] # split_on c xs
      else (x # hd (split_on c xs)) # tl (split_on c xs))"

definition padStart :: "nat \<Rightarrow> char \<Rightarrow> string \<Rightarrow> string" where
  "padStart n c s = replicate (n - length s) c @ s"

text \<open>\<open>xs.splice(i, 1)\<close>: a negative start counts from the end and is clamped at the front.\<close>

definition splice1 :: "int \<Rightarrow> 'a list \<Rightarrow> 'a list" where
  "splice1 i xs =
     (let n = int (length xs); k = nat (if i < 0 then max 0 (n + i) else min i n)
      in take k xs @ drop (Suc k) xs)"

text \<open>\<open>xs.indexOf(x)\<close>: the first position, or \<open>-1\<close>.\<close>

fun indexOf :: "'a list \<Rightarrow> 'a \<Rightarrow> int" where
  "indexOf [] x = -1"
| "indexOf (y # ys) x = (if x = y then 0 else (let k = indexOf ys x in if k < 0 then -1 else k + 1))"

text \<open>\<open>xs.at(-1)\<close>: \<open>undefined\<close> on the empty array.\<close>

definition at_last :: "'a list \<Rightarrow> 'a option" where
  "at_last xs = (if xs = [] then None else Some (last xs))"

definition startsWith :: "string \<Rightarrow> string \<Rightarrow> bool" where
  "startsWith s p \<longleftrightarrow> take (length p) s = p"

lemma split_on_nonempty [simp]: "split_on c s \<noteq> []"
  by (cases s) auto

lemma split_on_hd_tl [simp]: "hd (split_on c s) # tl (split_on c s) = split_on c s"
  by simp

lemma split_on_no_sep: "c \<notin> set s \<Longrightarrow> split_on c s = [s]"
  by (induction s) auto

lemma split_on_parts: "p \<in> set (split_on c s) \<Longrightarrow> c \<notin> set p"
proof (induction s arbitrary: p)
  case Nil
  then show ?case by simp
next
  case (Cons x xs)
  have hd: "hd (split_on c xs) \<in> set (split_on c xs)" by simp
  have tl: "q \<in> set (tl (split_on c xs)) \<Longrightarrow> q \<in> set (split_on c xs)" for q
    by (rule list.set_sel(2)) simp_all
  from Cons hd tl show ?case by (auto split: if_splits)
qed

lemma split_on_last [simp]: "c \<notin> set (last (split_on c s))"
  by (meson last_in_set split_on_nonempty split_on_parts)

lemma split_on_append:
  "split_on c (s @ t) =
     butlast (split_on c s) @ (last (split_on c s) @ hd (split_on c t)) # tl (split_on c t)"
proof (induction s)
  case Nil
  then show ?case by simp
next
  case (Cons x xs)
  obtain p ps where ps: "split_on c xs = p # ps" by (cases "split_on c xs") auto
  from Cons show ?case by (cases ps) (auto simp: ps)
qed

lemma split_on_append_sep: "split_on c (s @ c # t) = split_on c s @ split_on c t"
  by (simp add: split_on_append)

lemma join_Cons: "xs \<noteq> [] \<Longrightarrow> join sep (x # xs) = x @ sep @ join sep xs"
  by (cases xs) auto

lemma join_empty_sep [simp]: "join [] xs = concat xs"
  by (induction "[] :: string" xs rule: join.induct) auto

lemma join_split_on: "join [c] (split_on c s) = s"
proof (induction s)
  case Nil
  then show ?case by simp
next
  case (Cons x xs)
  obtain p ps where ps: "split_on c xs = p # ps" by (cases "split_on c xs") auto
  with Cons show ?case by (cases ps) (auto simp: join_Cons)
qed

lemma split_on_join:
  assumes "xs \<noteq> []" and "\<And>x. x \<in> set xs \<Longrightarrow> c \<notin> set x"
  shows "split_on c (join [c] xs) = xs"
  using assms
proof (induction xs)
  case Nil
  then show ?case by simp
next
  case (Cons x xs)
  show ?case
  proof (cases "xs = []")
    case True
    with Cons.prems show ?thesis by (simp add: split_on_no_sep)
  next
    case False
    with Cons show ?thesis by (simp add: join_Cons split_on_append_sep split_on_no_sep)
  qed
qed

lemma join_inj:
  assumes "join [c] xs = join [c] ys" "xs \<noteq> []" "ys \<noteq> []"
    and "\<And>x. x \<in> set xs \<Longrightarrow> c \<notin> set x" "\<And>y. y \<in> set ys \<Longrightarrow> c \<notin> set y"
  shows "xs = ys"
  using assms split_on_join [of xs c] split_on_join [of ys c] by metis

lemma length_padStart: "length (padStart n c s) = max n (length s)"
  by (simp add: padStart_def)

lemma splice1_nat: "splice1 (int i) xs = take i xs @ drop (Suc i) xs"
proof (cases "i \<le> length xs")
  case True
  then show ?thesis by (simp add: splice1_def Let_def min_def)
next
  case False
  then show ?thesis by (simp add: splice1_def Let_def min_def)
qed

lemma indexOf_range: "-1 \<le> indexOf xs x \<and> indexOf xs x < int (length xs)"
  by (induction xs) (auto simp: Let_def)

lemma indexOf_neg: "indexOf xs x < 0 \<longleftrightarrow> x \<notin> set xs"
  by (induction xs) (auto simp: Let_def)

lemma splice1_indexOf: "x \<in> set xs \<Longrightarrow> splice1 (indexOf xs x) xs = remove1 x xs"
proof (induction xs)
  case Nil
  then show ?case by simp
next
  case (Cons y ys)
  show ?case
  proof (cases "x = y")
    case True
    then show ?thesis by (simp add: splice1_def Let_def)
  next
    case False
    with Cons.prems have x: "x \<in> set ys" by simp
    then have nn: "0 \<le> indexOf ys x" using indexOf_neg [of ys x] by linarith
    then obtain k where k: "indexOf ys x = int k" using nonneg_int_cases by blast
    have "splice1 (int (Suc k)) (y # ys) = y # splice1 (int k) ys"
      by (simp only: splice1_nat) simp
    with Cons.IH [OF x] False k show ?thesis by (simp add: Let_def add.commute)
  qed
qed

lemma splice1_minus_one: "splice1 (-1) xs = butlast xs"
  by (cases xs rule: rev_cases) (auto simp: splice1_def Let_def)

lemma at_last_append [simp]: "at_last (xs @ [x]) = Some x"
  by (simp add: at_last_def)

end
