(* ===== verification/Digits.thy ===== *)
theory Digits
  imports Prelude
begin

text \<open>
  Numbers as text: \<open>toString(radix)\<close> of a \<open>Number\<close> or \<open>BigInt\<close> (\<open>nat_str\<close>, \<open>int_str\<close>),
  the value of a digit string as \<open>BigInt(s)\<close>/\<open>parseInt(s)\<close> read it (\<open>str_nat\<close>), and the
  regular-expression classes \<open>\d\<close>, \<open>\s\<close> and \<open>.\<close> as predicates on characters.
  The main facts: \<open>str_nat\<close> inverts \<open>nat_str\<close>, and \<open>nat_str\<close> is injective, made of digits
  only, never empty, and at most \<open>k\<close> digits long below \<open>b ^ k\<close>.
\<close>

section \<open>Character classes\<close>

definition is_digit :: "char \<Rightarrow> bool" where
  "is_digit c \<longleftrightarrow> 48 \<le> (of_char c :: nat) \<and> (of_char c :: nat) \<le> 57"

text \<open>\<open>\s\<close>: tab, line feed, vertical tab, form feed, carriage return, space, no-break space.\<close>

definition is_space :: "char \<Rightarrow> bool" where
  "is_space c \<longleftrightarrow> (of_char c :: nat) \<in> {9, 10, 11, 12, 13, 32, 160}"

text \<open>\<open>.\<close> does not match a line terminator.\<close>

definition is_dot :: "char \<Rightarrow> bool" where
  "is_dot c \<longleftrightarrow> (of_char c :: nat) \<noteq> 10 \<and> (of_char c :: nat) \<noteq> 13"

section \<open>Digits\<close>

definition digit_char :: "nat \<Rightarrow> char" where
  "digit_char d = char_of (if d < 10 then 48 + d else 87 + d)"

definition digit_val :: "char \<Rightarrow> nat" where
  "digit_val c = (if is_digit c then of_char c - 48 else of_char c - 87)"

fun nat_str :: "nat \<Rightarrow> nat \<Rightarrow> string" where
  "nat_str b n = (if n < b \<or> b < 2 then [digit_char n] else nat_str b (n div b) @ [digit_char (n mod b)])"

declare nat_str.simps [simp del]

definition int_str :: "int \<Rightarrow> string" where
  "int_str z = (if z < 0 then CHR ''-'' # nat_str 10 (nat (- z)) else nat_str 10 (nat z))"

definition str_nat :: "nat \<Rightarrow> string \<Rightarrow> nat" where
  "str_nat b s = foldl (\<lambda>a c. a * b + digit_val c) 0 s"

lemma digit_char_val: "d < 36 \<Longrightarrow> digit_val (digit_char d) = d"
  by (auto simp: digit_val_def digit_char_def is_digit_def)

lemma digit_char_0: "digit_char 0 = CHR ''0''"
  unfolding digit_char_def by code_simp

lemma digit_char_digit: "d < 10 \<Longrightarrow> is_digit (digit_char d)"
  by (auto simp: digit_char_def is_digit_def)

lemma digit_char_inj: "d < 36 \<Longrightarrow> e < 36 \<Longrightarrow> digit_char d = digit_char e \<Longrightarrow> d = e"
  using digit_char_val by metis

lemma not_digit [simp]:
  "\<not> is_digit CHR ''.''" "\<not> is_digit CHR ''-''" "\<not> is_digit CHR '',''" "\<not> is_digit CHR ''s''"
  "\<not> is_digit CHR ''m''" "\<not> is_digit CHR ''u''" "\<not> is_digit CHR ''n''" "\<not> is_digit CHR ''p''"
  "\<not> is_digit CHR ''f''" "\<not> is_digit CHR '':''" "\<not> is_digit CHR '' ''"
  by (simp_all add: is_digit_def)

lemma is_digit_zero [simp]: "is_digit CHR ''0''"
  by (simp add: is_digit_def)

lemma space_not_digit: "is_space c \<Longrightarrow> \<not> is_digit c"
  by (auto simp: is_space_def is_digit_def)

section \<open>Printing and reading\<close>

lemma str_nat_Nil [simp]: "str_nat b [] = 0"
  by (simp add: str_nat_def)

lemma str_nat_snoc: "str_nat b (s @ [c]) = str_nat b s * b + digit_val c"
  by (simp add: str_nat_def)

lemma str_nat_append: "str_nat b (s @ t) = str_nat b s * b ^ length t + str_nat b t"
proof (induction t rule: rev_induct)
  case Nil
  then show ?case by simp
next
  case (snoc c t)
  have "str_nat b (s @ t @ [c]) = str_nat b (s @ t) * b + digit_val c"
    by (metis append_assoc str_nat_snoc)
  with snoc show ?case by (simp add: str_nat_snoc algebra_simps)
qed

lemma str_nat_zeros: "str_nat b (replicate k CHR ''0'') = 0"
  by (induction k) (simp_all add: str_nat_def digit_val_def)

lemma str_nat_padStart [simp]: "str_nat b (padStart k CHR ''0'' s) = str_nat b s"
  by (simp add: padStart_def str_nat_append str_nat_zeros)

lemma nat_str_nonempty [simp]: "nat_str b n \<noteq> []"
  by (subst nat_str.simps) simp

lemma str_nat_nat_str: "2 \<le> b \<Longrightarrow> b \<le> 36 \<Longrightarrow> str_nat b (nat_str b n) = n"
proof (induction b n rule: nat_str.induct)
  case (1 b n)
  show ?case
  proof (cases "n < b")
    case True
    with "1.prems" show ?thesis
      by (subst nat_str.simps) (simp add: str_nat_def digit_char_val)
  next
    case False
    with "1" have "str_nat b (nat_str b (n div b)) = n div b" by simp
    moreover have "n mod b < 36" using "1.prems" by (meson mod_less_divisor less_le_trans zero_less_numeral)
    ultimately show ?thesis using False "1.prems"
      by (subst nat_str.simps) (simp add: str_nat_snoc digit_char_val)
  qed
qed

lemma nat_str_inj: "2 \<le> b \<Longrightarrow> b \<le> 36 \<Longrightarrow> nat_str b m = nat_str b n \<Longrightarrow> m = n"
  using str_nat_nat_str by metis

lemma nat_str_digits: "2 \<le> b \<Longrightarrow> c \<in> set (nat_str b n) \<Longrightarrow> \<exists>d < b. c = digit_char d"
proof (induction b n rule: nat_str.induct)
  case (1 b n)
  show ?case
  proof (cases "n < b")
    case True
    with "1.prems" show ?thesis by (subst (asm) nat_str.simps) auto
  next
    case False
    with "1.prems" have "c \<in> set (nat_str b (n div b)) \<or> c = digit_char (n mod b)"
      by (subst (asm) nat_str.simps) auto
    moreover have "n mod b < b" using "1.prems" by simp
    moreover have "\<exists>d < b. c = digit_char d" if "c \<in> set (nat_str b (n div b))"
      using "1.IH" "1.prems"(1) False that by simp
    ultimately show ?thesis by blast
  qed
qed

lemma nat_str_decimal: "c \<in> set (nat_str 10 n) \<Longrightarrow> is_digit c"
  using nat_str_digits [of 10 c n] digit_char_digit by auto

lemma nat_str_decimal_all: "list_all is_digit (nat_str 10 n)"
  by (simp add: list_all_iff nat_str_decimal)

lemma nat_str_length: "2 \<le> b \<Longrightarrow> n < b ^ Suc k \<Longrightarrow> length (nat_str b n) \<le> Suc k"
proof (induction k arbitrary: n)
  case 0
  then show ?case by (subst nat_str.simps) simp
next
  case (Suc k)
  show ?case
  proof (cases "n < b")
    case True
    then show ?thesis by (subst nat_str.simps) simp
  next
    case False
    have "n div b < b ^ Suc k" using Suc.prems
      by (metis less_mult_imp_div_less mult.commute power_Suc)
    with Suc False show ?thesis by (subst nat_str.simps) simp
  qed
qed

lemma int_str_nonneg [simp]: "int_str (int n) = nat_str 10 n"
  by (simp add: int_str_def)

lemma int_str_nat: "0 \<le> z \<Longrightarrow> int_str z = nat_str 10 (nat z)"
  by (simp add: int_str_def)

lemma int_str_hd_minus: "int_str z = CHR ''-'' # s \<longleftrightarrow> z < 0 \<and> s = nat_str 10 (nat (- z))"
proof -
  have "CHR ''-'' \<notin> set (nat_str 10 n)" for n using nat_str_decimal by fastforce
  then show ?thesis by (auto simp: int_str_def) (metis list.set_intros(1))
qed

lemma int_str_inj: "int_str y = int_str z \<Longrightarrow> y = z"
proof -
  assume eq: "int_str y = int_str z"
  have minus: "nat_str 10 n \<noteq> CHR ''-'' # s" for n s
    using nat_str_decimal [of "CHR ''-''" n] by (metis list.set_intros(1) not_digit(2))
  show "y = z"
  proof (cases "y < 0")
    case True
    with eq minus minus [THEN not_sym] show ?thesis
      by (auto simp: int_str_def split: if_splits dest!: nat_str_inj [rotated 2])
  next
    case False
    with eq minus minus [THEN not_sym] show ?thesis
      by (auto simp: int_str_def split: if_splits dest!: nat_str_inj [rotated 2])
  qed
qed

lemma int_str_chars: "c \<in> set (int_str z) \<Longrightarrow> is_digit c \<or> c = CHR ''-''"
  using nat_str_decimal by (auto simp: int_str_def split: if_splits)

text \<open>A run of digits ends where the next character is not one.\<close>

lemma takeWhile_digits:
  "list_all is_digit ds \<Longrightarrow> (rest = [] \<or> \<not> is_digit (hd rest)) \<Longrightarrow> takeWhile is_digit (ds @ rest) = ds"
  by (induction ds) (auto, cases rest, auto)

lemma dropWhile_digits:
  "list_all is_digit ds \<Longrightarrow> (rest = [] \<or> \<not> is_digit (hd rest)) \<Longrightarrow> dropWhile is_digit (ds @ rest) = rest"
  by (induction ds) (auto, cases rest, auto)

lemma all_digits:
  assumes "list_all is_digit ds"
  shows "takeWhile is_digit ds = ds" "dropWhile is_digit ds = []"
  using assms by (simp_all add: list_all_iff)

lemmas digit_runs = takeWhile_digits dropWhile_digits

lemma list_all_takeWhile: "list_all P (takeWhile P xs)"
  by (induction xs) auto

lemma padStart_digits: "list_all is_digit s \<Longrightarrow> list_all is_digit (padStart k CHR ''0'' s)"
  by (auto simp: padStart_def list_all_iff)

section \<open>Two numbers and a dot\<close>

text \<open>The matches of \<open>/^(\d+)\.(\d+)$/\<close>\<close>

definition match_decimal :: "string \<Rightarrow> (string \<times> string) option" where
  "match_decimal value =
     (case dropWhile is_digit value of
        [] \<Rightarrow> None
      | c # fraction \<Rightarrow>
          if c = CHR ''.'' \<and> takeWhile is_digit value \<noteq> [] \<and> fraction \<noteq> [] \<and> list_all is_digit fraction
          then Some (takeWhile is_digit value, fraction) else None)"

lemma match_decimal_iff:
  "match_decimal v = Some (w, f) \<longleftrightarrow>
     v = w @ ''.'' @ f \<and> w \<noteq> [] \<and> f \<noteq> [] \<and> list_all is_digit w \<and> list_all is_digit f"
  (is "?L \<longleftrightarrow> ?R")
proof
  assume L: ?L
  then have d: "dropWhile is_digit v = ''.'' @ f" and w: "w = takeWhile is_digit v"
    and ne: "w \<noteq> []" "f \<noteq> []" "list_all is_digit f"
    by (auto simp: match_decimal_def split: list.splits if_splits)
  have "v = w @ ''.'' @ f" unfolding w d [symmetric] by (rule takeWhile_dropWhile_id [symmetric])
  with w ne show ?R by (metis list_all_takeWhile)
next
  assume R: ?R
  then have "takeWhile is_digit v = w" "dropWhile is_digit v = ''.'' @ f"
    by (simp_all add: digit_runs)
  with R show ?L by (simp add: match_decimal_def)
qed

end
