(* ===== verification/Proto.thy ===== *)
theory Proto
  imports Complex_Main Digits
begin

text \<open>
  \<open>src/src/cxxrtl/proto.ts\<close>: the packets of the CXXRTL debug protocol, one datatype per type
  declaration of the source, with the source's field names as selectors.  The constant
  \<open>type\<close> and \<open>command\<close> fields are the constructors.  A field of type \<open>null | t\<close> or an
  optional field is an \<open>option\<close>; a JSON object used as a dictionary is an association list in
  the order \<open>Object.keys\<close> enumerates it.

  The second part is the text the client puts on the wire: \<open>JSON.stringify\<close> on the packets it
  sends, and the fact that the text never contains the separator of the framing.
\<close>

section \<open>Greetings, errors\<close>

datatype client_greeting = ClientGreeting (cg_version: int)

datatype server_features = Features (item_values_encoding: "string list")

datatype server_greeting =
  ServerGreeting (sg_version: int) (sg_commands: "string list") (sg_events: "string list")
    (sg_features: server_features)

datatype error_packet = ErrorPacket (error_code: string) (error_message: string)

section \<open>Attributes\<close>

datatype attribute =
    AttributeUnsignedInt string
  | AttributeSignedInt string
  | AttributeString string
  | AttributeDouble rat

text \<open>The declaration in the source is recursive and has no leaf type.\<close>

datatype attribute_map = AttributeMap "(string \<times> attribute_map) list"

section \<open>Scopes and items\<close>

datatype scope_definition =
  ScopeDefinition (def_src: "string option") (def_name: "string option") (def_attributes: attribute_map)

datatype scope_instantiation =
  ScopeInstantiation (inst_src: "string option") (inst_attributes: attribute_map)

datatype scope_description =
  ScopeDescriptionModule (definition_of: scope_definition) (instantiation_of: scope_instantiation)

type_synonym scope_description_map = "(string \<times> scope_description) list"

datatype command_list_scopes = CommandListScopes (ls_scope: "string option")

datatype response_list_scopes = ResponseListScopes (ls_scopes: scope_description_map)

datatype item_description =
    ItemDescriptionNode (item_src: "string option") (item_lsb_at: int) (item_width: nat)
      (item_input: bool) (item_output: bool) (item_settable: bool) (item_attributes: attribute_map)
  | ItemDescriptionMemory (item_src: "string option") (item_lsb_at: int) (item_width: nat)
      (item_zero_at: int) (item_depth: nat) (item_settable: bool) (item_attributes: attribute_map)

type_synonym item_description_map = "(string \<times> item_description) list"

datatype command_list_items = CommandListItems (li_scope: "string option")

datatype response_list_items = ResponseListItems (li_items: item_description_map)

section \<open>References and samples\<close>

datatype item_designation =
    ItemScalar string
  | ItemRows string int int

datatype command_reference_items =
  CommandReferenceItems (ri_reference: string) (ri_items: "item_designation list option")

datatype response_reference_items = ResponseReferenceItems

datatype diagnostic_type = DiagBreak | DiagPrint | DiagAssert | DiagAssume

datatype diagnostic = Diagnostic (diag_type: diagnostic_type) (diag_text: string) (diag_src: "string option")

datatype proto_sample =
  ProtoSample (ps_time: string) (ps_item_values: "string option") (ps_diagnostics: "diagnostic list option")

datatype command_query_interval =
  CommandQueryInterval (qi_interval: "string \<times> string") (qi_collapse: bool) (qi_items: "string option")
    (qi_item_values_encoding: "string option") (qi_diagnostics: bool)

datatype response_query_interval = ResponseQueryInterval (qi_samples: "proto_sample list")

section \<open>Simulation control\<close>

datatype sim_status = Running | Paused | Finished

datatype command_get_simulation_status = CommandGetSimulationStatus

datatype response_get_simulation_status =
    StatusPaused (st_latest_time: string) (st_next_sample_time: string)
  | StatusRunning (st_latest_time: string)
  | StatusFinished (st_latest_time: string)

datatype command_run_simulation =
  CommandRunSimulation (run_until_time: "string option") (run_until_diagnostics: "diagnostic_type list")
    (run_sample_item_values: bool)

datatype response_run_simulation = ResponseRunSimulation

datatype command_pause_simulation = CommandPauseSimulation

datatype response_pause_simulation = ResponsePauseSimulation (pause_time: string)

section \<open>Events\<close>

datatype pause_cause = UntilTime | UntilDiagnostics

datatype event_simulation_paused = EventSimulationPaused (paused_time: string) (paused_cause: pause_cause)

datatype event_simulation_finished = EventSimulationFinished (finished_time: string)

section \<open>Packets\<close>

datatype any_command =
    CmdListScopes command_list_scopes
  | CmdListItems command_list_items
  | CmdReferenceItems command_reference_items
  | CmdQueryInterval command_query_interval
  | CmdGetSimulationStatus command_get_simulation_status
  | CmdRunSimulation command_run_simulation
  | CmdPauseSimulation command_pause_simulation

datatype any_response =
    ResListScopes response_list_scopes
  | ResListItems response_list_items
  | ResReferenceItems response_reference_items
  | ResQueryInterval response_query_interval
  | ResGetSimulationStatus response_get_simulation_status
  | ResRunSimulation response_run_simulation
  | ResPauseSimulation response_pause_simulation

datatype any_event =
    EvSimulationPaused event_simulation_paused
  | EvSimulationFinished event_simulation_finished

datatype client_packet = PktGreeting client_greeting | PktCommand any_command

datatype server_packet =
    SrvGreeting server_greeting
  | SrvResponse any_response
  | SrvEvent any_event
  | SrvError error_packet

section \<open>\<open>JSON.stringify\<close>\<close>

text \<open>The JSON values.  All numbers the client writes are integers; \<open>JReal\<close> is the text of a number with a
  fraction or an exponent, which only the attributes in a server's packet may contain.\<close>

datatype json =
    JNull
  | JBool bool
  | JInt int
  | JReal string
  | JString string
  | JArray "json list"
  | JObject "(string \<times> json) list"

definition escape_char :: "char \<Rightarrow> string" where
  "escape_char c =
     (let n = (of_char c :: nat) in
      if n = 34 then [CHR 0x5C, CHR 0x22] else if n = 92 then [CHR 0x5C, CHR 0x5C]
      else if n = 8 then [CHR 0x5C, CHR ''b''] else if n = 9 then [CHR 0x5C, CHR ''t'']
      else if n = 10 then [CHR 0x5C, CHR ''n''] else if n = 12 then [CHR 0x5C, CHR ''f'']
      else if n = 13 then [CHR 0x5C, CHR ''r'']
      else if n < 32 then CHR 0x5C # ''u00'' @ padStart 2 CHR ''0'' (nat_str 16 n)
      else [c])"

definition quote :: "string \<Rightarrow> string" where
  "quote s = [CHR 0x22] @ concat (map escape_char s) @ [CHR 0x22]"

fun stringify :: "json \<Rightarrow> string" where
  "stringify JNull = ''null''"
| "stringify (JBool b) = (if b then ''true'' else ''false'')"
| "stringify (JInt z) = int_str z"
| "stringify (JReal t) = t"
| "stringify (JString s) = quote s"
| "stringify (JArray xs) = ''['' @ join '','' (map stringify xs) @ '']''"
| "stringify (JObject fs) =
     ''{'' @ join '','' (map (\<lambda>(k, v). quote k @ '':'' @ stringify v) fs) @ ''}''"

definition json_opt :: "string option \<Rightarrow> json" where
  "json_opt s = (case s of None \<Rightarrow> JNull | Some x \<Rightarrow> JString x)"

fun json_designation :: "item_designation \<Rightarrow> json" where
  "json_designation (ItemScalar i) = JArray [JString i]"
| "json_designation (ItemRows i a b) = JArray [JString i, JInt a, JInt b]"

fun json_diagnostic_type :: "diagnostic_type \<Rightarrow> json" where
  "json_diagnostic_type DiagBreak = JString ''break''"
| "json_diagnostic_type DiagPrint = JString ''print''"
| "json_diagnostic_type DiagAssert = JString ''assert''"
| "json_diagnostic_type DiagAssume = JString ''assume''"

text \<open>The object literals the client and the session build, fields in their order.\<close>

fun json_command :: "any_command \<Rightarrow> json" where
  "json_command (CmdListScopes c) =
     JObject [(''type'', JString ''command''), (''command'', JString ''list_scopes''),
       (''scope'', json_opt (ls_scope c))]"
| "json_command (CmdListItems c) =
     JObject [(''type'', JString ''command''), (''command'', JString ''list_items''),
       (''scope'', json_opt (li_scope c))]"
| "json_command (CmdReferenceItems c) =
     JObject [(''type'', JString ''command''), (''command'', JString ''reference_items''),
       (''reference'', JString (ri_reference c)),
       (''items'', (case ri_items c of None \<Rightarrow> JNull | Some ds \<Rightarrow> JArray (map json_designation ds)))]"
| "json_command (CmdQueryInterval c) =
     JObject [(''type'', JString ''command''), (''command'', JString ''query_interval''),
       (''interval'', JArray [JString (fst (qi_interval c)), JString (snd (qi_interval c))]),
       (''collapse'', JBool (qi_collapse c)), (''items'', json_opt (qi_items c)),
       (''item_values_encoding'', json_opt (qi_item_values_encoding c)),
       (''diagnostics'', JBool (qi_diagnostics c))]"
| "json_command (CmdGetSimulationStatus c) =
     JObject [(''type'', JString ''command''), (''command'', JString ''get_simulation_status'')]"
| "json_command (CmdRunSimulation c) =
     JObject [(''type'', JString ''command''), (''command'', JString ''run_simulation''),
       (''until_time'', json_opt (run_until_time c)),
       (''until_diagnostics'', JArray (map json_diagnostic_type (run_until_diagnostics c))),
       (''sample_item_values'', JBool (run_sample_item_values c))]"
| "json_command (CmdPauseSimulation c) =
     JObject [(''type'', JString ''command''), (''command'', JString ''pause_simulation'')]"

fun json_client_packet :: "client_packet \<Rightarrow> json" where
  "json_client_packet (PktGreeting g) =
     JObject [(''type'', JString ''greeting''), (''version'', JInt (cg_version g))]"
| "json_client_packet (PktCommand c) = json_command c"

section \<open>No separator inside a packet\<close>

definition printable :: "char \<Rightarrow> bool" where
  "printable c \<longleftrightarrow> 32 \<le> (of_char c :: nat)"

lemma printable_punctuation [simp]:
  "printable CHR '',''" "printable CHR '':''" "printable CHR ''[''" "printable CHR '']''"
  "printable CHR ''{''" "printable CHR ''}''"
  by (simp_all add: printable_def)

lemma printable_digit_char: "printable (digit_char d) \<or> 36 \<le> d"
  by (auto simp: printable_def digit_char_def)

lemma printable_escape: "list_all printable (escape_char c)"
proof -
  have "list_all printable (padStart 2 CHR ''0'' (nat_str 16 (of_char c)))"
    using nat_str_digits [of 16 _ "of_char c"] printable_digit_char
    by (fastforce simp: padStart_def list_all_iff printable_def)
  then show ?thesis by (auto simp: escape_char_def Let_def printable_def)
qed

lemma printable_quote: "list_all printable (quote s)"
  using printable_escape by (auto simp: quote_def list_all_iff printable_def)

lemma printable_int_str: "list_all printable (int_str z)"
  using int_str_chars by (fastforce simp: list_all_iff printable_def is_digit_def)

lemma set_join: "set (join sep xs) \<subseteq> set sep \<union> \<Union> (set ` set xs)"
  by (induction sep xs rule: join.induct) auto

lemma printable_join:
  "list_all printable sep \<Longrightarrow> (\<And>x. x \<in> set xs \<Longrightarrow> list_all printable x) \<Longrightarrow> list_all printable (join sep xs)"
  using set_join [of sep xs] by (fastforce simp: list_all_iff)

text \<open>Values without numbers of the second kind, as those of the client's packets.\<close>

fun integral :: "json \<Rightarrow> bool" where
  "integral (JReal t) = False"
| "integral (JArray xs) = list_all integral xs"
| "integral (JObject fs) = list_all (\<lambda>(k, v). integral v) fs"
| "integral _ = True"

lemma printable_stringify: "integral v \<Longrightarrow> list_all printable (stringify v)"
proof (induction v rule: stringify.induct)
  case (6 xs)
  then have "list_all printable (join '','' (map stringify xs))"
    by (intro printable_join) (auto simp: list_all_iff)
  then show ?case by simp
next
  case (7 fs)
  have "list_all printable (quote k @ '':'' @ stringify v)" if "(k, v) \<in> set fs" for k v
  proof -
    have "integral v" using 7(2) that by (auto simp: list_all_iff)
    then show ?thesis using 7(1) [OF that refl] by (simp add: printable_quote)
  qed
  then have "list_all printable (join '','' (map (\<lambda>(k, v). quote k @ '':'' @ stringify v) fs))"
    by (intro printable_join) (auto simp del: list_all_append append.simps)
  then show ?case by simp
qed (simp_all only: stringify.simps printable_quote printable_int_str integral.simps, auto simp: printable_def)

lemma integral_client_packet: "integral (json_client_packet p)"
proof (cases p)
  case (PktCommand c)
  have "integral (json_designation d)" for d by (cases d) simp_all
  moreover have "integral (json_diagnostic_type d)" for d by (cases d) simp_all
  ultimately show ?thesis
    using PktCommand by (cases c) (auto simp: json_opt_def list_all_iff split: option.split)
qed simp

lemma stringify_no_nul: "CHR 0x00 \<notin> set (stringify (json_client_packet p))"
  using printable_stringify [OF integral_client_packet, of p] by (auto simp: list_all_iff printable_def)

end
