(* ===== verification/Link.thy ===== *)
theory Link
  imports Proto
begin

text \<open>
  \<open>src/src/cxxrtl/link.ts\<close>: the transport under the protocol.

  \<^item> \<open>NodeStreamLink\<close>: packets are JSON texts ended by a NUL character on a byte stream that
    arrives in arbitrary chunks.  \<open>split_chunk\<close> is the first half of \<open>onStreamData\<close>
    (cut complete packets, keep the rest), \<open>process_packets\<close> the second half (parse, hand to
    \<open>onRecv\<close>, pause and resume the stream).  \<open>JSON.parse\<close> and the installed
    \<open>onRecv\<close> are arguments.
  \<^item> \<open>MockLink\<close>: a scripted conversation.
\<close>

section \<open>Framing\<close>

definition NUL :: char where
  "NUL = CHR 0x00"

text \<open>The buffer is an array of partial texts; the result is the new buffer and the complete texts.\<close>

definition split_chunk :: "string \<Rightarrow> string list \<Rightarrow> string list \<times> string list" where
  "split_chunk chunk recvBuffer =
     (let parts = split_on NUL chunk; rest = tl parts; buffer = recvBuffer @ [hd parts]
      in if rest \<noteq> [] then ([last rest], join '''' buffer # butlast rest) else (buffer, []))"

fun absorb_all :: "(string \<Rightarrow> 'b \<Rightarrow> 'b \<times> string list) \<Rightarrow> string list \<Rightarrow> 'b \<Rightarrow> 'b \<times> string list" where
  "absorb_all absorb [] b = (b, [])"
| "absorb_all absorb (c # cs) b =
     (let (b', ps) = absorb c b; (b'', qs) = absorb_all absorb cs b' in (b'', ps @ qs))"

text \<open>The text \<open>send\<close> writes for one packet.\<close>

definition frame :: "json \<Rightarrow> string" where
  "frame v = stringify v @ [NUL]"

definition link_send :: "client_packet \<Rightarrow> string list \<Rightarrow> string list" where
  "link_send p written = written @ [frame (json_client_packet p)]"

section \<open>Handing packets over\<close>

text \<open>
  One call of \<open>onRecv\<close> made by the loop: the packet, and whether the stream was paused while the
  call was awaited.  \<open>proc_log\<close> says how the handler ended.
\<close>

datatype end_of_data = AllHandled | Malformed string | UncaughtInHandler

datatype ('p, 'h) processed =
  Processed (proc_paused: bool) (proc_handler: 'h) (proc_calls: "('p \<times> bool) list") (proc_end: end_of_data)

fun process_packets ::
  "(string \<Rightarrow> 'p option) \<Rightarrow> ('p \<Rightarrow> 'h \<Rightarrow> bool \<times> 'h) \<Rightarrow> string list \<Rightarrow> bool \<Rightarrow> 'h \<Rightarrow>
     ('p \<times> bool) list \<Rightarrow> ('p, 'h) processed" where
  "process_packets parse onRecv [] paused h calls = Processed False h calls AllHandled"
| "process_packets parse onRecv (t # ts) paused h calls =
     (case parse t of
        None \<Rightarrow> Processed paused h calls (Malformed t)
      | Some p \<Rightarrow>
          (case onRecv p h of
             (True, h') \<Rightarrow> process_packets parse onRecv ts False h' (calls @ [(p, paused)])
           | (False, h') \<Rightarrow> Processed paused h' (calls @ [(p, paused)]) UncaughtInHandler))"

text \<open>\<open>onStreamData\<close>: cut, pause, process.\<close>

definition onStreamData ::
  "(string \<Rightarrow> 'p option) \<Rightarrow> ('p \<Rightarrow> 'h \<Rightarrow> bool \<times> 'h) \<Rightarrow> string \<Rightarrow> string list \<Rightarrow> 'h \<Rightarrow>
     string list \<times> ('p, 'h) processed" where
  "onStreamData parse onRecv chunk recvBuffer h =
     (let (recvBuffer', packetTexts) = split_chunk chunk recvBuffer
      in (recvBuffer', process_packets parse onRecv packetTexts True h []))"

text \<open>\<open>onStreamEnd\<close> logs an error of \<open>onDone\<close> and returns normally either way.\<close>

definition onStreamEnd :: "('h \<Rightarrow> bool \<times> 'h) \<Rightarrow> 'h \<Rightarrow> 'h \<times> bool" where
  "onStreamEnd onDone h = (case onDone h of (ok, h') \<Rightarrow> (h', \<not> ok))"

section \<open>The scripted link\<close>

datatype scripted_reply = OnePacket server_packet | PacketArray "server_packet list"

type_synonym conversation = "(client_packet \<times> scripted_reply) list"

definition reply_packets :: "scripted_reply \<Rightarrow> server_packet list" where
  "reply_packets r = (case r of OnePacket p \<Rightarrow> [p] | PacketArray ps \<Rightarrow> ps)"

text \<open>
  The packets delivered to \<open>onRecv\<close>, whether \<open>onDone\<close> is called, and the rest of the
  conversation.
\<close>

definition mock_send ::
  "client_packet \<Rightarrow> conversation \<Rightarrow> js_error + server_packet list \<times> bool \<times> conversation" where
  "mock_send p conv =
     (case conv of
        [] \<Rightarrow> Inl (GenericError ''premature end of conversation'')
      | (expectedClient, expectedServer) # restOfConversation \<Rightarrow>
          if stringify (json_client_packet p) = stringify (json_client_packet expectedClient)
          then Inr (reply_packets expectedServer, restOfConversation = [], restOfConversation)
          else Inl (GenericError ''unexpected client packet''))"

definition mock_dispose :: "conversation \<Rightarrow> js_error + unit" where
  "mock_dispose conv =
     (if conv \<noteq> [] then Inl (GenericError ''disposed of before end of conversation'') else Inr ())"

fun mock_run :: "client_packet list \<Rightarrow> conversation \<Rightarrow> js_error + server_packet list \<times> nat \<times> conversation" where
  "mock_run [] conv = Inr ([], 0, conv)"
| "mock_run (p # ps) conv =
     (case mock_send p conv of
        Inl e \<Rightarrow> Inl e
      | Inr (rs, d, conv') \<Rightarrow>
          (case mock_run ps conv' of
             Inl e \<Rightarrow> Inl e
           | Inr (rs', n, conv'') \<Rightarrow> Inr (rs @ rs', (if d then 1 else 0) + n, conv'')))"

section \<open>The framing contract\<close>

text \<open>
  A receiver whose unfinished input is \<open>pending\<close>: each chunk yields the complete pieces of the
  pending text with the chunk appended, and leaves the unfinished last piece.
\<close>

locale framed_stream =
  fixes absorb :: "string \<Rightarrow> 'b \<Rightarrow> 'b \<times> string list"
    and pending :: "'b \<Rightarrow> string"
    and sep :: char
  assumes absorb_frames: "sep \<notin> set (pending b) \<Longrightarrow> snd (absorb chunk b) = butlast (split_on sep (pending b @ chunk))"
    and absorb_pending: "sep \<notin> set (pending b) \<Longrightarrow> pending (fst (absorb chunk b)) = last (split_on sep (pending b @ chunk))"
begin

lemma split_last_append:
  "split_on sep (s @ t) = butlast (split_on sep s) @ split_on sep (last (split_on sep s) @ t)"
proof -
  have "split_on sep (last (split_on sep s)) = [last (split_on sep s)]"
    by (simp add: split_on_no_sep)
  then have "split_on sep (last (split_on sep s) @ t) =
      (last (split_on sep s) @ hd (split_on sep t)) # tl (split_on sep t)"
    by (simp add: split_on_append)
  then show ?thesis by (simp add: split_on_append)
qed

lemma absorb_all_frames:
  "sep \<notin> set (pending b) \<Longrightarrow>
     snd (absorb_all absorb cs b) = butlast (split_on sep (pending b @ concat cs)) \<and>
     pending (fst (absorb_all absorb cs b)) = last (split_on sep (pending b @ concat cs))"
proof (induction cs arbitrary: b)
  case Nil
  then show ?case by (simp add: split_on_no_sep)
next
  case (Cons c cs)
  let ?b = "fst (absorb c b)" and ?s = "pending b @ c"
  have pend: "pending ?b = last (split_on sep ?s)" using Cons.prems by (rule absorb_pending)
  have "sep \<notin> set (pending ?b)" unfolding pend by simp
  note IH = Cons.IH [OF this]
  have split: "split_on sep (?s @ concat cs) =
      butlast (split_on sep ?s) @ split_on sep (pending ?b @ concat cs)"
    unfolding pend by (rule split_last_append)
  have "snd (absorb_all absorb (c # cs) b) = snd (absorb c b) @ snd (absorb_all absorb cs ?b)"
    "fst (absorb_all absorb (c # cs) b) = fst (absorb_all absorb cs ?b)"
    by (simp_all add: split_beta Let_def)
  then show ?case using IH split Cons.prems by (simp add: absorb_frames butlast_append)
qed

lemma frames_roundtrip:
  assumes "pending b = []" and "\<And>t. t \<in> set ts \<Longrightarrow> sep \<notin> set t"
    and "concat cs = concat (map (\<lambda>t. t @ [sep]) ts)"
  shows "snd (absorb_all absorb cs b) = ts \<and> pending (fst (absorb_all absorb cs b)) = []"
proof -
  have "split_on sep (concat (map (\<lambda>t. t @ [sep]) ts)) = ts @ [[]]" using assms(2)
    by (induction ts) (auto simp: split_on_append_sep split_on_no_sep)
  with assms absorb_all_frames [of b cs] show ?thesis by simp
qed

end

interpretation stream: framed_stream split_chunk concat NUL
proof unfold_locales
  fix chunk and b :: "string list"
  assume clean: "NUL \<notin> set (concat b)"
  obtain p ps where parts: "split_on NUL chunk = p # ps" by (cases "split_on NUL chunk") auto
  with clean have whole: "split_on NUL (concat b @ chunk) = (concat b @ p) # ps"
    by (simp add: split_on_append split_on_no_sep)
  show "snd (split_chunk chunk b) = butlast (split_on NUL (concat b @ chunk))"
    "concat (fst (split_chunk chunk b)) = last (split_on NUL (concat b @ chunk))"
    by (simp_all add: split_chunk_def whole parts)
qed

section \<open>The processing loop\<close>

text \<open>The packets before the first one that is malformed or makes the handler fail.\<close>

fun accepted :: "(string \<Rightarrow> 'p option) \<Rightarrow> ('p \<Rightarrow> 'h \<Rightarrow> bool \<times> 'h) \<Rightarrow> string list \<Rightarrow> 'h \<Rightarrow> nat" where
  "accepted parse onRecv [] h = 0"
| "accepted parse onRecv (t # ts) h =
     (case parse t of
        None \<Rightarrow> 0
      | Some p \<Rightarrow> (case onRecv p h of (True, h') \<Rightarrow> Suc (accepted parse onRecv ts h') | (False, _) \<Rightarrow> 0))"

lemma process_unpaused: "\<not> proc_paused (process_packets parse onRecv ts False h calls)"
  by (induction ts arbitrary: h calls) (auto split: option.splits prod.splits bool.splits)

lemma process_paused:
  "proc_paused (process_packets parse onRecv ts True h calls) \<longleftrightarrow> ts \<noteq> [] \<and> accepted parse onRecv ts h = 0"
  by (cases ts) (auto split: option.splits prod.splits bool.splits simp: process_unpaused)

lemma process_end:
  "proc_end (process_packets parse onRecv ts paused h calls) = AllHandled \<longleftrightarrow>
     accepted parse onRecv ts h = length ts"
  by (induction ts arbitrary: paused h calls) (auto split: option.splits prod.splits bool.splits)

lemma process_calls_prefix:
  "\<exists>n. proc_calls (process_packets parse onRecv ts paused h calls) =
     calls @ zip (map (\<lambda>t. the (parse t)) (take n ts)) (paused # replicate (length ts) False)
     \<and> accepted parse onRecv ts h \<le> n \<and> n \<le> Suc (accepted parse onRecv ts h) \<and> n \<le> length ts"
proof (induction ts arbitrary: paused h calls)
  case Nil
  then show ?case by simp
next
  case (Cons t ts)
  show ?case
  proof (cases "parse t")
    case None
    then show ?thesis by (intro exI [of _ 0]) simp
  next
    case (Some p)
    obtain ok h' where step: "onRecv p h = (ok, h')" by fastforce
    show ?thesis
    proof (cases ok)
      case False
      with Some step show ?thesis by (intro exI [of _ 1]) simp
    next
      case True
      obtain n where "proc_calls (process_packets parse onRecv ts False h' (calls @ [(p, paused)])) =
          (calls @ [(p, paused)]) @ zip (map (\<lambda>t. the (parse t)) (take n ts)) (False # replicate (length ts) False)"
        "accepted parse onRecv ts h' \<le> n" "n \<le> Suc (accepted parse onRecv ts h')" "n \<le> length ts"
        using Cons.IH by blast
      with Some step True show ?thesis by (intro exI [of _ "Suc n"]) simp
    qed
  qed
qed

section \<open>Properties\<close>

text \<open>C16: cutting the stream into packets does not depend on how the stream was cut into chunks: after any
  chunks the packets handed over are exactly the NUL-terminated pieces of everything received, in
  order, and the buffer holds exactly the unfinished rest.\<close>

theorem framing_chunk_independent:
  "snd (absorb_all split_chunk cs []) = butlast (split_on NUL (concat cs))
   \<and> concat (fst (absorb_all split_chunk cs [])) = last (split_on NUL (concat cs))"
  using stream.absorb_all_frames [of "[]" cs] by simp

text \<open>What \<open>send\<close> writes for a sequence of packets is recovered packet by packet by the receiving
  half of the link, whatever the chunks, with nothing left over: \<open>JSON.stringify\<close> escapes
  control characters, so no packet text contains the separator.\<close>

theorem send_framing_roundtrip:
  assumes "concat cs = concat (fold link_send ps [])"
  shows "snd (absorb_all split_chunk cs []) = map (stringify \<circ> json_client_packet) ps
    \<and> concat (fst (absorb_all split_chunk cs [])) = ''''"
proof -
  have "fold link_send ps ws = ws @ map (frame \<circ> json_client_packet) ps" for ws
    by (induction ps arbitrary: ws) (simp_all add: link_send_def)
  then have "concat cs = concat (map (\<lambda>t. t @ [NUL]) (map (stringify \<circ> json_client_packet) ps))"
    using assms by (simp add: frame_def comp_def)
  then show ?thesis
    using stream.frames_roundtrip [of "[]" "map (stringify \<circ> json_client_packet) ps" cs] stringify_no_nul
    by (auto simp: NUL_def)
qed

theorem send_framing_roundtrip_witness:
  "snd (absorb_all split_chunk [concat (fold link_send [PktGreeting (ClientGreeting 0),
      PktCommand (CmdPauseSimulation CommandPauseSimulation)] [])] []) =
   map (stringify \<circ> json_client_packet)
     [PktGreeting (ClientGreeting 0), PktCommand (CmdPauseSimulation CommandPauseSimulation)]"
  by (rule conjunct1 [OF send_framing_roundtrip]) simp

text \<open>Packets are handled in order and handling stops at the first that is malformed or whose
  handler fails, but the stream is left paused only when that packet was the first of its chunk: the
  loop resumes the stream after every packet, so the second and later handlers of a chunk already run
  with the stream flowing, and a later failure does not stop it.\<close>

theorem stream_pause_discipline:
  assumes "split_chunk chunk b = (b', ts)" and "onStreamData parse onRecv chunk b h = (b', r)"
  shows "(proc_end r = AllHandled \<longleftrightarrow> accepted parse onRecv ts h = length ts)
    \<and> (proc_paused r \<longleftrightarrow> ts \<noteq> [] \<and> accepted parse onRecv ts h = 0)
    \<and> (\<exists>n. proc_calls r = zip (map (\<lambda>t. the (parse t)) (take n ts)) (True # replicate (length ts) False)
         \<and> accepted parse onRecv ts h \<le> n \<and> n \<le> Suc (accepted parse onRecv ts h))"
proof -
  have r: "r = process_packets parse onRecv ts True h []"
    using assms by (simp add: onStreamData_def)
  show ?thesis
    unfolding r using process_calls_prefix [of parse onRecv ts True h "[]"]
    by (auto simp: process_end process_paused)
qed

theorem stream_pause_discipline_witness:
  "\<not> proc_paused (snd (onStreamData (\<lambda>t. if t = ''ok'' then Some t else None) (\<lambda>p h. (True, Suc h))
     (''ok'' @ [NUL] @ ''bad'' @ [NUL]) [] 0))
   \<and> proc_end (snd (onStreamData (\<lambda>t. if t = ''ok'' then Some t else None) (\<lambda>p h. (True, Suc h))
     (''ok'' @ [NUL] @ ''bad'' @ [NUL]) [] 0)) \<noteq> AllHandled"
proof -
  let ?parse = "\<lambda>t. if t = ''ok'' then Some t else None" and ?recv = "\<lambda>(p :: string) h. (True, Suc h)"
  let ?c = "''ok'' @ [NUL] @ ''bad'' @ [NUL]"
  have cut: "split_chunk ?c [] = ([''''], [''ok'', ''bad''])" by (simp add: split_chunk_def NUL_def)
  then have "onStreamData ?parse ?recv ?c [] 0 = ([''''], snd (onStreamData ?parse ?recv ?c [] 0))"
    by (simp add: onStreamData_def)
  from stream_pause_discipline [OF cut this] show ?thesis by simp
qed

text \<open>A client that keeps to the script of a mock conversation receives all scripted replies in order,
  sees the end of the conversation exactly once, and may then dispose of the link; any further packet
  is refused.\<close>

theorem mock_conversation:
  "mock_run (map fst conv) conv =
     Inr (concat (map (reply_packets \<circ> snd) conv), if conv = [] then 0 else 1, [])
   \<and> mock_dispose [] = Inr ()
   \<and> mock_run (map fst conv @ [p]) conv = Inl (GenericError ''premature end of conversation'')"
  by (induction conv) (auto simp: mock_send_def mock_dispose_def)

end
