(* ===== verification/Client.thy ===== *)
theory Client
  imports Link "HOL-Library.Multiset"
begin

text \<open>
  \<open>src/src/cxxrtl/client.ts\<close>: one connection to a CXXRTL server.  Commands may be issued at any time;
  the server answers them in order, without naming them, so the connection keeps the promises of
  the unanswered commands in a queue.

  \<open>perform\<close> awaits \<open>send\<close> before it creates the promise, so issuing a command takes two
  steps: \<open>perform_start\<close> (the packet goes to the link) and, one turn of the microtask queue later,
  \<open>perform_register\<close> (the promise joins the queue).  \<open>registering\<close> holds the commands
  between the two.  Commands are numbered in the order they are issued; \<open>settled\<close> records
  which command was settled with which result, in order, \<open>outbox\<close> the packets given to the
  link and \<open>notified\<close> the calls of \<open>onConnected\<close>, \<open>onDisconnected\<close> and \<open>onEvent\<close>.
  Of the timestamps, only their number matters.
\<close>

section \<open>State\<close>

datatype connection_state = Initializing | Connected | Disconnected

datatype notification = NotifyConnected | NotifyDisconnected | NotifyEvent any_event

type_synonym result = "js_error + any_response"

record connection =
  conn_state :: connection_state
  conn_commands :: "string list"
  conn_events :: "string list"
  conn_itemValuesEncodings :: "string list"
  promises :: "nat list"
  timestamps :: nat
  sendIndex :: nat
  recvIndex :: nat
  registering :: "nat list"
  next_command :: nat
  outbox :: "client_packet list"
  settled :: "(nat \<times> result) list"
  notified :: "notification list"

section \<open>Operations\<close>

definition traceSend :: "client_packet \<Rightarrow> connection \<Rightarrow> connection" where
  "traceSend p c =
     (case p of
        PktGreeting g \<Rightarrow> c
      | PktCommand cmd \<Rightarrow> c\<lparr>timestamps := Suc (timestamps c), sendIndex := Suc (sendIndex c)\<rparr>)"

text \<open>A response takes the time of \<open>timestamps.shift()\<close>, which may be undefined.\<close>

definition traceRecv :: "server_packet \<Rightarrow> connection \<Rightarrow> js_error + connection" where
  "traceRecv p c =
     (case p of
        SrvGreeting g \<Rightarrow> Inr c
      | SrvResponse r \<Rightarrow>
          if timestamps c = 0 then Inl (TypeError ''getTime of undefined'')
          else Inr (c\<lparr>timestamps := timestamps c - 1, recvIndex := Suc (recvIndex c)\<rparr>)
      | SrvError e \<Rightarrow> Inr (c\<lparr>timestamps := timestamps c - 1, recvIndex := Suc (recvIndex c)\<rparr>)
      | SrvEvent ev \<Rightarrow> Inr c)"

definition conn_send :: "client_packet \<Rightarrow> connection \<Rightarrow> (js_error + unit) \<times> connection" where
  "conn_send p c =
     (let c = traceSend p c in
      if conn_state c = Disconnected
      then (Inl (GenericError ''unable to send packet after link is shutdown''), c)
      else (Inr (), c\<lparr>outbox := outbox c @ [p]\<rparr>))"

definition rejectPromises :: "js_error \<Rightarrow> connection \<Rightarrow> connection" where
  "rejectPromises e c =
     c\<lparr>settled := settled c @ map (\<lambda>i. (i, Inl e)) (promises c), promises := []\<rparr>"

definition settle_next :: "result \<Rightarrow> js_error \<Rightarrow> connection \<Rightarrow> connection" where
  "settle_next r unexpected c =
     (case promises c of
        i # rest \<Rightarrow> c\<lparr>promises := rest, settled := settled c @ [(i, r)]\<rparr>
      | [] \<Rightarrow> rejectPromises unexpected c)"

definition receive :: "server_packet \<Rightarrow> connection \<Rightarrow> connection" where
  "receive p c =
     (case (conn_state c, p) of
        (Initializing, SrvGreeting g) \<Rightarrow>
          if sg_version g = 0
          then c\<lparr>conn_commands := sg_commands g, conn_events := sg_events g,
                conn_itemValuesEncodings := item_values_encoding (sg_features g),
                conn_state := Connected, notified := notified c @ [NotifyConnected]\<rparr>
          else rejectPromises (GenericError ''unexpected CXXRTL protocol version'') c
      | (Connected, SrvResponse r) \<Rightarrow>
          settle_next (Inr r) (GenericError ''unexpected reply with no commands queued'') c
      | (Connected, SrvError e) \<Rightarrow>
          settle_next (Inl (CommandError (error_code e)))
            (GenericError ''unexpected reply with no commands queued'') c
      | (Connected, SrvEvent ev) \<Rightarrow> c\<lparr>notified := notified c @ [NotifyEvent ev]\<rparr>
      | _ \<Rightarrow> rejectPromises (GenericError ''unexpected packet received'') c)"

definition onLinkRecv :: "server_packet \<Rightarrow> connection \<Rightarrow> js_error + connection" where
  "onLinkRecv p c = (case traceRecv p c of Inl e \<Rightarrow> Inl e | Inr c' \<Rightarrow> Inr (receive p c'))"

definition onLinkDone :: "connection \<Rightarrow> connection" where
  "onLinkDone c =
     (let c = rejectPromises (GenericError ''commands will not receive a reply after link is done'') c
      in c\<lparr>conn_state := Disconnected, notified := notified c @ [NotifyDisconnected]\<rparr>)"

definition perform_start :: "any_command \<Rightarrow> connection \<Rightarrow> connection" where
  "perform_start cmd c =
     (let i = next_command c; (r, c') = conn_send (PktCommand cmd) c; c'' = c'\<lparr>next_command := Suc i\<rparr>
      in case r of
           Inl e \<Rightarrow> c''\<lparr>settled := settled c'' @ [(i, Inl e)]\<rparr>
         | Inr _ \<Rightarrow> c''\<lparr>registering := registering c'' @ [i]\<rparr>)"

definition perform_register :: "connection \<Rightarrow> connection" where
  "perform_register c =
     (case registering c of
        [] \<Rightarrow> c
      | i # rest \<Rightarrow> c\<lparr>registering := rest, promises := promises c @ [i]\<rparr>)"

definition blank_connection :: connection where
  "blank_connection =
     \<lparr>conn_state = Initializing, conn_commands = [], conn_events = [], conn_itemValuesEncodings = [],
      promises = [], timestamps = 0, sendIndex = 0, recvIndex = 0, registering = [], next_command = 0,
      outbox = [], settled = [], notified = []\<rparr>"

definition new_Connection :: connection where
  "new_Connection = snd (conn_send (PktGreeting (ClientGreeting 0)) blank_connection)"

section \<open>Runs\<close>

datatype conn_event = EvSend any_command | EvRegister | EvRecv server_packet | EvDone

fun conn_step :: "conn_event \<Rightarrow> connection \<Rightarrow> connection" where
  "conn_step (EvSend cmd) c = perform_start cmd c"
| "conn_step EvRegister c = perform_register c"
| "conn_step (EvRecv p) c = (case onLinkRecv p c of Inl e \<Rightarrow> c | Inr c' \<Rightarrow> c')"
| "conn_step EvDone c = onLinkDone c"

inductive conn_reachable :: "connection \<Rightarrow> bool" where
  start: "conn_reachable new_Connection"
| step: "conn_reachable c \<Longrightarrow> conn_reachable (conn_step e c)"

section \<open>Every command is accounted for\<close>

text \<open>
  All commands ever issued are settled, queued or being registered, each exactly once; until the
  link is done they are so in the order of issue.
\<close>

definition accounted :: "connection \<Rightarrow> nat list" where
  "accounted c = map fst (settled c) @ promises c @ registering c"

definition conn_inv :: "connection \<Rightarrow> bool" where
  "conn_inv c \<longleftrightarrow>
     mset (accounted c) = mset [0..<next_command c] \<and>
     (conn_state c = Disconnected \<or> accounted c = [0..<next_command c])"

lemma accounted_reject [simp]: "accounted (rejectPromises e c) = accounted c"
  by (simp add: accounted_def rejectPromises_def comp_def)

lemma conn_state_reject [simp]: "conn_state (rejectPromises e c) = conn_state c"
  "next_command (rejectPromises e c) = next_command c" "registering (rejectPromises e c) = registering c"
  "promises (rejectPromises e c) = []"
  by (simp_all add: rejectPromises_def)

lemma accounted_settle [simp]: "accounted (settle_next r e c) = accounted c"
  by (simp add: settle_next_def split: list.split) (simp add: accounted_def)

lemma settle_frame [simp]:
  "conn_state (settle_next r e c) = conn_state c" "next_command (settle_next r e c) = next_command c"
  by (simp_all add: settle_next_def split: list.split)

lemma receive_frame:
  "accounted (receive p c) = accounted c \<and> next_command (receive p c) = next_command c \<and>
   (conn_state (receive p c) = Disconnected \<longleftrightarrow> conn_state c = Disconnected)"
  by (cases "conn_state c"; cases p) (simp_all add: receive_def, auto simp: accounted_def)

lemma traceRecv_frame:
  "traceRecv p c = Inr c' \<Longrightarrow> accounted c' = accounted c \<and> next_command c' = next_command c \<and> conn_state c' = conn_state c"
  by (cases p) (auto simp: traceRecv_def accounted_def split: if_splits)

lemma inv_onLinkRecv [inv_rules]: "conn_inv c \<Longrightarrow> onLinkRecv p c = Inr c' \<Longrightarrow> conn_inv c'"
  using receive_frame traceRecv_frame
  by (fastforce simp: conn_inv_def onLinkRecv_def split: sum.splits)

lemma inv_onLinkDone [inv_rules]: "conn_inv c \<Longrightarrow> conn_inv (onLinkDone c)"
  using accounted_reject [of _ c]
  by (auto simp: conn_inv_def onLinkDone_def Let_def accounted_def)

lemma inv_perform_start [inv_rules]: "conn_inv c \<Longrightarrow> conn_inv (perform_start cmd c)"
  by (auto simp: conn_inv_def perform_start_def conn_send_def traceSend_def accounted_def Let_def
      simp del: mset_upt)

lemma inv_perform_register [inv_rules]: "conn_inv c \<Longrightarrow> conn_inv (perform_register c)"
  by (auto simp: conn_inv_def perform_register_def accounted_def split: list.splits)

lemma inv_new_Connection [inv_rules]: "conn_inv new_Connection"
  by (simp add: conn_inv_def new_Connection_def conn_send_def traceSend_def blank_connection_def accounted_def)

lemma inv_conn_step [inv_rules]: "conn_inv c \<Longrightarrow> conn_inv (conn_step e c)"
  by (cases e) (auto intro: inv_rules split: sum.splits)

lemma reachable_inv: "conn_reachable c \<Longrightarrow> conn_inv c"
  by (induction rule: conn_reachable.induct) (auto intro: inv_rules)

section \<open>Replies meet their commands\<close>

fun replies :: "conn_event list \<Rightarrow> result list" where
  "replies [] = []"
| "replies (EvRecv (SrvResponse r) # es) = Inr r # replies es"
| "replies (EvRecv (SrvError e) # es) = Inl (CommandError (error_code e)) # replies es"
| "replies (_ # es) = replies es"

text \<open>
  A run in which the server behaves: it sends no second greeting, and replies only to commands whose
  promise is already queued; the link stays up.
\<close>

fun well_behaved :: "conn_event list \<Rightarrow> connection \<Rightarrow> bool" where
  "well_behaved [] c = True"
| "well_behaved (e # es) c =
     ((case e of
         EvRecv (SrvGreeting g) \<Rightarrow> False
       | EvRecv (SrvResponse r) \<Rightarrow> promises c \<noteq> []
       | EvRecv (SrvError x) \<Rightarrow> promises c \<noteq> []
       | EvDone \<Rightarrow> False
       | _ \<Rightarrow> True) \<and> well_behaved es (conn_step e c))"

text \<open>On such runs the connection also has one timestamp per unanswered command.\<close>

definition in_step :: "connection \<Rightarrow> bool" where
  "in_step c \<longleftrightarrow> conn_state c = Connected \<and> timestamps c = length (promises c) + length (registering c)"

lemma well_behaved_step:
  assumes "in_step c" "well_behaved (e # es) c"
  shows "in_step (conn_step e c) \<and>
    map snd (settled (conn_step e c)) @ replies es = map snd (settled c) @ replies (e # es)"
proof (cases e)
  case (EvSend cmd)
  with assms show ?thesis
    by (simp add: in_step_def perform_start_def conn_send_def traceSend_def Let_def)
next
  case EvRegister
  with assms show ?thesis
    by (auto simp: in_step_def perform_register_def split: list.splits)
next
  case (EvRecv p)
  show ?thesis
  proof (cases p)
    case (SrvEvent ev)
    with EvRecv assms show ?thesis
      by (simp add: in_step_def onLinkRecv_def traceRecv_def receive_def)
  next
    case (SrvResponse r)
    with EvRecv assms obtain i rest where "promises c = i # rest" by (cases "promises c") auto
    with SrvResponse EvRecv assms show ?thesis
      by (simp add: in_step_def onLinkRecv_def traceRecv_def receive_def settle_next_def)
  next
    case (SrvError x)
    with EvRecv assms obtain i rest where "promises c = i # rest" by (cases "promises c") auto
    with SrvError EvRecv assms show ?thesis
      by (simp add: in_step_def onLinkRecv_def traceRecv_def receive_def settle_next_def)
  qed (use EvRecv assms in simp)
qed (use assms in simp)

lemma well_behaved_run:
  "in_step c \<Longrightarrow> well_behaved es c \<Longrightarrow>
     in_step (fold conn_step es c) \<and> map snd (settled (fold conn_step es c)) = map snd (settled c) @ replies es"
proof (induction es arbitrary: c)
  case Nil
  then show ?case by simp
next
  case (Cons e es)
  from well_behaved_step [OF Cons.prems] Cons.IH [of "conn_step e c"] Cons.prems show ?case by simp
qed

lemma inv_run [inv_rules]: "conn_inv c \<Longrightarrow> conn_inv (fold conn_step es c)"
  by (induction es arbitrary: c) (auto intro: inv_rules)

definition greeted :: "server_greeting \<Rightarrow> connection" where
  "greeted g = conn_step (EvRecv (SrvGreeting g)) new_Connection"

lemma greeted_fields:
  assumes "sg_version g = 0"
  shows "in_step (greeted g)" "settled (greeted g) = []" "conn_inv (greeted g)"
  using assms inv_conn_step [OF inv_new_Connection, of "EvRecv (SrvGreeting g)"]
  by (simp_all add: greeted_def new_Connection_def conn_send_def traceSend_def blank_connection_def
      onLinkRecv_def traceRecv_def receive_def in_step_def)

section \<open>The wire\<close>

fun issued :: "conn_event list \<Rightarrow> any_command list" where
  "issued [] = []"
| "issued (EvSend cmd # es) = cmd # issued es"
| "issued (_ # es) = issued es"

lemma outbox_receive: "outbox (receive p c) = outbox c"
  by (cases "conn_state c"; cases p)
    (simp_all add: receive_def settle_next_def rejectPromises_def split: list.split)

lemma outbox_traceRecv: "traceRecv p c = Inr c' \<Longrightarrow> outbox c' = outbox c"
  by (cases p) (auto simp: traceRecv_def split: if_splits)

lemma outbox_step:
  assumes "conn_state c \<noteq> Disconnected" "e \<noteq> EvDone"
  shows "conn_state (conn_step e c) \<noteq> Disconnected \<and>
    outbox (conn_step e c) @ map PktCommand (issued es) = outbox c @ map PktCommand (issued (e # es))"
proof (cases e)
  case (EvRecv p)
  show ?thesis
  proof (cases "traceRecv p c")
    case (Inl err)
    with EvRecv assms(1) show ?thesis by (cases p) (simp_all add: onLinkRecv_def traceRecv_def)
  next
    case (Inr c')
    have "issued (e # es) = issued es" by (simp add: EvRecv)
    with Inr EvRecv assms(1) traceRecv_frame [OF Inr] outbox_traceRecv [OF Inr] receive_frame [of p c']
    show ?thesis by (simp add: onLinkRecv_def outbox_receive)
  qed
next
  case EvRegister
  with assms(1) show ?thesis by (simp add: perform_register_def split: list.split)
qed (use assms in \<open>simp_all add: perform_start_def conn_send_def traceSend_def Let_def\<close>)

lemma outbox_run:
  "conn_state c \<noteq> Disconnected \<Longrightarrow> EvDone \<notin> set es \<Longrightarrow>
     outbox (fold conn_step es c) = outbox c @ map PktCommand (issued es)"
proof (induction es arbitrary: c)
  case Nil
  then show ?case by simp
next
  case (Cons e es)
  from outbox_step [of c e es] Cons.prems Cons.IH [of "conn_step e c"] show ?case by auto
qed

section \<open>Properties\<close>

text \<open>C14: every command is accounted for in every reachable state: it is settled, waiting for its reply or
  about to be queued, exactly once; and as long as the link is up the commands are settled in the
  order in which they were issued.\<close>

theorem commands_accounted:
  assumes "conn_reachable c"
  shows "distinct (accounted c) \<and> set (accounted c) = {0..<next_command c}
    \<and> (conn_state c = Disconnected \<or> accounted c = [0..<next_command c])"
proof -
  have inv: "conn_inv c" using assms by (rule reachable_inv)
  then have all: "mset (accounted c) = mset [0..<next_command c]"
    and order: "conn_state c = Disconnected \<or> accounted c = [0..<next_command c]"
    unfolding conn_inv_def by blast+
  have "distinct (accounted c)" using mset_eq_imp_distinct_iff [OF all] distinct_upt by blast
  moreover have "set (accounted c) = {0..<next_command c}" using mset_eq_setD [OF all] by simp
  ultimately show ?thesis using order by blast
qed

theorem commands_accounted_witness:
  "distinct (accounted (onLinkDone (perform_register (perform_start (CmdPauseSimulation CommandPauseSimulation)
     new_Connection))))"
proof -
  have "conn_reachable (conn_step EvDone (conn_step EvRegister
      (conn_step (EvSend (CmdPauseSimulation CommandPauseSimulation)) new_Connection)))"
    by (intro conn_reachable.intros)
  from commands_accounted [OF this] show ?thesis by simp
qed

text \<open>C13: after the greeting, a server that answers every command in order, and never before its promise is
  queued, has each answer delivered to its own command: the k-th reply settles the k-th command, with the
  response or with the server's error code, however sending, queueing, events and replies interleave.\<close>

theorem replies_meet_commands:
  assumes "sg_version g = 0" "well_behaved es (greeted g)"
  shows "settled (fold conn_step es (greeted g)) = enumerate 0 (replies es)
    \<and> conn_state (fold conn_step es (greeted g)) = Connected"
proof -
  let ?c = "fold conn_step es (greeted g)"
  have run: "in_step ?c" "map snd (settled ?c) = replies es"
    using well_behaved_run [OF greeted_fields(1) assms(2)] greeted_fields(2) assms(1) by simp_all
  have conn: "conn_state ?c = Connected" using run(1) by (simp add: in_step_def)
  have "conn_inv ?c" by (rule inv_run [OF greeted_fields(3) [OF assms(1)]])
  with conn have "map fst (settled ?c) @ promises ?c @ registering ?c = [0..<next_command ?c]"
    by (simp add: conn_inv_def accounted_def)
  then have "map fst (settled ?c) = take (length (settled ?c)) [0..<next_command ?c]"
    by (metis append_eq_conv_conj length_map)
  moreover have "length (settled ?c) \<le> next_command ?c"
    using \<open>map fst (settled ?c) @ _ = _\<close> by (metis le_add1 length_append length_map length_upt diff_zero)
  ultimately have "map fst (settled ?c) = [0..<length (settled ?c)]" by simp
  then have "settled ?c = zip [0..<length (settled ?c)] (map snd (settled ?c))"
    by (metis zip_map_fst_snd)
  with run conn show ?thesis by (metis enumerate_eq_zip length_map add_0)
qed

theorem replies_meet_commands_witness:
  "settled (fold conn_step
      [EvSend (CmdRunSimulation (CommandRunSimulation None [] True)),
       EvSend (CmdPauseSimulation CommandPauseSimulation), EvRegister, EvRegister,
       EvRecv (SrvResponse (ResRunSimulation ResponseRunSimulation)),
       EvRecv (SrvError (ErrorPacket ''busy'' ''no''))]
      (greeted (ServerGreeting 0 [] [] (Features [])))) =
    enumerate 0 [Inr (ResRunSimulation ResponseRunSimulation), Inl (CommandError ''busy'')]"
  by (subst replies_meet_commands)
    (simp_all add: greeted_def new_Connection_def conn_send_def traceSend_def blank_connection_def
      onLinkRecv_def traceRecv_def receive_def perform_start_def perform_register_def settle_next_def Let_def)

text \<open>A reply that arrives before the promise of its command is queued settles nothing, and the
  promise queued afterwards stays in the queue: the reply is lost.  This is what happens on the mock
  link, which answers from inside \<open>send\<close>.\<close>

theorem early_reply_lost:
  assumes "conn_state c = Connected" "promises c = []" "registering c = []"
    and "p = SrvResponse r \<or> p = SrvError e"
  shows "settled (conn_step EvRegister (conn_step (EvRecv p) (conn_step (EvSend cmd) c))) = settled c
    \<and> promises (conn_step EvRegister (conn_step (EvRecv p) (conn_step (EvSend cmd) c))) = [next_command c]"
  using assms
  by (auto simp: perform_start_def conn_send_def traceSend_def Let_def onLinkRecv_def traceRecv_def
      receive_def settle_next_def rejectPromises_def perform_register_def)

theorem early_reply_lost_witness:
  "promises (conn_step EvRegister (conn_step (EvRecv (SrvResponse (ResRunSimulation ResponseRunSimulation)))
     (conn_step (EvSend (CmdRunSimulation (CommandRunSimulation None [] True)))
       (greeted (ServerGreeting 0 [] [] (Features [])))))) = [0]"
  using early_reply_lost [of "greeted (ServerGreeting 0 [] [] (Features []))"
      "SrvResponse (ResRunSimulation ResponseRunSimulation)" "ResRunSimulation ResponseRunSimulation"
      "ErrorPacket '''' ''''" "CmdRunSimulation (CommandRunSimulation None [] True)"]
  by (simp add: greeted_def new_Connection_def conn_send_def traceSend_def blank_connection_def
      onLinkRecv_def traceRecv_def receive_def)

text \<open>C40: when the link is done every queued command is rejected, in order, with the error that it will not
  receive a reply; a command issued later is rejected at once, with the error that the packet cannot be
  sent, and does not reach the link; but a command caught between its two steps is queued afterwards
  and is then never settled, whatever further commands are issued.\<close>

theorem link_done_settles_queue:
  assumes "registering c = i # rest" "i \<notin> fst ` set (settled c)" "i \<notin> set (promises c)" "i < next_command c"
    and "list_all (\<lambda>e. e = EvRegister \<or> (\<exists>cmd. e = EvSend cmd)) es"
  shows "promises (onLinkDone c) = []
    \<and> settled (onLinkDone c) = settled c @
        map (\<lambda>j. (j, Inl (GenericError ''commands will not receive a reply after link is done''))) (promises c)
    \<and> outbox (perform_start cmd (onLinkDone c)) = outbox c
    \<and> settled (perform_start cmd (onLinkDone c)) = settled (onLinkDone c) @
        [(next_command c, Inl (GenericError ''unable to send packet after link is shutdown''))]
    \<and> i \<in> set (promises (fold conn_step es (perform_register (onLinkDone c))))
    \<and> i \<notin> fst ` set (settled (fold conn_step es (perform_register (onLinkDone c))))"
proof -
  let ?c = "perform_register (onLinkDone c)"
  have base: "conn_state ?c = Disconnected" "i \<in> set (promises ?c)" "i \<notin> fst ` set (settled ?c)" "i < next_command ?c"
    using assms(1-4)
    by (auto simp: onLinkDone_def rejectPromises_def perform_register_def Let_def)
  have "conn_state d = Disconnected \<Longrightarrow> i \<in> set (promises d) \<Longrightarrow> i \<notin> fst ` set (settled d) \<Longrightarrow>
      i < next_command d \<Longrightarrow> i \<in> set (promises (fold conn_step es d)) \<and> i \<notin> fst ` set (settled (fold conn_step es d))" for d
    using assms(5)
  proof (induction es arbitrary: d)
    case Nil
    then show ?case by simp
  next
    case (Cons e es)
    from Cons.prems have "conn_state (conn_step e d) = Disconnected \<and> i \<in> set (promises (conn_step e d)) \<and>
        i \<notin> fst ` set (settled (conn_step e d)) \<and> i < next_command (conn_step e d)"
      by (auto simp: perform_start_def conn_send_def traceSend_def Let_def perform_register_def split: list.splits)
    with Cons show ?case by simp
  qed
  with base have "i \<in> set (promises (fold conn_step es ?c))" "i \<notin> fst ` set (settled (fold conn_step es ?c))"
    by blast+
  then show ?thesis
    by (auto simp: onLinkDone_def rejectPromises_def perform_start_def conn_send_def traceSend_def Let_def comp_def)
qed

theorem link_done_settles_queue_witness:
  "0 \<in> set (promises (fold conn_step [EvSend (CmdPauseSimulation CommandPauseSimulation), EvRegister]
     (perform_register (onLinkDone (perform_start (CmdPauseSimulation CommandPauseSimulation) new_Connection)))))"
  using link_done_settles_queue [of "perform_start (CmdPauseSimulation CommandPauseSimulation) new_Connection" 0 "[]"
      "[EvSend (CmdPauseSimulation CommandPauseSimulation), EvRegister]"]
  by (simp add: perform_start_def new_Connection_def conn_send_def traceSend_def blank_connection_def Let_def)

text \<open>A response that no command accounts for does not get the error report meant for it: reading its
  timestamp throws first and nothing changes, while an error packet in the same situation rejects the
  (empty) queue.  A greeting of another protocol version rejects everything queued but leaves the
  connection initializing, still accepting commands.\<close>

theorem unsolicited_packets:
  "(onLinkRecv (SrvResponse r) c = Inl (TypeError ''getTime of undefined'') \<longleftrightarrow> timestamps c = 0)
   \<and> is_ok (onLinkRecv (SrvError e) c)
   \<and> (if sg_version g \<noteq> 0 \<and> conn_state c = Initializing
       then \<exists>c'. onLinkRecv (SrvGreeting g) c = Inr c' \<and> conn_state c' = Initializing \<and> promises c' = []
          \<and> outbox (perform_start cmd c') = outbox c @ [PktCommand cmd]
       else True)"
  by (auto simp: onLinkRecv_def traceRecv_def receive_def rejectPromises_def perform_start_def conn_send_def
      traceSend_def Let_def)

text \<open>Until the link is done, what is given to the link is the greeting followed by the issued commands
  in order, from the very start of the connection and without waiting for the server's greeting.\<close>

theorem outbox_order:
  assumes "EvDone \<notin> set es"
  shows "outbox (fold conn_step es new_Connection) = PktGreeting (ClientGreeting 0) # map PktCommand (issued es)"
  using outbox_run [of new_Connection es] assms
  by (simp add: new_Connection_def conn_send_def traceSend_def blank_connection_def)

theorem outbox_order_witness:
  "outbox (fold conn_step [EvSend (CmdPauseSimulation CommandPauseSimulation)] new_Connection) =
     [PktGreeting (ClientGreeting 0), PktCommand (CmdPauseSimulation CommandPauseSimulation)]"
  using outbox_order [of "[EvSend (CmdPauseSimulation CommandPauseSimulation)]"] by simp

end
