(* ===== verification/Async.thy ===== *)
theory Async
  imports Client
begin

text \<open>
  The \<open>async\<close> methods of the program, as state-passing resumptions.  An \<open>async\<close> function runs
  synchronously until its first \<open>await\<close>; what is left of it is an \<open>outcome\<close>: \<open>Done\<close> with the
  value or the error it settles with, \<open>Await\<close> with a command that has been issued and the code
  that runs when the reply arrives, or \<open>Turn\<close>, a turn of the microtask queue, with the code that
  runs after it.  Between the segments of one task, segments of other tasks may run on the same state.

  \<open>run\<close> executes a task without interference, a server answering each command; \<open>pool_step\<close>
  executes any number of tasks with their segments interleaved in any order.  \<open>keeps\<close> and
  \<open>watches\<close> are the two ways the development proves facts of every interleaving: the first for
  relations between the states before and after a segment, the second for an invariant that may
  be broken as long as some task is about to restore it.
\<close>

section \<open>Tasks\<close>

datatype ('s, 'a) outcome =
    Done "js_error + 'a"
  | Turn "'s \<Rightarrow> 's \<times> ('s, 'a) outcome"
  | Await any_command "result \<Rightarrow> 's \<Rightarrow> 's \<times> ('s, 'a) outcome"

type_synonym ('s, 'a) async = "'s \<Rightarrow> 's \<times> ('s, 'a) outcome"

definition return :: "'a \<Rightarrow> ('s, 'a) async" where
  "return a s = (s, Done (Inr a))"

definition throw :: "js_error \<Rightarrow> ('s, 'a) async" where
  "throw e s = (s, Done (Inl e))"

definition of_result :: "js_error + 'a \<Rightarrow> ('s, 'a) async" where
  "of_result r s = (s, Done r)"

text \<open>
  \<open>continue o f\<close> is the rest of a task after \<open>await\<close> of a promise whose own rest is \<open>o\<close>: once
  that promise is settled, the code after the \<open>await\<close> runs in a later turn, and an error is thrown
  at the \<open>await\<close>.
\<close>

primrec continue :: "('s, 'a) outcome \<Rightarrow> ('a \<Rightarrow> ('s, 'b) async) \<Rightarrow> ('s, 'b) outcome" where
  "continue (Done r) f = Turn (\<lambda>s. case r of Inl e \<Rightarrow> throw e s | Inr a \<Rightarrow> f a s)"
| "continue (Turn k) f = Turn (\<lambda>s. map_prod id (\<lambda>o'. continue o' f) (k s))"
| "continue (Await c k) f = Await c (\<lambda>r s. map_prod id (\<lambda>o'. continue o' f) (k r s))"

definition await :: "('s, 'a) async \<Rightarrow> ('a \<Rightarrow> ('s, 'b) async) \<Rightarrow> ('s, 'b) async" where
  "await m f s = (case m s of (s', o') \<Rightarrow> (s', continue o' f))"

section \<open>A task on its own\<close>

text \<open>The reply to the command issued last is a function of the state, which logs the commands.\<close>

primrec finish :: "('s \<Rightarrow> result) \<Rightarrow> ('s, 'a) outcome \<Rightarrow> 's \<Rightarrow> 's \<times> (js_error + 'a)" where
  "finish server (Done r) s = (s, r)"
| "finish server (Turn k) s = (case map_prod id (finish server) (k s) of (s', g) \<Rightarrow> g s')"
| "finish server (Await c k) s = (case map_prod id (finish server) (k (server s) s) of (s', g) \<Rightarrow> g s')"

definition run :: "('s \<Rightarrow> result) \<Rightarrow> ('s, 'a) async \<Rightarrow> 's \<Rightarrow> 's \<times> (js_error + 'a)" where
  "run server m s = (case m s of (s', o') \<Rightarrow> finish server o' s')"

lemma finish_step [simp]:
  "finish server (Turn k) s = (case k s of (s', o') \<Rightarrow> finish server o' s')"
  "finish server (Await c h) s = (case h (server s) s of (s', o') \<Rightarrow> finish server o' s')"
  by (simp_all split: prod.split)

declare finish.simps(2,3) [simp del]

lemma run_basic [simp]:
  "run server (return a) s = (s, Inr a)" "run server (throw e) s = (s, Inl e)"
  "run server (of_result r) s = (s, r)"
  by (simp_all add: run_def return_def throw_def of_result_def)

lemma finish_continue:
  "finish server (continue o' f) s =
     (case finish server o' s of (s', r) \<Rightarrow> (case r of Inl e \<Rightarrow> (s', Inl e) | Inr a \<Rightarrow> run server (f a) s'))"
proof (induction o' arbitrary: s)
  case (Done r)
  then show ?case by (simp add: run_def throw_def split: sum.split)
next
  case (Turn k)
  obtain s' o' where k: "k s = (s', o')" by fastforce
  have "o' \<in> Basic_BNFs.snds (k s)" by (simp add: k)
  from Turn [OF rangeI this, of s'] show ?case by (simp add: k)
next
  case (Await c k)
  obtain s' o' where k: "k (server s) s = (s', o')" by fastforce
  have "k (server s) \<in> range k" "o' \<in> Basic_BNFs.snds (k (server s) s)" by (simp_all add: k)
  from Await [OF this(1) rangeI this(2), of s'] show ?case by (simp add: k)
qed

lemma run_await [simp]:
  "run server (await m f) s =
     (case run server m s of (s', r) \<Rightarrow> (case r of Inl e \<Rightarrow> (s', Inl e) | Inr a \<Rightarrow> run server (f a) s'))"
proof -
  obtain s' o' where "m s = (s', o')" by fastforce
  then show ?thesis by (simp add: run_def [of server m] run_def [of server "await m f"] await_def finish_continue)
qed

text \<open>\<open>try\<close> around an \<open>await\<close>: the error, too, is a value of the rest.\<close>

primrec caught :: "('s, 'a) outcome \<Rightarrow> ('s, js_error + 'a) outcome" where
  "caught (Done r) = Done (Inr r)"
| "caught (Turn k) = Turn (\<lambda>s. map_prod id caught (k s))"
| "caught (Await c h) = Await c (\<lambda>r s. map_prod id caught (h r s))"

definition attempt :: "('s, 'a) async \<Rightarrow> ('s, js_error + 'a) async" where
  "attempt m s = map_prod id caught (m s)"

lemma finish_caught: "finish server (caught o') s = map_prod id Inr (finish server o' s)"
proof (induction o' arbitrary: s)
  case (Turn k)
  have "snd (k s) \<in> Basic_BNFs.snds (k s)" by (cases "k s") simp
  from Turn [OF rangeI this, of "fst (k s)"] show ?case by (cases "k s") simp
next
  case (Await c h)
  have "snd (h (server s) s) \<in> Basic_BNFs.snds (h (server s) s)" by (cases "h (server s) s") simp
  from Await [OF rangeI rangeI this, of "fst (h (server s) s)"] show ?case by (cases "h (server s) s") simp
qed simp

lemma run_attempt [simp]: "run server (attempt m) s = map_prod id Inr (run server m s)"
  by (simp add: run_def attempt_def finish_caught split: prod.split)

section \<open>The values a task may settle with\<close>

text \<open>
  \<open>may_return m a\<close>: the task started by \<open>m\<close> is settled with \<open>a\<close> in some history, whatever the
  replies are and whatever others do to the state between its segments.
\<close>

inductive may_settle :: "('s, 'a) outcome \<Rightarrow> 'a \<Rightarrow> bool" where
  settle_Done: "may_settle (Done (Inr a)) a"
| settle_Turn: "may_settle (snd (k s)) a \<Longrightarrow> may_settle (Turn k) a"
| settle_Await: "may_settle (snd (h r s)) a \<Longrightarrow> may_settle (Await c h) a"

inductive_simps may_settle_simps [simp]:
  "may_settle (Done r) a" "may_settle (Turn k) a" "may_settle (Await c h) a"

definition may_return :: "('s, 'a) async \<Rightarrow> 'a \<Rightarrow> bool" where
  "may_return m a \<longleftrightarrow> (\<exists>s. may_settle (snd (m s)) a)"

lemma may_return_basic [simp]:
  "may_return (return a) b \<longleftrightarrow> b = a" "\<not> may_return (throw e) b" "may_return (of_result r) b \<longleftrightarrow> r = Inr b"
  by (auto simp: may_return_def return_def throw_def of_result_def)

lemma may_settle_continue: "may_settle (continue o' f) b \<Longrightarrow> \<exists>a. may_settle o' a \<and> may_return (f a) b"
proof (induction o')
  case (Done r)
  then show ?case by (cases r) (auto simp: may_return_def throw_def)
next
  case (Turn k)
  then obtain s where s: "may_settle (continue (snd (k s)) f) b" by auto
  have "snd (k s) \<in> Basic_BNFs.snds (k s)" by (cases "k s") simp
  from Turn.IH [OF rangeI this s] show ?case by auto
next
  case (Await c h)
  then obtain r s where s: "may_settle (continue (snd (h r s)) f) b" by auto
  have "snd (h r s) \<in> Basic_BNFs.snds (h r s)" by (cases "h r s") simp
  from Await.IH [OF rangeI rangeI this s] show ?case by auto
qed

lemma may_return_await: "may_return (await m f) b \<Longrightarrow> \<exists>a. may_return m a \<and> may_return (f a) b"
proof -
  assume "may_return (await m f) b"
  then obtain s where "may_settle (snd (await m f s)) b" by (auto simp: may_return_def)
  moreover have "snd (await m f s) = continue (snd (m s)) f" by (simp add: await_def split: prod.split)
  ultimately have "\<exists>a. may_settle (snd (m s)) a \<and> may_return (f a) b" by (simp add: may_settle_continue)
  then show ?thesis unfolding may_return_def [of m] by blast
qed

lemma finish_settles: "finish server o' s = (s', Inr a) \<Longrightarrow> may_settle o' a"
proof (induction o' arbitrary: s)
  case (Turn k)
  have "snd (k s) \<in> Basic_BNFs.snds (k s)" by (cases "k s") simp
  moreover have "finish server (snd (k s)) (fst (k s)) = (s', Inr a)" using Turn.prems by (cases "k s") simp
  ultimately have "may_settle (snd (k s)) a" by (rule Turn.IH [OF rangeI])
  then show ?case by (rule settle_Turn)
next
  case (Await c h)
  let ?q = "h (server s) s"
  have "snd ?q \<in> Basic_BNFs.snds ?q" by (cases ?q) simp
  moreover have "finish server (snd ?q) (fst ?q) = (s', Inr a)" using Await.prems by (cases ?q) simp
  ultimately have "may_settle (snd ?q) a" by (rule Await.IH [OF rangeI rangeI])
  then show ?case by (rule settle_Await)
qed simp

lemma run_may_return:
  assumes "run server m s = (s', Inr a)"
  shows "may_return m a"
proof -
  have "finish server (snd (m s)) (fst (m s)) = (s', Inr a)" using assms by (cases "m s") (simp add: run_def)
  then have "may_settle (snd (m s)) a" by (rule finish_settles)
  then show ?thesis unfolding may_return_def by blast
qed

section \<open>Interleaved tasks\<close>

text \<open>
  A pool is a state and the tasks at work on it.  \<open>api s\<close> are the calls that may be made in the
  state \<open>s\<close> and \<open>ok c\<close> the replies a command \<open>c\<close> may get.
\<close>

type_synonym 's pool = "'s \<times> ('s, unit) outcome list"

definition forget :: "('s, 'a) async \<Rightarrow> ('s, unit) async" where
  "forget m = await m (\<lambda>_. return ())"

inductive pool_step ::
  "('s \<Rightarrow> ('s, unit) async \<Rightarrow> bool) \<Rightarrow> (any_command \<Rightarrow> result \<Rightarrow> bool) \<Rightarrow> 's pool \<Rightarrow> 's pool \<Rightarrow> bool"
  for api ok where
  pool_call: "api s m \<Longrightarrow> m s = (s', o') \<Longrightarrow> pool_step api ok (s, ts) (s', ts @ [o'])"
| pool_turn: "i < length ts \<Longrightarrow> ts ! i = Turn k \<Longrightarrow> k s = (s', o') \<Longrightarrow>
    pool_step api ok (s, ts) (s', ts[i := o'])"
| pool_reply: "i < length ts \<Longrightarrow> ts ! i = Await c h \<Longrightarrow> ok c r \<Longrightarrow> h r s = (s', o') \<Longrightarrow>
    pool_step api ok (s, ts) (s', ts[i := o'])"

inductive_cases pool_stepE: "pool_step api ok p q"

abbreviation pool_run where
  "pool_run api ok \<equiv> rtranclp (pool_step api ok)"

section \<open>Relations every segment keeps\<close>

inductive keeps :: "('s \<Rightarrow> 's \<Rightarrow> bool) \<Rightarrow> ('s, 'a) outcome \<Rightarrow> bool" for R where
  keeps_Done: "keeps R (Done r)"
| keeps_Turn: "(\<And>s. R s (fst (k s)) \<and> keeps R (snd (k s))) \<Longrightarrow> keeps R (Turn k)"
| keeps_Await: "(\<And>r s. R s (fst (h r s)) \<and> keeps R (snd (h r s))) \<Longrightarrow> keeps R (Await c h)"

inductive_simps keeps_simps [simp]: "keeps R (Done r)" "keeps R (Turn k)" "keeps R (Await c h)"

definition keeps_async :: "('s \<Rightarrow> 's \<Rightarrow> bool) \<Rightarrow> ('s, 'a) async \<Rightarrow> bool" where
  "keeps_async R m \<longleftrightarrow> (\<forall>s. R s (fst (m s)) \<and> keeps R (snd (m s)))"

locale segment_relation =
  fixes R :: "'s \<Rightarrow> 's \<Rightarrow> bool"
  assumes R_refl: "R s s"
    and R_trans: "R s t \<Longrightarrow> R t u \<Longrightarrow> R s u"
begin

lemma keeps_return: "keeps_async R (return a)" and keeps_throw: "keeps_async R (throw e)"
  and keeps_of_result: "keeps_async R (of_result r)"
  by (simp_all add: keeps_async_def return_def throw_def of_result_def R_refl)

lemma keeps_continue:
  assumes "\<And>a. keeps_async R (f a)"
  shows "keeps R o' \<Longrightarrow> keeps R (continue o' f)"
proof (induction rule: keeps.induct)
  case (keeps_Done r)
  then show ?case using assms keeps_throw by (cases r) (simp_all add: keeps_async_def)
qed simp_all

lemma keeps_await:
  assumes "keeps_async R m" and "\<And>a. keeps_async R (f a)"
  shows "keeps_async R (await m f)"
proof -
  have "await m f s = (fst (m s), continue (snd (m s)) f)" for s by (simp add: await_def split: prod.split)
  moreover have "keeps R (continue o' f)" if "keeps R o'" for o'
    using that by (rule keeps_continue [rotated]) (rule assms(2))
  ultimately show ?thesis using assms(1) by (simp add: keeps_async_def)
qed

lemma keeps_caught: "keeps R o' \<Longrightarrow> keeps R (caught o')"
  by (induction rule: keeps.induct) simp_all

lemma keeps_attempt: "keeps_async R m \<Longrightarrow> keeps_async R (attempt m)"
  by (simp add: keeps_async_def attempt_def keeps_caught)

lemma keeps_forget: "keeps_async R m \<Longrightarrow> keeps_async R (forget m)"
  unfolding forget_def by (rule keeps_await) (simp_all add: keeps_return)

lemma pool_step_keeps:
  assumes "pool_step api ok (s, ts) (s', ts')" and "\<forall>s m. api s m \<longrightarrow> keeps_async R m"
    and "list_all (keeps R) ts"
  shows "R s s' \<and> list_all (keeps R) ts'"
  using assms(1)
proof (cases rule: pool_step.cases)
  case (pool_call m o')
  then have "keeps_async R m" using assms(2) by blast
  then show ?thesis using pool_call assms(3) by (auto simp: keeps_async_def dest: spec [of _ s])
next
  case (pool_turn i k o')
  then have "keeps R (Turn k)" using assms(3) by (metis list_all_length)
  then have "R s s' \<and> keeps R o'" using pool_turn by (auto dest: spec [of _ s])
  then show ?thesis using pool_turn assms(3) by (auto simp: list_all_iff dest: set_update_subset_insert [THEN subsetD])
next
  case (pool_reply i c h r o')
  then have "keeps R (Await c h)" using assms(3) by (metis list_all_length)
  then have "R s s' \<and> keeps R o'" using pool_reply(5) unfolding keeps_simps by (metis fst_conv snd_conv)
  then show ?thesis using pool_reply assms(3) by (auto simp: list_all_iff dest: set_update_subset_insert [THEN subsetD])
qed

theorem pool_run_keeps:
  assumes "pool_run api ok (s, ts) (s', ts')" and "\<forall>s m. api s m \<longrightarrow> keeps_async R m"
    and "list_all (keeps R) ts"
  shows "R s s' \<and> list_all (keeps R) ts'"
  using assms(1)
proof (induction rule: rtranclp_induct2)
  case refl
  then show ?case using assms(3) R_refl by simp
next
  case (step s1 ts1 s2 ts2)
  have "R s1 s2 \<and> list_all (keeps R) ts2"
    using pool_step_keeps [OF step.hyps(2) assms(2)] step.IH assms(3) by blast
  then show ?case using step.IH R_trans by blast
qed

end

section \<open>Invariants a task is about to restore\<close>

text \<open>
  A task is \<open>restoring\<close> \<open>J\<close> when it waits for the reply to a command of the watched kind \<open>p\<close>, or is
  between that reply and the code that handles it, and what it runs next leaves a state with \<open>J\<close>
  or keeps it restoring.  \<open>watches\<close>: no segment breaks \<open>J\<close> without leaving its task restoring.
\<close>

inductive restoring ::
  "('s \<Rightarrow> bool) \<Rightarrow> (any_command \<Rightarrow> bool) \<Rightarrow> (any_command \<Rightarrow> result \<Rightarrow> bool) \<Rightarrow> ('s, 'a) outcome \<Rightarrow> bool"
  for J p ok where
  restoring_Turn: "(\<And>s. J (fst (k s)) \<or> restoring J p ok (snd (k s))) \<Longrightarrow> restoring J p ok (Turn k)"
| restoring_Await: "p c \<Longrightarrow> (\<And>r s. ok c r \<Longrightarrow> J (fst (h r s)) \<or> restoring J p ok (snd (h r s))) \<Longrightarrow>
    restoring J p ok (Await c h)"

inductive_simps restoring_simps [simp]:
  "restoring J p ok (Done r)" "restoring J p ok (Turn k)" "restoring J p ok (Await c h)"

definition restores ::
  "('s \<Rightarrow> bool) \<Rightarrow> (any_command \<Rightarrow> bool) \<Rightarrow> (any_command \<Rightarrow> result \<Rightarrow> bool) \<Rightarrow> 's \<times> ('s, 'a) outcome \<Rightarrow> bool" where
  "restores J p ok q \<longleftrightarrow> J (fst q) \<or> restoring J p ok (snd q)"

lemma restoring_continue: "restoring J p ok o' \<Longrightarrow> restoring J p ok (continue o' f)"
proof (induction rule: restoring.induct)
  case (restoring_Turn k)
  then show ?case by auto
next
  case (restoring_Await c h)
  then show ?case by auto
qed

inductive watches ::
  "('s \<Rightarrow> bool) \<Rightarrow> (any_command \<Rightarrow> bool) \<Rightarrow> (any_command \<Rightarrow> result \<Rightarrow> bool) \<Rightarrow> ('s, 'a) outcome \<Rightarrow> bool"
  for J p ok where
  watches_Done: "watches J p ok (Done r)"
| watches_Turn: "(\<And>s. (J s \<longrightarrow> restores J p ok (k s)) \<and> watches J p ok (snd (k s))) \<Longrightarrow> watches J p ok (Turn k)"
| watches_Await: "(\<And>r s. ok c r \<longrightarrow> (J s \<longrightarrow> restores J p ok (h r s)) \<and> watches J p ok (snd (h r s))) \<Longrightarrow>
    watches J p ok (Await c h)"

inductive_simps watches_simps [simp]:
  "watches J p ok (Done r)" "watches J p ok (Turn k)" "watches J p ok (Await c h)"

definition watches_async ::
  "('s \<Rightarrow> bool) \<Rightarrow> (any_command \<Rightarrow> bool) \<Rightarrow> (any_command \<Rightarrow> result \<Rightarrow> bool) \<Rightarrow> ('s, 'a) async \<Rightarrow> bool" where
  "watches_async J p ok m \<longleftrightarrow> (\<forall>s. (J s \<longrightarrow> restores J p ok (m s)) \<and> watches J p ok (snd (m s)))"

lemma watches_basic:
  "watches_async J p ok (return a)" "watches_async J p ok (throw e)" "watches_async J p ok (of_result r)"
  by (simp_all add: watches_async_def return_def throw_def of_result_def restores_def)

lemma keeps_watches: "keeps (\<lambda>s s'. J s \<longrightarrow> J s') o' \<Longrightarrow> watches J p ok o'"
  by (induction rule: keeps.induct) (auto simp: restores_def)

lemma keeps_watches_async: "keeps_async (\<lambda>s s'. J s \<longrightarrow> J s') m \<Longrightarrow> watches_async J p ok m"
  by (auto simp: keeps_async_def watches_async_def restores_def intro: keeps_watches)

lemma restores_continue:
  "restores J p ok q \<Longrightarrow> restores J p ok (map_prod id (\<lambda>o'. continue o' f) q)"
  by (cases q) (auto simp: restores_def restoring_continue)

lemma watches_continue:
  assumes "\<And>a. watches_async J p ok (f a)"
  shows "watches J p ok o' \<Longrightarrow> watches J p ok (continue o' f)"
proof (induction rule: watches.induct)
  case (watches_Done r)
  then show ?case using assms watches_basic(2) by (cases r) (simp_all add: watches_async_def)
next
  case (watches_Turn k)
  then show ?case by (simp add: restores_continue)
next
  case (watches_Await c h)
  then show ?case by (simp add: restores_continue)
qed

lemma watches_await:
  assumes "watches_async J p ok m" and "\<And>a. watches_async J p ok (f a)"
  shows "watches_async J p ok (await m f)"
proof -
  have "await m f s = (fst (m s), continue (snd (m s)) f)" for s by (simp add: await_def split: prod.split)
  moreover have "watches J p ok (continue o' f)" if "watches J p ok o'" for o'
    using that by (rule watches_continue [rotated]) (rule assms(2))
  ultimately show ?thesis using assms(1) by (auto simp: watches_async_def restores_def restoring_continue)
qed

lemma watches_forget: "watches_async J p ok m \<Longrightarrow> watches_async J p ok (forget m)"
  unfolding forget_def by (rule watches_await) (simp_all add: watches_basic)

definition pool_watched where
  "pool_watched J p ok q \<longleftrightarrow>
     (J (fst q) \<or> (\<exists>t \<in> set (snd q). restoring J p ok t)) \<and> list_all (watches J p ok) (snd q)"

lemma watched_update:
  assumes "pool_watched J p ok (s, ts)" "i < length ts" "watches J p ok o'"
    and "J s \<or> restoring J p ok (ts ! i) \<Longrightarrow> J s' \<or> restoring J p ok o'"
  shows "pool_watched J p ok (s', ts[i := o'])"
proof -
  have "J s' \<or> (\<exists>t \<in> set (ts[i := o']). restoring J p ok t)"
  proof (cases "J s \<or> restoring J p ok (ts ! i)")
    case True
    then show ?thesis using assms(2,4) set_update_memI by metis
  next
    case False
    then obtain t where "t \<in> set ts" "restoring J p ok t" using assms(1) by (auto simp: pool_watched_def)
    then obtain j where j: "j < length ts" "ts ! j = t" by (auto simp: in_set_conv_nth)
    then have "j \<noteq> i" using False \<open>restoring J p ok t\<close> by auto
    then have "ts[i := o'] ! j = t" using j by simp
    then show ?thesis using j \<open>restoring J p ok t\<close> by (metis length_list_update nth_mem)
  qed
  then show ?thesis
    using assms(1,3) by (auto simp: pool_watched_def list_all_iff dest: set_update_subset_insert [THEN subsetD])
qed

theorem pool_step_watched:
  assumes "pool_step api ok (s, ts) (s', ts')" and "\<forall>s m. api s m \<longrightarrow> watches_async J p ok m"
    and "pool_watched J p ok (s, ts)"
  shows "pool_watched J p ok (s', ts')"
  using assms(1)
proof (cases rule: pool_step.cases)
  case (pool_call m o')
  then have "watches_async J p ok m" using assms(2) by blast
  then show ?thesis using pool_call assms(3)
    by (auto simp: watches_async_def pool_watched_def restores_def dest: spec [of _ s])
next
  case (pool_turn i k o')
  then have "watches J p ok (Turn k)" using assms(3) by (metis list_all_length pool_watched_def snd_conv)
  then have "(J s \<or> restoring J p ok (Turn k) \<longrightarrow> restores J p ok (s', o')) \<and> watches J p ok o'" using pool_turn by (auto simp: restores_def dest: spec [of _ s])
  then show ?thesis unfolding pool_turn(1)
    by (intro watched_update [OF assms(3) pool_turn(2)]) (auto simp: restores_def pool_turn(3))
next
  case (pool_reply i c h r o')
  then have "watches J p ok (Await c h)" using assms(3) by (metis list_all_length pool_watched_def snd_conv)
  then have "(J s \<or> restoring J p ok (Await c h) \<longrightarrow> restores J p ok (s', o')) \<and> watches J p ok o'"
    using pool_reply(4,5) by (auto simp: restores_def dest!: spec [of _ r] dest: spec [of _ s])
  then show ?thesis unfolding pool_reply(1)
    by (intro watched_update [OF assms(3) pool_reply(2)]) (auto simp: restores_def pool_reply(3))
qed

theorem pool_run_watched:
  assumes "pool_run api ok q q'" and "\<forall>s m. api s m \<longrightarrow> watches_async J p ok m"
    and "pool_watched J p ok q"
  shows "pool_watched J p ok q'"
  using assms(1)
proof (induction rule: rtranclp_induct)
  case base
  then show ?case by (rule assms(3))
next
  case (step q1 q2)
  show ?case
    using pool_step_watched [of api ok "fst q1" "snd q1" "fst q2" "snd q2", OF _ assms(2)] step by simp
qed

section \<open>Segments that end in a request\<close>

text \<open>
  \<open>segments Q t\<close>: every segment still to come of the task \<open>t\<close> satisfies \<open>Q\<close>.  \<open>posting lg\<close> is a segment
  that appends to the log \<open>lg\<close> of commands, and appends the command last which it ends waiting for.
\<close>

inductive segments :: "('s \<Rightarrow> 's \<times> ('s, 'a) outcome \<Rightarrow> bool) \<Rightarrow> ('s, 'a) outcome \<Rightarrow> bool" for Q where
  segments_Done: "segments Q (Done r)"
| segments_Turn: "(\<And>s. Q s (k s) \<and> segments Q (snd (k s))) \<Longrightarrow> segments Q (Turn k)"
| segments_Await: "(\<And>r s. Q s (h r s) \<and> segments Q (snd (h r s))) \<Longrightarrow> segments Q (Await c h)"

inductive_simps segments_simps [simp]: "segments Q (Done r)" "segments Q (Turn k)" "segments Q (Await c h)"

definition posting :: "('s \<Rightarrow> any_command list) \<Rightarrow> 's \<Rightarrow> 's \<times> ('s, 'a) outcome \<Rightarrow> bool" where
  "posting lg s q \<longleftrightarrow>
     (\<exists>cs. lg (fst q) = lg s @ cs \<and> (case snd q of Await c h \<Rightarrow> cs \<noteq> [] \<and> last cs = c | _ \<Rightarrow> True))"

definition posts_at :: "('s \<Rightarrow> any_command list) \<Rightarrow> 's \<Rightarrow> 's \<times> ('s, 'a) outcome \<Rightarrow> bool" where
  "posts_at lg s q \<longleftrightarrow> posting lg s q \<and> segments (posting lg) (snd q)"

definition posts :: "('s \<Rightarrow> any_command list) \<Rightarrow> ('s, 'a) async \<Rightarrow> bool" where
  "posts lg m \<longleftrightarrow> (\<forall>s. posts_at lg s (m s))"

lemma postsI [intro!]: "(\<And>s. posts_at lg s (m s)) \<Longrightarrow> posts lg m"
  and postsD [dest]: "posts lg m \<Longrightarrow> posts_at lg s (m s)"
  by (simp_all add: posts_def)

lemma posts_at_Done [simp]: "lg s' = lg s \<Longrightarrow> posts_at lg s (s', Done r)"
  by (simp add: posts_at_def posting_def)

lemma posts_basic [simp]:
  "posts_at lg s (return a s)" "posts_at lg s (throw e s)" "posts_at lg s (of_result r s)"
  by (simp_all add: return_def throw_def of_result_def)

lemma posts_after: "posts lg m \<Longrightarrow> lg t = lg s \<Longrightarrow> posts_at lg s (m t)"
  by (metis posts_def posts_at_def posting_def)

lemma posting_continue: "posting lg s q \<Longrightarrow> posting lg s (map_prod id (\<lambda>o'. continue o' f) q)"
  by (cases q; cases "snd q") (auto simp: posting_def)

lemma segments_posting_continue:
  assumes "\<And>a. posts lg (f a)"
  shows "segments (posting lg) o' \<Longrightarrow> segments (posting lg) (continue o' f)"
proof (induction rule: segments.induct)
  case (segments_Done r)
  have "posts_at lg s (case r of Inl e \<Rightarrow> throw e s | Inr a \<Rightarrow> f a s)" for s
    using assms by (cases r) (auto dest: postsD)
  then show ?case by (simp add: posts_at_def)
qed (simp_all add: posting_continue)

lemma posts_await:
  assumes "posts_at lg s (m s)" and "\<And>a. posts lg (f a)"
  shows "posts_at lg s (await m f s)"
proof -
  have "await m f s = map_prod id (\<lambda>o'. continue o' f) (m s)" by (simp add: await_def split: prod.split)
  then show ?thesis
    using assms posting_continue [of lg s "m s"] segments_posting_continue [of lg f, OF assms(2)]
    by (simp add: posts_at_def)
qed

lemma posts_attempt:
  fixes m :: "('a, 'b) async"
  assumes "posts_at lg s (m s)"
  shows "posts_at lg s (attempt m s)"
proof -
  have p: "posting lg s q \<Longrightarrow> posting lg s (map_prod id caught q)" for s and q :: "'a \<times> ('a, 'b) outcome"
    by (cases q; cases "snd q") (auto simp: posting_def)
  have "segments (posting lg) o' \<Longrightarrow> segments (posting lg) (caught o')" for o' :: "('a, 'b) outcome"
    by (induction rule: segments.induct) (simp_all add: p)
  then show ?thesis using assms p [of s "m s"] by (simp add: posts_at_def attempt_def)
qed

lemma posts_forget: "posts lg m \<Longrightarrow> posts lg (forget m)"
  unfolding forget_def by (intro postsI posts_await) (auto dest: postsD)

end
