(* ===== verification/Locations.thy ===== *)
theory Locations
  imports Digits
begin

text \<open>
  \<open>src/src/model/source.ts\<close>: source locations of the design, as the server prints them.
  \<open>scan_location\<close> runs the expression
  \<open>/^(.+?):(\d+)(?:\.(\d+)(?:-(\d+)\.(\d+)))?$/\<close> the way the engine does, extending the lazy
  first group one character at a time.  Line and column numbers are JavaScript numbers: an unmatched group
  makes \<open>parseInt\<close> return \<open>NaN\<close>.
\<close>

datatype jsnum = Num int | NaN

definition parseInt :: "string option \<Rightarrow> jsnum" where
  "parseInt s = (case s of Some ds \<Rightarrow> Num (int (str_nat 10 ds)) | None \<Rightarrow> NaN)"

definition minus_one :: "jsnum \<Rightarrow> jsnum" where
  "minus_one n = (case n of Num k \<Rightarrow> Num (k - 1) | NaN \<Rightarrow> NaN)"

text \<open>\<open>n || 0\<close> for a number that may be undefined\<close>

definition or_zero :: "jsnum option \<Rightarrow> int" where
  "or_zero n = (case n of Some (Num k) \<Rightarrow> k | _ \<Rightarrow> 0)"

datatype location =
  Location (file_path: string) (startLine: jsnum) (startColumn: "jsnum option") (endLine: "jsnum option")
    (endColumn: "jsnum option")

text \<open>The part after the colon: the line, then optionally column, end line and end column together.\<close>

definition location_tail :: "string \<Rightarrow> (string \<times> (string \<times> string \<times> string) option) option" where
  "location_tail s =
     (let line = takeWhile is_digit s in
      if line = [] then None
      else (case dropWhile is_digit s of
         [] \<Rightarrow> Some (line, None)
       | c # r \<Rightarrow>
           if c = CHR ''.'' \<and> takeWhile is_digit r \<noteq> [] then
             (case dropWhile is_digit r of
                [] \<Rightarrow> None
              | d # r' \<Rightarrow>
                  if d = CHR ''-'' then
                    (case match_decimal r' of
                       None \<Rightarrow> None
                     | Some (el, ec) \<Rightarrow> Some (line, Some (takeWhile is_digit r, el, ec)))
                  else None)
           else None))"

fun scan_location ::
  "string \<Rightarrow> string \<Rightarrow> (string \<times> string \<times> (string \<times> string \<times> string) option) option" where
  "scan_location pre [] = None"
| "scan_location pre (c # cs) =
     (case (if c = CHR '':'' \<and> pre \<noteq> [] then location_tail cs else None) of
        Some m \<Rightarrow> Some (pre, m)
      | None \<Rightarrow> if is_dot c then scan_location (pre @ [c]) cs else None)"

text \<open>The array of a match has six entries whether or not a group took part in it.\<close>

definition matches_length :: nat where
  "matches_length = 6"

definition location_fromCXXRTL :: "string option \<Rightarrow> location option" where
  "location_fromCXXRTL locationString =
     (case locationString of
        None \<Rightarrow> None
      | Some s \<Rightarrow>
          (case scan_location [] s of
             None \<Rightarrow> None
           | Some (m1, m2, cols) \<Rightarrow>
               (let m3 = map_option fst cols;
                    m4 = map_option (fst \<circ> snd) cols;
                    m5 = map_option (snd \<circ> snd) cols
                in Some (Location m1 (minus_one (parseInt (Some m2)))
                     (if 4 \<le> matches_length then Some (minus_one (parseInt m3)) else None)
                     (if 4 \<le> matches_length then Some (minus_one (parseInt m4)) else None)
                     (if 6 \<le> matches_length then Some (minus_one (parseInt m5)) else None)))))"

text \<open>\<open>vscode.Uri.parse\<close>, \<open>asRelativePath\<close> and the URI encoding of the arguments are the editor's.\<close>

definition openCommandArguments :: "(string \<Rightarrow> 'uri) \<Rightarrow> location \<Rightarrow> 'uri \<times> int \<times> int" where
  "openCommandArguments uri_parse l =
     (uri_parse (file_path l), or_zero (Some (startLine l)), or_zero (startColumn l))"

datatype 'uri editor_command =
  EditorCommand (title: string) (command_id: string) (arguments: "'uri \<times> int \<times> int")

definition asOpenCommand :: "(string \<Rightarrow> 'uri) \<Rightarrow> location \<Rightarrow> 'uri editor_command" where
  "asOpenCommand uri_parse l =
     EditorCommand ''Reveal in Editor'' ''rtlDebugger.openDocument'' (openCommandArguments uri_parse l)"

definition asOpenCommandUri ::
  "(string \<Rightarrow> 'uri) \<Rightarrow> ('uri \<times> int \<times> int \<Rightarrow> string) \<Rightarrow> location \<Rightarrow> 'uri" where
  "asOpenCommandUri uri_parse encode l =
     uri_parse (''command:rtlDebugger.openDocument?'' @ encode (openCommandArguments uri_parse l))"

definition show_line :: "jsnum \<Rightarrow> string" where
  "show_line n = (case n of Num k \<Rightarrow> int_str (k + 1) | NaN \<Rightarrow> ''NaN'')"

definition asMarkdownLink ::
  "(string \<Rightarrow> 'uri) \<Rightarrow> ('uri \<times> int \<times> int \<Rightarrow> string) \<Rightarrow> ('uri \<Rightarrow> string) \<Rightarrow> (string \<Rightarrow> string) \<Rightarrow>
     location \<Rightarrow> string" where
  "asMarkdownLink uri_parse encode show_uri asRelativePath l =
     ''['' @ asRelativePath (file_path l) @ '':'' @ show_line (startLine l) @ ''](''
       @ show_uri (asOpenCommandUri uri_parse encode l) @ '')''"

section \<open>What the expression accepts\<close>

lemma match_decimal_colon: "CHR '':'' \<in> set s \<Longrightarrow> match_decimal s = None"
proof (cases "match_decimal s")
  case (Some p)
  assume colon: "CHR '':'' \<in> set s"
  from Some have "s = fst p @ ''.'' @ snd p" "list_all is_digit (fst p)" "list_all is_digit (snd p)"
    using match_decimal_iff [of s "fst p" "snd p"] by simp_all
  with colon show ?thesis by (auto simp: list_all_iff)
qed simp

lemma dropWhile_keeps: "c \<in> set s \<Longrightarrow> \<not> P c \<Longrightarrow> c \<in> set (dropWhile P s)"
  by (induction s) auto

lemma location_tail_colon:
  assumes "CHR '':'' \<in> set s"
  shows "location_tail s = None"
proof -
  have "CHR '':'' \<in> set r \<Longrightarrow> dropWhile is_digit r = d # r' \<Longrightarrow> d \<noteq> CHR '':'' \<Longrightarrow> CHR '':'' \<in> set r'"
    for d :: char and r r' :: string
    using dropWhile_keeps [of "CHR '':''" r is_digit] by auto
  note step = this
  show ?thesis
  proof (cases "dropWhile is_digit s")
    case Nil
    with assms dropWhile_keeps [of "CHR '':''" s is_digit] show ?thesis by simp
  next
    case (Cons c r)
    show ?thesis
    proof (cases "c = CHR ''.'' \<and> (\<exists>d r'. dropWhile is_digit r = d # r' \<and> d = CHR ''-'')")
      case True
      then obtain r' where r': "dropWhile is_digit r = CHR ''-'' # r'" by blast
      have "CHR '':'' \<in> set r" using step [OF assms Cons] True by simp
      then have "CHR '':'' \<in> set r'" using step [OF _ r'] by simp
      with True Cons r' show ?thesis by (simp add: location_tail_def Let_def match_decimal_colon)
    next
      case False
      with Cons show ?thesis by (auto simp: location_tail_def Let_def split: list.splits)
    qed
  qed
qed

lemma scan_location_last:
  assumes "location_tail t = Some m" "list_all is_dot f" "pre @ f \<noteq> []"
  shows "scan_location pre (f @ '':'' @ t) = Some (pre @ f, m)"
  using assms
proof (induction f arbitrary: pre)
  case Nil
  then show ?case by simp
next
  case (Cons c f)
  have "location_tail (f @ '':'' @ t) = None" by (rule location_tail_colon) simp
  with Cons show ?case by (cases "c = CHR '':''") (auto simp: is_dot_def)
qed

lemma scan_location_no_colon: "CHR '':'' \<notin> set t \<Longrightarrow> scan_location pre t = None"
  by (induction t arbitrary: pre) auto

lemma scan_location_none:
  assumes "location_tail t = None" "CHR '':'' \<notin> set t"
  shows "scan_location pre (f @ '':'' @ t) = None"
proof (induction f arbitrary: pre)
  case Nil
  with assms show ?case by (simp add: scan_location_no_colon)
next
  case (Cons c f)
  have "location_tail (f @ '':'' @ t) = None" by (rule location_tail_colon) simp
  with Cons show ?case by simp
qed

lemma location_tail_line:
  assumes "list_all is_digit l" "l \<noteq> []"
  shows "location_tail l = Some (l, None)"
  by (simp add: location_tail_def Let_def all_digits [OF assms(1)] assms(2))

lemma location_tail_range:
  assumes "list_all is_digit l" "list_all is_digit c" "list_all is_digit el" "list_all is_digit ec"
    and "l \<noteq> []" "c \<noteq> []" "el \<noteq> []" "ec \<noteq> []"
  shows "location_tail (l @ ''.'' @ c @ ''-'' @ el @ ''.'' @ ec) = Some (l, Some (c, el, ec))"
proof -
  have "match_decimal (el @ ''.'' @ ec) = Some (el, ec)" using assms by (simp only: match_decimal_iff) simp
  moreover have "takeWhile is_digit (l @ ''.'' @ r) = l" "dropWhile is_digit (l @ ''.'' @ r) = ''.'' @ r"
    "takeWhile is_digit (c @ ''-'' @ r) = c" "dropWhile is_digit (c @ ''-'' @ r) = ''-'' @ r" for r
    using assms by (simp_all add: digit_runs)
  ultimately show ?thesis using assms by (simp add: location_tail_def Let_def)
qed

lemma location_tail_column_only:
  assumes "list_all is_digit l" "list_all is_digit c" "l \<noteq> []" "c \<noteq> []"
  shows "location_tail (l @ ''.'' @ c) = None"
proof -
  have "takeWhile is_digit (l @ ''.'' @ c) = l" "dropWhile is_digit (l @ ''.'' @ c) = ''.'' @ c"
    using assms by (simp_all add: digit_runs)
  with assms show ?thesis by (simp add: location_tail_def Let_def all_digits)
qed

section \<open>Properties\<close>

text \<open>A location printed with a full range is read back with zero-based coordinates.  The file
  name may contain colons, digits and dots; only line terminators are excluded.\<close>

theorem location_full_range:
  assumes "f \<noteq> []" "list_all is_dot f"
  shows "location_fromCXXRTL (Some (f @ '':'' @ nat_str 10 l @ ''.'' @ nat_str 10 c @ ''-'' @
      nat_str 10 el @ ''.'' @ nat_str 10 ec)) =
    Some (Location f (Num (int l - 1)) (Some (Num (int c - 1))) (Some (Num (int el - 1)))
      (Some (Num (int ec - 1))))"
  using assms scan_location_last [OF location_tail_range assms(2), of _ _ _ _ "[]"]
  by (simp add: location_fromCXXRTL_def nat_str_decimal_all matches_length_def parseInt_def minus_one_def
      str_nat_nat_str)

theorem location_full_range_witness:
  "location_fromCXXRTL (Some (''a:1.v'' @ '':'' @ nat_str 10 12 @ ''.'' @ nat_str 10 3 @ ''-'' @
      nat_str 10 14 @ ''.'' @ nat_str 10 8)) =
    Some (Location ''a:1.v'' (Num 11) (Some (Num 2)) (Some (Num 13)) (Some (Num 7)))"
  using location_full_range [of "''a:1.v''" 12 3 14 8] by (simp add: is_dot_def)

text \<open>Without a range the columns and the end line come out as \<open>NaN\<close>, not as undefined
  (a match array always has six entries, so the guards on its length never fire); the editor position
  is nevertheless the start of the line.  A location with a column but no end is rejected.\<close>

theorem location_line_only:
  assumes "f \<noteq> []" "list_all is_dot f"
  shows "location_fromCXXRTL (Some (f @ '':'' @ nat_str 10 l)) =
      Some (Location f (Num (int l - 1)) (Some NaN) (Some NaN) (Some NaN))
    \<and> openCommandArguments uri (Location f (Num (int l - 1)) (Some NaN) (Some NaN) (Some NaN)) =
      (uri f, int l - 1, 0)
    \<and> location_fromCXXRTL (Some (f @ '':'' @ nat_str 10 l @ ''.'' @ nat_str 10 c)) = None"
proof -
  have "location_tail (nat_str 10 l @ ''.'' @ nat_str 10 c) = None"
    by (simp only: location_tail_column_only nat_str_decimal_all nat_str_nonempty simp_thms)
  moreover have "CHR '':'' \<notin> set (nat_str 10 l @ ''.'' @ nat_str 10 c)"
    using nat_str_decimal by fastforce
  ultimately have "scan_location [] (f @ '':'' @ nat_str 10 l @ ''.'' @ nat_str 10 c) = None"
    by (rule scan_location_none)
  with assms scan_location_last [OF location_tail_line assms(2), of _ "[]"] show ?thesis
    by (simp add: location_fromCXXRTL_def nat_str_decimal_all matches_length_def parseInt_def
        minus_one_def str_nat_nat_str openCommandArguments_def or_zero_def)
qed

theorem location_line_only_witness:
  "location_fromCXXRTL (Some (''top.v'' @ '':'' @ nat_str 10 7)) =
     Some (Location ''top.v'' (Num 6) (Some NaN) (Some NaN) (Some NaN))
   \<and> location_fromCXXRTL (Some (''top.v'' @ '':'' @ nat_str 10 7 @ ''.'' @ nat_str 10 2)) = None"
  using location_line_only [of "''top.v''" 7 id 2] by (simp add: is_dot_def)

end
