(* ===== verification/Variables.thy ===== *)
theory Variables
  imports Proto Locations
begin

text \<open>
  \<open>src/src/model/variable.ts\<close> and \<open>src/src/model/scope.ts\<close>: the design hierarchy as the debugger
  names it.  A CXXRTL identifier is the path of a variable or scope, its components separated by
  one space; \<open>fullName\<close> is the path as an array.  A scope's \<open>scopes\<close> and
  \<open>variables\<close> are thunks over the scope's identifier, which is what the model keeps of them.
\<close>

section \<open>Variables\<close>

datatype variable =
    ScalarVariable (fullName: "string list") (var_location: "location option") (lsbAt: int) (width: nat)
  | MemoryVariable (fullName: "string list") (var_location: "location option") (lsbAt: int) (width: nat)
      (zeroAt: int) (depth: nat)

text \<open>
  An item description whose \<open>type\<close> is neither of the two is \<open>None\<close>: the code then throws.
\<close>

definition variable_fromCXXRTL :: "string \<Rightarrow> item_description option \<Rightarrow> js_error + variable" where
  "variable_fromCXXRTL cxxrtlName cxxrtlDesc =
     (let path = split_on CHR '' '' cxxrtlName in
      case cxxrtlDesc of
        Some (ItemDescriptionNode src lsb_at w _ _ _ _) \<Rightarrow>
          Inr (ScalarVariable path (location_fromCXXRTL src) lsb_at w)
      | Some (ItemDescriptionMemory src lsb_at w zero_at dp _ _) \<Rightarrow>
          Inr (MemoryVariable path (location_fromCXXRTL src) lsb_at w zero_at dp)
      | None \<Rightarrow> Inl (GenericError ''Unknown item type''))"

definition variable_name :: "variable \<Rightarrow> string option" where
  "variable_name v = at_last (fullName v)"

definition scopeFullName :: "variable \<Rightarrow> string list" where
  "scopeFullName v = butlast (fullName v)"

definition cxxrtlIdentifier :: "variable \<Rightarrow> string" where
  "cxxrtlIdentifier v = join '' '' (fullName v)"

section \<open>Scopes\<close>

datatype scope =
  ModuleScope (scope_fullName: "string list") (scope_location: "location option")
    (moduleFullName: "string list") (moduleLocation: "location option")
    (nested_scopes: string) (nested_variables: string)

text \<open>The optional chaining \<open>name?.split(' ') || []\<close>: an array is never falsy.\<close>

definition scope_fromCXXRTL ::
  "string \<Rightarrow> scope_description option \<Rightarrow> string \<Rightarrow> string \<Rightarrow> js_error + scope" where
  "scope_fromCXXRTL cxxrtlName cxxrtlDesc nestedScopes nestedVariables =
     (let path = (if cxxrtlName = [] then [] else split_on CHR '' '' cxxrtlName) in
      case cxxrtlDesc of
        None \<Rightarrow> Inl (TypeError ''type of undefined'')
      | Some (ScopeDescriptionModule d i) \<Rightarrow>
          Inr (ModuleScope path (location_fromCXXRTL (inst_src i))
            (case def_name d of None \<Rightarrow> [] | Some n \<Rightarrow> split_on CHR '' '' n)
            (location_fromCXXRTL (def_src d)) nestedScopes nestedVariables))"

definition scope_name :: "scope \<Rightarrow> string" where
  "scope_name s = (if scope_fullName s = [] then '''' else last (scope_fullName s))"

definition parentFullName :: "scope \<Rightarrow> string list option" where
  "parentFullName s = (if scope_fullName s = [] then None else Some (butlast (scope_fullName s)))"

definition scope_cxxrtlIdentifier :: "scope \<Rightarrow> string" where
  "scope_cxxrtlIdentifier s = join '' '' (scope_fullName s)"

definition moduleName :: "scope \<Rightarrow> string" where
  "moduleName s = (if moduleFullName s = [] then '''' else last (moduleFullName s))"

section \<open>Well-formed variables\<close>

text \<open>
  What \<open>variable_fromCXXRTL\<close> guarantees: a path of at least one component, none with a space.
\<close>

definition wf_variable :: "variable \<Rightarrow> bool" where
  "wf_variable v \<longleftrightarrow> fullName v \<noteq> [] \<and> list_all (\<lambda>p. CHR '' '' \<notin> set p) (fullName v)"

lemma variable_fromCXXRTL_cases:
  assumes "variable_fromCXXRTL n d = Inr v"
  obtains (node) src l w i ou s a where "d = Some (ItemDescriptionNode src l w i ou s a)"
      "v = ScalarVariable (split_on CHR '' '' n) (location_fromCXXRTL src) l w"
  | (memory) src l w z dp s a where "d = Some (ItemDescriptionMemory src l w z dp s a)"
      "v = MemoryVariable (split_on CHR '' '' n) (location_fromCXXRTL src) l w z dp"
  using assms
  by (auto simp: variable_fromCXXRTL_def Let_def split: option.splits item_description.splits)

lemma fullName_fromCXXRTL: "variable_fromCXXRTL n d = Inr v \<Longrightarrow> fullName v = split_on CHR '' '' n"
  by (erule variable_fromCXXRTL_cases) auto

lemma wf_fromCXXRTL [intro]: "variable_fromCXXRTL n d = Inr v \<Longrightarrow> wf_variable v"
  using split_on_parts by (auto simp: wf_variable_def fullName_fromCXXRTL list_all_iff)

lemma identifier_fromCXXRTL: "variable_fromCXXRTL n d = Inr v \<Longrightarrow> cxxrtlIdentifier v = n"
  by (simp add: cxxrtlIdentifier_def fullName_fromCXXRTL join_split_on)

lemma variable_fromCXXRTL_total: "is_ok (variable_fromCXXRTL n (Some d))"
  by (cases d) (simp_all add: variable_fromCXXRTL_def)

lemma identifier_inj:
  assumes "wf_variable u" "wf_variable v" "cxxrtlIdentifier u = cxxrtlIdentifier v"
  shows "fullName u = fullName v"
  using assms join_inj [of "CHR '' ''" "fullName u" "fullName v"]
  by (auto simp: wf_variable_def cxxrtlIdentifier_def list_all_iff)

section \<open>Properties\<close>

text \<open>The CXXRTL identifier of a variable is recovered from the path it was split into, the path
  is never empty, and its last component with the scope path in front gives the path back, so that
  a variable is found again under the identifier it was listed with.\<close>

theorem variable_identifier_roundtrip:
  assumes "variable_fromCXXRTL n d = Inr v"
  shows "cxxrtlIdentifier v = n \<and>
    (\<exists>x. variable_name v = Some x \<and> fullName v = scopeFullName v @ [x] \<and> CHR '' '' \<notin> set x)"
proof -
  have wf: "wf_variable v" using assms by (rule wf_fromCXXRTL)
  then have "fullName v = butlast (fullName v) @ [last (fullName v)]" by (simp add: wf_variable_def)
  with wf show ?thesis using identifier_fromCXXRTL [OF assms]
    by (auto simp: wf_variable_def variable_name_def scopeFullName_def at_last_def list_all_iff)
qed

theorem variable_identifier_roundtrip_witness:
  "cxxrtlIdentifier (ScalarVariable [''top'', ''clk''] None 0 1) = ''top clk''"
  using variable_identifier_roundtrip [of "''top clk''"
      "Some (ItemDescriptionNode None 0 1 True False False (AttributeMap []))"
      "ScalarVariable [''top'', ''clk''] None 0 1"]
  by (simp add: variable_fromCXXRTL_def location_fromCXXRTL_def)

text \<open>A scope keeps the identifier it was listed under, for the root (the empty identifier, whose
  path is empty rather than one empty component) as for every other scope, and exactly the root has
  no parent.\<close>

theorem scope_identifier_roundtrip:
  assumes "scope_fromCXXRTL n (Some d) a b = Inr s"
  shows "scope_cxxrtlIdentifier s = n \<and> (parentFullName s = None \<longleftrightarrow> n = '''') \<and>
    (case parentFullName s of None \<Rightarrow> scope_fullName s = []
     | Some p \<Rightarrow> scope_fullName s = p @ [scope_name s])"
  using assms
  by (cases d)
    (auto simp: scope_fromCXXRTL_def scope_cxxrtlIdentifier_def parentFullName_def scope_name_def
      join_split_on split: if_splits)

theorem scope_identifier_roundtrip_witness:
  "parentFullName (ModuleScope [''top'', ''cpu''] None [] None ''top cpu'' ''top cpu'') = Some [''top'']"
  using scope_identifier_roundtrip [of "''top cpu''"
      "ScopeDescriptionModule (ScopeDefinition None None (AttributeMap []))
         (ScopeInstantiation None (AttributeMap []))" "''top cpu''" "''top cpu''"
      "ModuleScope [''top'', ''cpu''] None [] None ''top cpu'' ''top cpu''"]
  by (simp add: scope_fromCXXRTL_def location_fromCXXRTL_def parentFullName_def scope_name_def)

end
