(* ===== verification/Time_Points.thy ===== *)
theory Time_Points
  imports Digits
begin

text \<open>
  \<open>src/src/model/time.ts\<close>: points and intervals of simulation time.  A \<open>TimePoint\<close> is a
  number of femtoseconds; \<open>BigInt\<close> is unbounded, and its \<open>/\<close> and \<open>%\<close> truncate towards
  zero (\<open>sdiv\<close>, \<open>smod\<close>).  The two wire formats (\<open>toCXXRTL\<close>/\<open>fromCXXRTL\<close>), the display
  format (\<open>toString\<close>) and the input format (\<open>fromString\<close>) are modelled to the character;
  each regular expression is an executable matcher together with a lemma that says which
  strings it accepts.
\<close>

section \<open>Time points\<close>

definition RESOLUTION :: int where
  "RESOLUTION = 1000000000000000"

datatype time_point = Raw (raw: int)

definition TimePoint :: "int \<Rightarrow> int \<Rightarrow> time_point" where
  "TimePoint secs femtos = Raw (secs * RESOLUTION + femtos)"

definition ZERO :: time_point where
  "ZERO = TimePoint 0 0"

definition secs :: "time_point \<Rightarrow> int" where
  "secs t = raw t sdiv RESOLUTION"

definition femtos :: "time_point \<Rightarrow> int" where
  "femtos t = raw t smod RESOLUTION"

definition equals :: "time_point \<Rightarrow> time_point \<Rightarrow> bool" where
  "equals t u \<longleftrightarrow> raw t = raw u"

definition greaterThan :: "time_point \<Rightarrow> time_point \<Rightarrow> bool" where
  "greaterThan t u \<longleftrightarrow> raw t > raw u"

definition lessThan :: "time_point \<Rightarrow> time_point \<Rightarrow> bool" where
  "lessThan t u \<longleftrightarrow> raw t < raw u"

definition offsetByFemtos :: "time_point \<Rightarrow> int \<Rightarrow> time_point" where
  "offsetByFemtos t d = TimePoint (secs t) (femtos t + d)"

definition differenceInFemtos :: "time_point \<Rightarrow> time_point \<Rightarrow> int" where
  "differenceInFemtos t u = raw t - raw u"

text \<open>The comparisons of the class are those of a linear order.\<close>

instantiation time_point :: linorder
begin

definition less_eq_time_point :: "time_point \<Rightarrow> time_point \<Rightarrow> bool" where
  "less_eq_time_point t u \<longleftrightarrow> raw t \<le> raw u"

definition less_time_point :: "time_point \<Rightarrow> time_point \<Rightarrow> bool" where
  "less_time_point t u \<longleftrightarrow> raw t < raw u"

instance
  by standard (auto simp: less_eq_time_point_def less_time_point_def intro: time_point.expand)

end

lemma secs_femtos: "secs t * RESOLUTION + femtos t = raw t"
  by (simp add: secs_def femtos_def sdiv_mult_smod_eq)

lemma TimePoint_parts [simp]: "TimePoint (secs t) (femtos t) = t"
  by (simp add: TimePoint_def secs_femtos)

lemma raw_offset [simp]: "raw (offsetByFemtos t d) = raw t + d"
  using secs_femtos [of t] by (simp add: offsetByFemtos_def TimePoint_def)

lemma raw_ZERO [simp]: "raw ZERO = 0"
  by (simp add: ZERO_def TimePoint_def)

lemma raw_TimePoint [simp]: "raw (TimePoint s f) = s * RESOLUTION + f"
  by (simp add: TimePoint_def)

lemma time_order [js_simps]:
  "equals t u \<longleftrightarrow> t = u" "lessThan t u \<longleftrightarrow> t < u" "greaterThan t u \<longleftrightarrow> u < t"
  by (auto simp: equals_def lessThan_def greaterThan_def less_time_point_def intro: time_point.expand)

lemma time_le_raw: "t \<le> u \<longleftrightarrow> raw t \<le> raw u" and time_less_raw: "t < u \<longleftrightarrow> raw t < raw u"
  by (simp_all add: less_eq_time_point_def less_time_point_def)

lemma secs_nonneg: "0 \<le> raw t \<Longrightarrow> secs t = raw t div RESOLUTION"
  by (simp add: secs_def RESOLUTION_def signed_divide_int_def sgn_if)

lemma femtos_nonneg: "0 \<le> raw t \<Longrightarrow> femtos t = raw t mod RESOLUTION"
  using secs_femtos [of t] secs_nonneg [of t] by (metis add_diff_cancel_left' minus_div_mult_eq_mod)

lemma femtos_bound: "\<bar>femtos t\<bar> < RESOLUTION"
proof -
  have "\<bar>raw t\<bar> mod RESOLUTION < RESOLUTION" "0 \<le> \<bar>raw t\<bar> mod RESOLUTION"
    by (simp_all add: RESOLUTION_def)
  then show ?thesis
    by (auto simp: femtos_def signed_modulo_int_def signed_divide_int_def RESOLUTION_def
        sgn_if minus_div_mult_eq_mod split: if_splits)
qed

section \<open>Display format\<close>

text \<open>The \<open>while\<close> loop of \<open>groupDecimals\<close>: groups of three digits, least significant first.\<close>

function decimal_groups :: "int \<Rightarrow> string list" where
  "decimal_groups num =
     (if num = 0 then [] else int_str (num smod 1000) # decimal_groups (num sdiv 1000))"
  by pat_completeness auto
termination
proof (relation "measure (\<lambda>n. nat \<bar>n\<bar>)")
  fix num :: int
  assume "num \<noteq> 0"
  then have "\<bar>num\<bar> div 1000 < \<bar>num\<bar>" by auto
  moreover have "\<bar>num sdiv 1000\<bar> = \<bar>num\<bar> div 1000"
    using \<open>num \<noteq> 0\<close> by (simp add: signed_divide_int_def sgn_if)
  ultimately show "(num sdiv 1000, num) \<in> measure (\<lambda>n. nat \<bar>n\<bar>)" using \<open>num \<noteq> 0\<close> by simp
qed simp

declare decimal_groups.simps [simp del]

definition pad_groups :: "string list \<Rightarrow> string list" where
  "pad_groups groups =
     map (\<lambda>(index, group). if index = length groups - 1 then group else padStart 3 CHR ''0'' group)
       (enumerate 0 groups)"

definition groupDecimals :: "int \<Rightarrow> string" where
  "groupDecimals num =
     (let groups = (if num = 0 then [''0''] else decimal_groups num)
      in join '','' (rev (pad_groups groups)))"

definition toString :: "time_point \<Rightarrow> string" where
  "toString t =
     (if raw t smod 1000000000000000 = 0 then groupDecimals (raw t sdiv 1000000000000000) @ ''s''
      else if raw t smod 1000000000000 = 0 then groupDecimals (raw t sdiv 1000000000000) @ ''ms''
      else if raw t smod 1000000000 = 0 then groupDecimals (raw t sdiv 1000000000) @ ''us''
      else if raw t smod 1000000 = 0 then groupDecimals (raw t sdiv 1000000) @ ''ns''
      else if raw t smod 1000 = 0 then groupDecimals (raw t sdiv 1000) @ ''ps''
      else groupDecimals (raw t) @ ''fs'')"

section \<open>Input format\<close>

definition time_units :: "string list" where
  "time_units = [''s'', ''ms'', ''us'', ''ns'', ''ps'', ''fs'']"

text \<open>
  \<open>/^(\d+)\s*(s|ms|us|ns|ps|fs)$/\<close>: digits, white space and unit letters are disjoint classes, so
  the greedy match is the only one (\<open>match_time_iff\<close> below).
\<close>

definition match_time :: "string \<Rightarrow> (string \<times> string) option" where
  "match_time value =
     (let mantissa = takeWhile is_digit value;
          unit = dropWhile is_space (dropWhile is_digit value)
      in if mantissa \<noteq> [] \<and> unit \<in> set time_units then Some (mantissa, unit) else None)"

definition fromString :: "string \<Rightarrow> js_error + time_point" where
  "fromString value =
     (case match_time value of
        None \<Rightarrow> Inl (SyntaxError value)
      | Some (digits, unit) \<Rightarrow>
          (let mantissa = int (str_nat 10 (filter (\<lambda>c. c \<noteq> CHR '','') digits))
           in if unit = ''s'' then Inr (TimePoint mantissa 0)
              else if unit = ''ms'' then Inr (TimePoint 0 (mantissa * 1000000000000))
              else if unit = ''us'' then Inr (TimePoint 0 (mantissa * 1000000000))
              else if unit = ''ns'' then Inr (TimePoint 0 (mantissa * 1000000))
              else if unit = ''ps'' then Inr (TimePoint 0 (mantissa * 1000))
              else if unit = ''fs'' then Inr (TimePoint 0 mantissa)
              else Inl (GenericError ''unreachable'')))"

section \<open>Wire format\<close>

definition fromCXXRTL :: "string \<Rightarrow> js_error + time_point" where
  "fromCXXRTL value =
     (case match_decimal value of
        None \<Rightarrow> Inl (SyntaxError value)
      | Some (whole, fraction) \<Rightarrow>
          Inr (TimePoint (int (str_nat 10 whole)) (int (str_nat 10 fraction))))"

definition toCXXRTL :: "time_point \<Rightarrow> string" where
  "toCXXRTL t = int_str (secs t) @ ''.'' @ padStart 15 CHR ''0'' (int_str (femtos t))"

section \<open>Intervals\<close>

datatype time_interval = TimeInterval (begin_time: time_point) (end_time: time_point)

definition interval_fromCXXRTL :: "string \<times> string \<Rightarrow> js_error + time_interval" where
  "interval_fromCXXRTL p =
     (case fromCXXRTL (fst p) of
        Inl e \<Rightarrow> Inl e
      | Inr b \<Rightarrow> (case fromCXXRTL (snd p) of Inl e \<Rightarrow> Inl e | Inr t \<Rightarrow> Inr (TimeInterval b t)))"

definition interval_toCXXRTL :: "time_interval \<Rightarrow> string \<times> string" where
  "interval_toCXXRTL i = (toCXXRTL (begin_time i), toCXXRTL (end_time i))"

section \<open>The matchers\<close>

lemma dropWhile_spaces:
  "list_all is_space ws \<Longrightarrow> rest = [] \<or> \<not> is_space (hd rest) \<Longrightarrow> dropWhile is_space (ws @ rest) = rest"
  by (induction ws) (auto, cases rest, auto)

lemma time_unit_hd: "u \<in> set time_units \<Longrightarrow> u \<noteq> [] \<and> \<not> is_space (hd u) \<and> \<not> is_digit (hd u)"
  by (auto simp: time_units_def is_space_def)

lemma match_time_iff:
  "match_time v = Some (ds, u) \<longleftrightarrow>
     (\<exists>ws. v = ds @ ws @ u \<and> ds \<noteq> [] \<and> list_all is_digit ds \<and> list_all is_space ws \<and>
       u \<in> set time_units)" (is "?L \<longleftrightarrow> ?R")
proof
  assume L: ?L
  let ?r = "dropWhile is_digit v"
  have "v = takeWhile is_digit v @ takeWhile is_space ?r @ dropWhile is_space ?r" by simp
  moreover from L have "ds = takeWhile is_digit v" "u = dropWhile is_space ?r"
      "ds \<noteq> []" "u \<in> set time_units"
    by (auto simp: match_time_def Let_def split: if_splits)
  ultimately show ?R
    by (intro exI [of _ "takeWhile is_space ?r"]) (simp add: list_all_takeWhile)
next
  assume ?R
  then obtain ws where v: "v = ds @ ws @ u" "ds \<noteq> []" "list_all is_digit ds" "list_all is_space ws"
    and u: "u \<in> set time_units" by blast
  have "ws @ u = [] \<or> \<not> is_digit (hd (ws @ u))"
    using v(4) time_unit_hd [OF u] space_not_digit by (cases ws) auto
  with v have "takeWhile is_digit v = ds" "dropWhile is_digit v = ws @ u"
    by (simp_all add: digit_runs)
  with v u time_unit_hd [OF u] show ?L by (simp add: match_time_def dropWhile_spaces)
qed

section \<open>Printing in groups of three\<close>

lemma nat_str_step: "10 \<le> n \<Longrightarrow> nat_str 10 n = nat_str 10 (n div 10) @ [digit_char (n mod 10)]"
  by (subst nat_str.simps) simp

lemma nat_str_small: "n < 10 \<Longrightarrow> nat_str 10 n = [digit_char n]"
  by (subst nat_str.simps) simp

lemma three_digits:
  fixes n d :: nat
  shows "(n * 1000 + d) div 10 = n * 100 + d div 10"
    and "(n * 1000 + d) mod 10 = d mod 10"
    and "(n * 100 + d div 10) div 10 = n * 10 + d div 100"
    and "(n * 100 + d div 10) mod 10 = d div 10 mod 10"
    and "d < 1000 \<Longrightarrow> (n * 10 + d div 100) div 10 = n"
    and "d < 1000 \<Longrightarrow> (n * 10 + d div 100) mod 10 = d div 100"
    and "d div 10 div 10 = d div 100"
proof -
  have s: "n * 1000 = 10 * (n * 100)" "n * 100 = 10 * (n * 10)" by simp_all
  show dd: "d div 10 div 10 = d div 100" by (simp flip: div_mult2_eq)
  show "(n * 1000 + d) div 10 = n * 100 + d div 10" "(n * 1000 + d) mod 10 = d mod 10"
    unfolding s(1) by (simp, rule mod_mult_self4)
  show "(n * 100 + d div 10) div 10 = n * 10 + d div 100"
    "(n * 100 + d div 10) mod 10 = d div 10 mod 10"
    unfolding s(2) by (simp add: dd, rule mod_mult_self4)
  assume "d < 1000"
  then have "d div 100 < 10" by simp
  then show "(n * 10 + d div 100) div 10 = n" "(n * 10 + d div 100) mod 10 = d div 100"
    by simp_all
qed

lemma padStart_three:
  assumes "d < 1000"
  shows "padStart 3 CHR ''0'' (nat_str 10 d) =
    [digit_char (d div 100), digit_char (d div 10 mod 10), digit_char (d mod 10)]"
proof -
  consider "d < 10" | "10 \<le> d" "d < 100" | "100 \<le> d" by linarith
  then show ?thesis
  proof cases
    case 1
    then show ?thesis by (simp add: nat_str_small padStart_def digit_char_0 numeral_2_eq_2)
  next
    case 2
    then have "d div 10 < 10" "d div 100 = 0" by auto
    with 2 show ?thesis
      by (simp add: nat_str_step [of d] nat_str_small padStart_def digit_char_0)
  next
    case 3
    then have "nat_str 10 d = nat_str 10 (d div 100) @ [digit_char (d div 10 mod 10)] @ [digit_char (d mod 10)]"
      by (simp add: nat_str_step [of d] nat_str_step [of "d div 10"] three_digits(7))
    moreover have "d div 100 < 10" using assms by simp
    ultimately show ?thesis by (simp add: nat_str_small padStart_def)
  qed
qed

lemma nat_str_group:
  assumes "0 < n" "d < 1000"
  shows "nat_str 10 (n * 1000 + d) = nat_str 10 n @ padStart 3 CHR ''0'' (nat_str 10 d)"
proof -
  have "nat_str 10 (n * 1000 + d) = nat_str 10 (n * 100 + d div 10) @ [digit_char (d mod 10)]"
    using assms by (subst nat_str_step) (auto simp: three_digits)
  also have "nat_str 10 (n * 100 + d div 10) = nat_str 10 (n * 10 + d div 100) @ [digit_char (d div 10 mod 10)]"
    using assms by (subst nat_str_step) (auto simp: three_digits)
  also have "nat_str 10 (n * 10 + d div 100) = nat_str 10 n @ [digit_char (d div 100)]"
    using assms by (subst nat_str_step) (auto simp: three_digits)
  finally show ?thesis using assms by (simp add: padStart_three)
qed

lemma pad_groups_snoc:
  "pad_groups (gs @ [g]) = map (padStart 3 CHR ''0'') gs @ [g]"
proof -
  have "map (\<lambda>(index, group). if index = length gs then group else padStart 3 CHR ''0'' group)
          (enumerate 0 gs) = map (padStart 3 CHR ''0'') gs"
    by (rule nth_equalityI) (auto simp: nth_enumerate_eq)
  then show ?thesis by (simp add: pad_groups_def enumerate_append_eq)
qed

lemma pad_groups_Cons: "gs \<noteq> [] \<Longrightarrow> pad_groups (g # gs) = padStart 3 CHR ''0'' g # pad_groups gs"
  by (cases gs rule: rev_cases) (simp_all add: pad_groups_snoc flip: append_Cons)

lemma decimal_groups_nat:
  "decimal_groups (int n) =
     (if n = 0 then [] else nat_str 10 (n mod 1000) # decimal_groups (int (n div 1000)))"
proof -
  have "int n smod 1000 = int (n mod 1000)"
    by (simp add: signed_modulo_int_def signed_divide_int_def sgn_if zmod_int minus_div_mult_eq_mod)
  moreover have "int n sdiv 1000 = int (n div 1000)"
    by (simp add: signed_divide_int_def sgn_if zdiv_int)
  ultimately show ?thesis by (subst decimal_groups.simps) (simp del: of_nat_mod of_nat_div)
qed

lemma decimal_groups_zero [simp]: "decimal_groups 0 = []"
  by (simp add: decimal_groups.simps)

lemma concat_decimal_groups:
  "0 < n \<Longrightarrow> concat (rev (pad_groups (decimal_groups (int n)))) = nat_str 10 n"
proof (induction n rule: less_induct)
  case (less n)
  show ?case
  proof (cases "n < 1000")
    case True
    with less.prems show ?thesis by (simp add: decimal_groups_nat pad_groups_def)
  next
    case False
    then have pos: "0 < n div 1000" "n div 1000 < n" by auto
    then have "decimal_groups (int (n div 1000)) \<noteq> []" by (subst decimal_groups_nat) simp
    with less pos False have "concat (rev (pad_groups (decimal_groups (int n)))) =
        nat_str 10 (n div 1000) @ padStart 3 CHR ''0'' (nat_str 10 (n mod 1000))"
      by (subst decimal_groups_nat) (simp add: pad_groups_Cons)
    also have "\<dots> = nat_str 10 (n div 1000 * 1000 + n mod 1000)"
      using pos by (simp only: nat_str_group mod_less_divisor zero_less_numeral)
    finally show ?thesis by (simp only: div_mult_mod_eq)
  qed
qed

lemma filter_join_commas:
  "(\<And>x. x \<in> set xs \<Longrightarrow> CHR '','' \<notin> set x) \<Longrightarrow> filter (\<lambda>c. c \<noteq> CHR '','') (join '','' xs) = concat xs"
proof (induction xs)
  case Nil
  then show ?case by simp
next
  case (Cons x xs)
  then have "filter (\<lambda>c. c \<noteq> CHR '','') x = x" by (auto intro: filter_True)
  with Cons show ?case by (cases xs) auto
qed

lemma decimal_groups_no_comma: "g \<in> set (decimal_groups (int n)) \<Longrightarrow> CHR '','' \<notin> set g"
proof (induction n rule: less_induct)
  case (less n)
  have "CHR '','' \<notin> set (nat_str 10 (n mod 1000))" using nat_str_decimal by fastforce
  moreover have "n \<noteq> 0 \<Longrightarrow> n div 1000 < n" by simp
  ultimately show ?case using less by (fastforce simp: decimal_groups_nat [of n] split: if_splits)
qed

lemma pad_groups_Nil [simp]: "pad_groups [] = []"
  by (simp add: pad_groups_def)

lemma pad_groups_no_comma:
  "\<forall>g \<in> set gs. CHR '','' \<notin> set g \<Longrightarrow> \<forall>g \<in> set (pad_groups gs). CHR '','' \<notin> set g"
  by (cases gs rule: rev_cases) (auto simp: pad_groups_snoc padStart_def)

lemma groupDecimals_strip: "filter (\<lambda>c. c \<noteq> CHR '','') (groupDecimals (int n)) = nat_str 10 n"
proof (cases "n = 0")
  case True
  then show ?thesis by (simp add: groupDecimals_def pad_groups_def nat_str_small digit_char_0)
next
  case False
  then have "groupDecimals (int n) = join '','' (rev (pad_groups (decimal_groups (int n))))"
    by (simp add: groupDecimals_def)
  moreover have "\<forall>g \<in> set (pad_groups (decimal_groups (int n))). CHR '','' \<notin> set g"
    by (rule pad_groups_no_comma) (auto simp: decimal_groups_no_comma)
  ultimately have "filter (\<lambda>c. c \<noteq> CHR '','') (groupDecimals (int n)) =
      concat (rev (pad_groups (decimal_groups (int n))))"
    by (simp only:) (rule filter_join_commas, simp)
  with False show ?thesis by (simp add: concat_decimal_groups)
qed

lemma groupDecimals_small: "n < 1000 \<Longrightarrow> groupDecimals (int n) = nat_str 10 n"
  by (cases "n = 0")
    (simp_all add: groupDecimals_def pad_groups_def decimal_groups_nat nat_str_small digit_char_0)

lemma join_has_sep: "2 \<le> length xs \<Longrightarrow> c \<in> set (join [c] xs)"
  by (cases xs; cases "tl xs") auto

lemma groupDecimals_large: "1000 \<le> n \<Longrightarrow> CHR '','' \<in> set (groupDecimals (int n))"
proof -
  assume n: "1000 \<le> n"
  then have "decimal_groups (int (n div 1000)) \<noteq> []" by (subst decimal_groups_nat) simp
  with n have "2 \<le> length (decimal_groups (int n))"
    by (subst decimal_groups_nat) (cases "decimal_groups (int (n div 1000))", auto)
  then have "2 \<le> length (rev (pad_groups (decimal_groups (int n))))" by (simp add: pad_groups_def)
  with n show ?thesis by (simp add: groupDecimals_def join_has_sep)
qed

section \<open>What the display shows\<close>

text \<open>The unit \<open>toString\<close> picks: the largest one that divides the time exactly.\<close>

definition display_unit :: "time_point \<Rightarrow> int \<times> string" where
  "display_unit t =
     (if raw t mod 1000000000000000 = 0 then (1000000000000000, ''s'')
      else if raw t mod 1000000000000 = 0 then (1000000000000, ''ms'')
      else if raw t mod 1000000000 = 0 then (1000000000, ''us'')
      else if raw t mod 1000000 = 0 then (1000000, ''ns'')
      else if raw t mod 1000 = 0 then (1000, ''ps'')
      else (1, ''fs''))"

lemma sdiv_smod_nonneg:
  fixes a b :: int
  assumes "0 \<le> a" "0 < b"
  shows "a sdiv b = a div b" "a smod b = a mod b"
  using assms by (simp_all add: signed_divide_int_def signed_modulo_int_def sgn_if minus_div_mult_eq_mod)

lemma toString_unit:
  assumes "0 \<le> raw t" "display_unit t = (u, name)"
  shows "toString t = groupDecimals (int (nat (raw t div u))) @ name"
proof -
  have nn: "0 < d \<Longrightarrow> int (nat (raw t div d)) = raw t sdiv d" for d
    using assms(1) by (simp add: sdiv_smod_nonneg pos_imp_zdiv_nonneg_iff)
  have sm: "raw t smod d = raw t mod d" if "0 < d" for d
    using assms(1) that by (simp add: sdiv_smod_nonneg)
  have "toString t = groupDecimals (raw t sdiv fst (display_unit t)) @ snd (display_unit t)"
    by (simp add: toString_def display_unit_def sm del: sdiv_int_numeral_numeral)
  moreover have "0 < u" using assms(2) by (auto simp: display_unit_def split: if_splits)
  ultimately show ?thesis by (simp only: assms(2) nn fst_conv snd_conv)
qed

lemma display_unit_exact:
  assumes "display_unit t = (u, name)"
  shows "0 < u" "raw t div u * u = raw t" "name \<in> set time_units"
    "fromString (nat_str 10 m @ name) = Inr (Raw (int m * u))"
proof -
  show "0 < u" "raw t div u * u = raw t"
    using assms by (auto simp: display_unit_def split: if_splits)
  show name: "name \<in> set time_units"
    using assms by (auto simp: display_unit_def time_units_def split: if_splits)
  have "match_time (nat_str 10 m @ name) = Some (nat_str 10 m, name)"
    using name nat_str_decimal_all by (auto simp: match_time_iff intro!: exI [of _ "[]"])
  moreover have "filter (\<lambda>c. c \<noteq> CHR '','') (nat_str 10 m) = nat_str 10 m"
    using nat_str_decimal by (intro filter_True) fastforce
  ultimately show "fromString (nat_str 10 m @ name) = Inr (Raw (int m * u))"
    using assms by (auto simp: fromString_def str_nat_nat_str display_unit_def TimePoint_def RESOLUTION_def
        split: if_splits)
qed

lemma time_unit_no_comma: "u \<in> set time_units \<Longrightarrow> filter (\<lambda>c. c \<noteq> CHR '','') u = u"
  by (auto simp: time_units_def)

lemma fromString_needs_digits:
  assumes "CHR '','' \<in> set s"
  shows "fromString s = Inl (SyntaxError s)"
proof (cases "match_time s")
  case (Some p)
  then obtain ds u ws where s: "s = ds @ ws @ u" "list_all is_digit ds" "list_all is_space ws"
      "u \<in> set time_units"
    by (cases p) (auto simp: match_time_iff)
  have "\<not> is_space CHR '',''" by (simp add: is_space_def)
  with s assms have False by (auto simp: list_all_iff time_units_def)
  then show ?thesis ..
qed (simp add: fromString_def)

section \<open>The wire format is a codec\<close>

lemma fromCXXRTL_parts:
  assumes "list_all is_digit w" "list_all is_digit f" "w \<noteq> []" "f \<noteq> []"
  shows "fromCXXRTL (w @ ''.'' @ f) = Inr (TimePoint (int (str_nat 10 w)) (int (str_nat 10 f)))"
proof -
  have "match_decimal (w @ ''.'' @ f) = Some (w, f)" using assms by (simp only: match_decimal_iff) simp
  then show ?thesis by (simp add: fromCXXRTL_def)
qed

lemma fromCXXRTL_toCXXRTL: "0 \<le> raw t \<Longrightarrow> fromCXXRTL (toCXXRTL t) = Inr t"
proof -
  assume nn: "0 \<le> raw t"
  then have s: "0 \<le> secs t" and f: "0 \<le> femtos t"
    by (simp_all add: secs_nonneg femtos_nonneg RESOLUTION_def)
  let ?f = "padStart 15 CHR ''0'' (nat_str 10 (nat (femtos t)))"
  have "list_all is_digit ?f" by (simp add: padStart_digits nat_str_decimal_all)
  moreover have "?f \<noteq> []" by (simp add: padStart_def)
  ultimately show ?thesis using s f
    by (simp only: toCXXRTL_def int_str_nat)
      (subst fromCXXRTL_parts, auto simp: nat_str_decimal_all str_nat_nat_str)
qed

interpretation time_wire: wire_codec toCXXRTL fromCXXRTL "\<lambda>t. 0 \<le> raw t"
  by unfold_locales (rule fromCXXRTL_toCXXRTL)

interpretation interval_wire: wire_codec interval_toCXXRTL interval_fromCXXRTL
    "\<lambda>i. 0 \<le> raw (begin_time i) \<and> 0 \<le> raw (end_time i)"
  by unfold_locales
    (auto simp: interval_fromCXXRTL_def interval_toCXXRTL_def time_wire.dec_enc)

lemma fromCXXRTL_minus: "CHR ''-'' \<in> set v \<Longrightarrow> fromCXXRTL v = Inl (SyntaxError v)"
proof -
  assume minus: "CHR ''-'' \<in> set v"
  have "match_decimal v = None"
  proof (cases "match_decimal v")
    case (Some p)
    then have "v = fst p @ ''.'' @ snd p" "list_all is_digit (fst p)" "list_all is_digit (snd p)"
      using match_decimal_iff [of v "fst p" "snd p"] by simp_all
    with minus show ?thesis by (auto simp: list_all_iff)
  qed
  then show ?thesis by (simp add: fromCXXRTL_def)
qed

lemma toCXXRTL_negative: "raw t < 0 \<Longrightarrow> CHR ''-'' \<in> set (toCXXRTL t)"
proof -
  assume neg: "raw t < 0"
  have "secs t < 0 \<or> femtos t < 0"
  proof (rule ccontr)
    assume "\<not> ?thesis"
    then have "0 \<le> secs t * RESOLUTION + femtos t" by (simp add: RESOLUTION_def)
    with neg show False by (simp add: secs_femtos)
  qed
  then show ?thesis by (auto simp: toCXXRTL_def int_str_def padStart_def)
qed

lemma toCXXRTL_digits: "0 \<le> raw t \<Longrightarrow> int (str_nat 10 (filter is_digit (toCXXRTL t))) = raw t"
proof -
  assume pos: "0 \<le> raw t"
  define s f where "s = nat (secs t)" and "f = nat (femtos t)"
  have nn: "secs t = int s" "femtos t = int f" and lt: "f < 10 ^ Suc 14" and rt: "raw t = int s * 10 ^ 15 + int f"
    using pos secs_femtos [of t] femtos_bound [of t]
    by (auto simp: s_def f_def secs_nonneg femtos_nonneg RESOLUTION_def)
  have len: "length (padStart 15 CHR ''0'' (nat_str 10 f)) = 15"
    using nat_str_length [OF _ lt] by (simp add: length_padStart)
  have dig: "filter is_digit (nat_str 10 s) = nat_str 10 s"
    "filter is_digit (padStart 15 CHR ''0'' (nat_str 10 f)) = padStart 15 CHR ''0'' (nat_str 10 f)"
    using nat_str_decimal_all [of s] padStart_digits [OF nat_str_decimal_all, of 15 f]
    by (simp_all add: filter_id_conv list_all_iff)
  have "filter is_digit (toCXXRTL t) = nat_str 10 s @ padStart 15 CHR ''0'' (nat_str 10 f)"
    by (simp add: toCXXRTL_def nn dig)
  then show ?thesis by (simp add: str_nat_append len str_nat_nat_str rt)
qed

section \<open>Properties\<close>

text \<open>C25: a time point survives the CXXRTL wire format exactly when it is not negative, and the digits
  of its text are then those of its femtoseconds: the fraction has fifteen places.  A negative one (which the debugger never sends) prints a minus sign in the seconds or the fraction, and
  \<open>fromCXXRTL\<close> rejects it.\<close>

theorem time_wire_roundtrip:
  "if 0 \<le> raw t
   then fromCXXRTL (toCXXRTL t) = Inr t \<and> int (str_nat 10 (filter is_digit (toCXXRTL t))) = raw t
   else fromCXXRTL (toCXXRTL t) = Inl (SyntaxError (toCXXRTL t))"
  by (simp add: time_wire.dec_enc fromCXXRTL_minus toCXXRTL_negative toCXXRTL_digits)

text \<open>C26: the text shown for a time denotes that time: with the group separators removed, the input
  parser reads back the very same point, whatever unit and grouping the printer chose.\<close>

theorem toString_denotes:
  assumes "0 \<le> raw t"
  shows "fromString (filter (\<lambda>c. c \<noteq> CHR '','') (toString t)) = Inr t"
proof -
  obtain u name where du: "display_unit t = (u, name)" by fastforce
  have "toString t = groupDecimals (int (nat (raw t div u))) @ name"
    by (rule toString_unit [OF assms du])
  then have "filter (\<lambda>c. c \<noteq> CHR '','') (toString t) = nat_str 10 (nat (raw t div u)) @ name"
    by (simp only: filter_append groupDecimals_strip time_unit_no_comma [OF display_unit_exact(3) [OF du]])
  moreover have "int (nat (raw t div u)) * u = raw t"
    using assms display_unit_exact(1,2) [OF du] by (simp add: pos_imp_zdiv_nonneg_iff)
  ultimately show ?thesis by (simp only: display_unit_exact(4) [OF du] time_point.collapse)
qed

theorem toString_denotes_witness:
  "fromString (filter (\<lambda>c. c \<noteq> CHR '','') (toString (Raw 1234567000))) = Inr (Raw 1234567000)"
  using toString_denotes [of "Raw 1234567000"] by simp

text \<open>Text copied from the display is accepted by the input box only when it needs no group
  separator, that is when its mantissa is below 1000: the input expression admits no comma,
  although \<open>fromString\<close> goes on to strip commas from the mantissa.\<close>

theorem toString_paste_back:
  assumes "0 \<le> raw t"
  shows "fromString (toString t) =
    (if raw t div fst (display_unit t) < 1000 then Inr t else Inl (SyntaxError (toString t)))"
proof -
  obtain u name where du: "display_unit t = (u, name)" by fastforce
  let ?m = "nat (raw t div u)"
  have ts: "toString t = groupDecimals (int ?m) @ name" by (rule toString_unit [OF assms du])
  have m: "int ?m * u = raw t" "0 \<le> raw t div u"
    using assms display_unit_exact(1,2) [OF du] by (simp_all add: pos_imp_zdiv_nonneg_iff)
  show ?thesis
  proof (cases "?m < 1000")
    case True
    then have "fromString (toString t) = Inr t"
      by (simp only: ts groupDecimals_small display_unit_exact(4) [OF du] m time_point.collapse)
    with True m du show ?thesis by simp
  next
    case False
    then have "CHR '','' \<in> set (toString t)" using groupDecimals_large [of ?m] by (simp add: ts)
    with False m du show ?thesis by (simp add: fromString_needs_digits)
  qed
qed

theorem toString_paste_back_witness:
  "fromString (toString (Raw 1234567000)) = Inl (SyntaxError (toString (Raw 1234567000)))
   \<and> fromString (toString (Raw 10000000000000)) = Inr (Raw 10000000000000)"
  using toString_paste_back [of "Raw 1234567000"] toString_paste_back [of "Raw 10000000000000"]
  by (simp add: display_unit_def)

text \<open>C27: the input parser accepts exactly the strings made of decimal digits, optional white space
  and one of the six units, and returns the number of femtoseconds they denote; it never reaches
  the branch marked unreachable, and every other string is a syntax error.\<close>

definition unit_femtos :: "(string \<times> int) list" where
  "unit_femtos =
     [(''s'', 1000000000000000), (''ms'', 1000000000000), (''us'', 1000000000),
      (''ns'', 1000000), (''ps'', 1000), (''fs'', 1)]"

theorem fromString_exact:
  "(fromString v = Inr t \<longleftrightarrow>
     (\<exists>ds ws u f. v = ds @ ws @ u \<and> ds \<noteq> [] \<and> list_all is_digit ds \<and> list_all is_space ws \<and>
        (u, f) \<in> set unit_femtos \<and> t = Raw (int (str_nat 10 ds) * f)))
   \<and> (fromString v = Inl e \<longleftrightarrow> e = SyntaxError v \<and> match_time v = None)"
proof (rule conjI)
  have strip: "filter (\<lambda>c. c \<noteq> CHR '','') ds = ds" if "match_time v = Some (ds, u)" for ds u
    using that by (intro filter_True) (auto simp: match_time_iff list_all_iff)
  have units: "u \<in> set time_units" if "match_time v = Some (ds, u)" for ds u
    using that unfolding match_time_iff by blast
  show "fromString v = Inl e \<longleftrightarrow> e = SyntaxError v \<and> match_time v = None"
    using units by (auto simp: fromString_def time_units_def split: option.splits if_splits)
  show "fromString v = Inr t \<longleftrightarrow>
     (\<exists>ds ws u f. v = ds @ ws @ u \<and> ds \<noteq> [] \<and> list_all is_digit ds \<and> list_all is_space ws \<and>
        (u, f) \<in> set unit_femtos \<and> t = Raw (int (str_nat 10 ds) * f))" (is "_ \<longleftrightarrow> ?R")
  proof
    assume "fromString v = Inr t"
    then obtain ds u where m: "match_time v = Some (ds, u)"
      by (auto simp: fromString_def split: option.splits)
    with \<open>fromString v = Inr t\<close> strip [OF m] have "\<exists>f. (u, f) \<in> set unit_femtos \<and> t = Raw (int (str_nat 10 ds) * f)"
      by (auto simp: fromString_def unit_femtos_def TimePoint_def RESOLUTION_def Let_def split: if_splits)
    with m show ?R unfolding match_time_iff by blast
  next
    assume ?R
    then obtain ds ws u f where v: "v = ds @ ws @ u" "ds \<noteq> []" "list_all is_digit ds"
        "list_all is_space ws" and u: "(u, f) \<in> set unit_femtos" and t: "t = Raw (int (str_nat 10 ds) * f)"
      by blast
    have "u \<in> set time_units" using u by (auto simp: unit_femtos_def time_units_def)
    with v have m: "match_time v = Some (ds, u)" unfolding match_time_iff by blast
    show "fromString v = Inr t"
      using u t strip [OF m] m
      by (auto simp: fromString_def unit_femtos_def TimePoint_def RESOLUTION_def)
  qed
qed

end
