(* ===== verification/Samples.thy ===== *)
theory Samples
  imports Variables Time_Points "HOL-Library.Word"
begin

text \<open>
  \<open>src/src/model/sample.ts\<close>: how the values of a set of observed variables are laid out in one
  array of 32-bit chunks, and how they are read back.

  A \<open>designation\<close> names a scalar, one memory row or a range of rows; an
  \<open>unbound_reference\<close> collects designations, giving each a \<open>handle\<close> with its offset in
  chunks; a \<open>sample\<close> pairs the array the server returned with the reference it was queried
  through.  \<open>reference_id\<close> is the object identity that \<open>Sample.extract\<close> compares.
\<close>

section \<open>Data ranges\<close>

datatype data_range = DataRange (stride: int) (range_count: int)

text \<open>\<open>0 | x\<close> truncates to an integer and wraps to 32 signed bits.\<close>

definition to_int32 :: "int \<Rightarrow> int" where
  "to_int32 x = sint (word_of_int x :: 32 word)"

definition new_DataRange :: "variable \<Rightarrow> int \<Rightarrow> data_range" where
  "new_DataRange v count = DataRange (to_int32 ((int (width v) + 31) div 32)) count"

definition range_size :: "data_range \<Rightarrow> int" where
  "range_size r = stride r * range_count r"

text \<open>\<open>BigInt(data[i])\<close>: reading outside the array gives \<open>undefined\<close>, which \<open>BigInt\<close> rejects.\<close>

definition chunk_at :: "32 word list \<Rightarrow> int \<Rightarrow> js_error + nat" where
  "chunk_at data i =
     (if 0 \<le> i \<and> i < int (length data) then Inr (unat (data ! nat i))
      else Inl (TypeError ''Cannot convert undefined to a BigInt''))"

fun chunks_value :: "32 word list \<Rightarrow> int \<Rightarrow> nat \<Rightarrow> nat \<Rightarrow> js_error + nat" where
  "chunks_value data base 0 value = Inr value"
| "chunks_value data base (Suc n) value =
     (case chunk_at data base of
        Inl e \<Rightarrow> Inl e
      | Inr c \<Rightarrow> chunks_value data (base + 1) n (value * 2 ^ 32 + c))"

definition bigintFromRaw :: "data_range \<Rightarrow> 32 word list \<Rightarrow> int \<Rightarrow> js_error + nat" where
  "bigintFromRaw r data offset =
     (if \<not> offset \<le> range_count r then Inl (RangeError ''Offset out of bounds'')
      else chunks_value data (stride r * offset) (nat (stride r)) 0)"

section \<open>Designations\<close>

datatype designation =
    ScalarDesignation (desig_variable: variable)
  | MemoryRowDesignation (desig_variable: variable) (row_index: int)
  | MemoryRangeDesignation (desig_variable: variable) (range_first: int) (range_last: int)

text \<open>
  The value of a range is an iterator; \<open>Rows\<close> is what running it to its end yields.
\<close>

datatype desig_value = Bits nat | Rows "nat list"

text \<open>The methods of the three subclasses, and the dynamic dispatch over them.\<close>

definition scalar_canonicalKey :: "variable \<Rightarrow> string" where [simp]:
  "scalar_canonicalKey v = join '' '' (fullName v)"

definition memory_row_canonicalKey :: "variable \<Rightarrow> int \<Rightarrow> string" where [simp]:
  "memory_row_canonicalKey v i = join '' '' (fullName v) @ [CHR 0x00] @ int_str i"

definition memory_range_canonicalKey :: "variable \<Rightarrow> int \<Rightarrow> int \<Rightarrow> string" where [simp]:
  "memory_range_canonicalKey v a b =
     join '' '' (fullName v) @ [CHR 0x00] @ int_str a @ [CHR 0x00] @ int_str b"

definition canonicalKey :: "designation \<Rightarrow> string" where
  "canonicalKey d =
     (case d of
        ScalarDesignation v \<Rightarrow> scalar_canonicalKey v
      | MemoryRowDesignation v i \<Rightarrow> memory_row_canonicalKey v i
      | MemoryRangeDesignation v a b \<Rightarrow> memory_range_canonicalKey v a b)"

definition scalar_cxxrtlItemDesignation :: "variable \<Rightarrow> item_designation" where [simp]:
  "scalar_cxxrtlItemDesignation v = ItemScalar (cxxrtlIdentifier v)"

definition memory_row_cxxrtlItemDesignation :: "variable \<Rightarrow> int \<Rightarrow> item_designation" where [simp]:
  "memory_row_cxxrtlItemDesignation v i = ItemRows (cxxrtlIdentifier v) i i"

definition memory_range_cxxrtlItemDesignation :: "variable \<Rightarrow> int \<Rightarrow> int \<Rightarrow> item_designation" where [simp]:
  "memory_range_cxxrtlItemDesignation v a b = ItemRows (cxxrtlIdentifier v) a b"

definition cxxrtlItemDesignation :: "designation \<Rightarrow> item_designation" where
  "cxxrtlItemDesignation d =
     (case d of
        ScalarDesignation v \<Rightarrow> scalar_cxxrtlItemDesignation v
      | MemoryRowDesignation v i \<Rightarrow> memory_row_cxxrtlItemDesignation v i
      | MemoryRangeDesignation v a b \<Rightarrow> memory_range_cxxrtlItemDesignation v a b)"

definition row_count :: "int \<Rightarrow> int \<Rightarrow> int" where
  "row_count a b = (if b \<ge> a then b - a + 1 else a - b + 1)"

definition scalar_dataRange :: "variable \<Rightarrow> data_range" where [simp]:
  "scalar_dataRange v = new_DataRange v 1"

definition memory_row_dataRange :: "variable \<Rightarrow> data_range" where [simp]:
  "memory_row_dataRange v = new_DataRange v 1"

definition memory_range_dataRange :: "variable \<Rightarrow> int \<Rightarrow> int \<Rightarrow> data_range" where [simp]:
  "memory_range_dataRange v a b = new_DataRange v (row_count a b)"

definition dataRange :: "designation \<Rightarrow> data_range" where
  "dataRange d =
     (case d of
        ScalarDesignation v \<Rightarrow> scalar_dataRange v
      | MemoryRowDesignation v i \<Rightarrow> memory_row_dataRange v
      | MemoryRangeDesignation v a b \<Rightarrow> memory_range_dataRange v a b)"

definition scalar_extractFromRaw :: "variable \<Rightarrow> 32 word list \<Rightarrow> js_error + nat" where [simp]:
  "scalar_extractFromRaw v data = bigintFromRaw (scalar_dataRange v) data 0"

definition memory_row_extractFromRaw :: "variable \<Rightarrow> 32 word list \<Rightarrow> js_error + nat" where [simp]:
  "memory_row_extractFromRaw v data = bigintFromRaw (memory_row_dataRange v) data 0"

definition memory_range_extractFromRaw ::
  "variable \<Rightarrow> int \<Rightarrow> int \<Rightarrow> 32 word list \<Rightarrow> js_error + nat list" where [simp]:
  "memory_range_extractFromRaw v a b data =
     sum_map (\<lambda>offset. bigintFromRaw (memory_range_dataRange v a b) data (int offset))
       [0..<nat (row_count a b)]"

definition extractFromRaw :: "designation \<Rightarrow> 32 word list \<Rightarrow> js_error + desig_value" where
  "extractFromRaw d data =
     (case d of
        ScalarDesignation v \<Rightarrow> map_sum id Bits (scalar_extractFromRaw v data)
      | MemoryRowDesignation v i \<Rightarrow> map_sum id Bits (memory_row_extractFromRaw v data)
      | MemoryRangeDesignation v a b \<Rightarrow> map_sum id Rows (memory_range_extractFromRaw v a b data))"

text \<open>\<open>variable.designation(...)\<close>\<close>

definition designation_of_scalar :: "variable \<Rightarrow> designation" where
  "designation_of_scalar v = ScalarDesignation v"

definition designation_of_memory :: "variable \<Rightarrow> int option \<Rightarrow> int option \<Rightarrow> designation" where
  "designation_of_memory v firstOrIndex lastIndex =
     (case (firstOrIndex, lastIndex) of
        (Some i, None) \<Rightarrow> MemoryRowDesignation v i
      | (Some a, Some b) \<Rightarrow> MemoryRangeDesignation v a b
      | (None, _) \<Rightarrow> MemoryRangeDesignation v 0 (int (depth v) - 1))"

section \<open>References, handles and samples\<close>

datatype handle = Handle (handle_designation: designation) (handle_reference: nat) (handle_offset: int)

record unbound_reference =
  reference_id :: nat
  frozen :: bool
  ref_offset :: int
  handles :: "handle list"

definition new_UnboundReference :: "nat \<Rightarrow> unbound_reference" where
  "new_UnboundReference uid = \<lparr>reference_id = uid, frozen = False, ref_offset = 0, handles = []\<rparr>"

definition add_designation ::
  "designation \<Rightarrow> unbound_reference \<Rightarrow> js_error + handle \<times> unbound_reference" where
  "add_designation d r =
     (if frozen r then Inl (GenericError ''Cannot add variables to a reference that has been bound to a name'')
      else (let h = Handle d (reference_id r) (ref_offset r)
            in Inr (h, r\<lparr>handles := handles r @ [h], ref_offset := ref_offset r + range_size (dataRange d)\<rparr>)))"

definition freeze :: "unbound_reference \<Rightarrow> unbound_reference" where
  "freeze r = r\<lparr>frozen := True\<rparr>"

definition allHandles :: "unbound_reference \<Rightarrow> (designation \<times> handle) list" where
  "allHandles r = map (\<lambda>h. (handle_designation h, h)) (handles r)"

definition cxxrtlItemDesignations :: "unbound_reference \<Rightarrow> item_designation list" where
  "cxxrtlItemDesignations r = map (\<lambda>h. cxxrtlItemDesignation (handle_designation h)) (handles r)"

text \<open>\<open>new Reference(name, epoch, unbound)\<close> freezes the unbound reference it is given.\<close>

datatype reference = Reference (ref_name: string) (ref_epoch: nat) (ref_unbound: unbound_reference)

definition new_Reference :: "string \<Rightarrow> nat \<Rightarrow> unbound_reference \<Rightarrow> reference" where
  "new_Reference name epoch unbound = Reference name epoch (freeze unbound)"

text \<open>\<open>data.subarray(offset)\<close>: a negative offset counts from the end, both are clamped.\<close>

definition subarray :: "32 word list \<Rightarrow> int \<Rightarrow> 32 word list" where
  "subarray data offset = drop (nat (if offset < 0 then int (length data) + offset else offset)) data"

definition handle_extract :: "handle \<Rightarrow> 32 word list \<Rightarrow> js_error + desig_value" where
  "handle_extract h data = extractFromRaw (handle_designation h) (subarray data (handle_offset h))"

datatype sample =
  Sample (sample_time: time_point) (sample_reference: nat) (variableData: "32 word list")

definition sample_extract :: "sample \<Rightarrow> handle \<Rightarrow> js_error + desig_value" where
  "sample_extract s h =
     (if handle_reference h \<noteq> sample_reference s
      then Inl (ReferenceError ''Handle is not bound to the same reference as the sample'')
      else handle_extract h (variableData s))"

section \<open>Reading chunks\<close>

text \<open>
  The server's side of the layout, as the specification of what is read: a value occupies
  \<open>chunk_count\<close> words, most significant first.
\<close>

definition chunk_count :: "variable \<Rightarrow> nat" where
  "chunk_count v = (width v + 31) div 32"

fun encode_chunks :: "nat \<Rightarrow> nat \<Rightarrow> 32 word list" where
  "encode_chunks 0 x = []"
| "encode_chunks (Suc n) x = encode_chunks n (x div 2 ^ 32) @ [word_of_nat x]"

definition chunks_nat :: "nat \<Rightarrow> 32 word list \<Rightarrow> nat" where
  "chunks_nat a ws = foldl (\<lambda>a c. a * 2 ^ 32 + unat c) a ws"

text \<open>Widths whose chunk count fits the 32-bit truncation of the source.\<close>

definition narrow :: "variable \<Rightarrow> bool" where
  "narrow v \<longleftrightarrow> width v + 31 < 2 ^ 36"

lemma length_encode_chunks [simp]: "length (encode_chunks n x) = n"
  by (induction n arbitrary: x) auto

lemma encode_chunks_two: "encode_chunks 2 x = [word_of_nat (x div 2 ^ 32), word_of_nat x]"
proof -
  have "encode_chunks (Suc (Suc 0)) x = [word_of_nat (x div 2 ^ 32), word_of_nat x]" by simp
  then show ?thesis by (metis One_nat_def Suc_1)
qed

lemma chunks_nat_encode: "chunks_nat a (encode_chunks n x) = a * 2 ^ (32 * n) + x mod 2 ^ (32 * n)"
proof (induction n arbitrary: x)
  case 0
  then show ?case by (simp add: chunks_nat_def)
next
  case (Suc n)
  have "chunks_nat a (encode_chunks (Suc n) x) =
      (a * 2 ^ (32 * n) + x div 2 ^ 32 mod 2 ^ (32 * n)) * 2 ^ 32 + x mod 2 ^ 32"
    using Suc [of "x div 2 ^ 32"] by (simp add: chunks_nat_def unat_of_nat)
  also have "\<dots> = a * (2 ^ 32 * 2 ^ (32 * n)) + (2 ^ 32 * (x div 2 ^ 32 mod 2 ^ (32 * n)) + x mod 2 ^ 32)"
    by (simp add: algebra_simps)
  also have "\<dots> = a * (2 ^ 32 * 2 ^ (32 * n)) + x mod (2 ^ 32 * 2 ^ (32 * n))"
    by (simp only: mod_mult2_eq)
  finally show ?case by (simp add: power_add)
qed

lemma chunks_value_read:
  "chunks_value (pre @ ws @ post) (int (length pre)) (length ws) a = Inr (chunks_nat a ws)"
proof (induction ws arbitrary: pre a)
  case Nil
  then show ?case by (simp add: chunks_nat_def)
next
  case (Cons w ws)
  have "chunk_at (pre @ (w # ws) @ post) (int (length pre)) = Inr (unat w)"
    by (simp add: chunk_at_def nth_append)
  with Cons [of "pre @ [w]"] show ?case by (simp add: chunks_nat_def algebra_simps)
qed

lemma to_int32_small: "0 \<le> x \<Longrightarrow> x < 2 ^ 31 \<Longrightarrow> to_int32 x = x"
  by (simp add: to_int32_def sint_sbintrunc' signed_take_bit_int_eq_self_iff)

lemma stride_chunk_count: "narrow v \<Longrightarrow> stride (new_DataRange v c) = int (chunk_count v)"
proof -
  assume "narrow v"
  then have "int (width v) + 31 < 2 ^ 36" by (simp add: narrow_def)
  then have "(int (width v) + 31) div 32 < 2 ^ 31" by simp
  then show ?thesis
    by (simp add: new_DataRange_def to_int32_small chunk_count_def zdiv_int)
qed

lemma range_count_new [simp]: "range_count (new_DataRange v c) = c"
  by (simp add: new_DataRange_def)

lemma bigintFromRaw_read:
  assumes "narrow v" "int k \<le> c" "x < 2 ^ (32 * chunk_count v)" "length pre = chunk_count v * k"
  shows "bigintFromRaw (new_DataRange v c) (pre @ encode_chunks (chunk_count v) x @ post) (int k) = Inr x"
  using assms chunks_value_read [of pre "encode_chunks (chunk_count v) x" post 0]
  by (simp add: bigintFromRaw_def stride_chunk_count chunks_nat_encode)

section \<open>Designations as fixed-size codecs\<close>

text \<open>
  The contract between a designation and the reference that lays it out: its encoding has the
  announced size, and it reads its own encoding whatever follows.
\<close>

locale raw_layout =
  fixes size_of :: "'d \<Rightarrow> nat"
    and encode :: "'d \<Rightarrow> 'v \<Rightarrow> 'w list"
    and read_back :: "'d \<Rightarrow> 'w list \<Rightarrow> js_error + 'v"
    and valid :: "'d \<Rightarrow> 'v \<Rightarrow> bool"
  assumes length_encode: "valid d v \<Longrightarrow> length (encode d v) = size_of d"
    and extract_encode: "valid d v \<Longrightarrow> read_back d (encode d v @ rest) = Inr v"
begin

lemma length_concat:
  "list_all2 valid ds vs \<Longrightarrow> length (concat (map2 encode ds vs)) = sum_list (map size_of ds)"
  by (induction ds vs rule: list_all2_induct) (auto simp: length_encode)

lemma extract_at:
  "list_all2 valid ds vs \<Longrightarrow> i < length ds \<Longrightarrow>
     read_back (ds ! i) (drop (sum_list (map size_of (take i ds))) (concat (map2 encode ds vs))) = Inr (vs ! i)"
proof (induction ds vs arbitrary: i rule: list_all2_induct)
  case Nil
  then show ?case by simp
next
  case (Cons d ds v vs)
  show ?case
  proof (cases i)
    case 0
    with Cons show ?thesis by (simp add: extract_encode)
  next
    case (Suc k)
    with Cons show ?thesis by (simp add: length_encode)
  qed
qed

end

definition encode_designation :: "designation \<Rightarrow> desig_value \<Rightarrow> 32 word list" where
  "encode_designation d x =
     (case x of Bits n \<Rightarrow> encode_chunks (chunk_count (desig_variable d)) n
      | Rows ns \<Rightarrow> concat (map (encode_chunks (chunk_count (desig_variable d))) ns))"

definition valid_value :: "designation \<Rightarrow> desig_value \<Rightarrow> bool" where
  "valid_value d x \<longleftrightarrow> narrow (desig_variable d) \<and>
     (case (d, x) of
        (MemoryRangeDesignation v a b, Rows ns) \<Rightarrow>
          length ns = nat (row_count a b) \<and> list_all (\<lambda>n. n < 2 ^ (32 * chunk_count v)) ns
      | (MemoryRangeDesignation v a b, Bits n) \<Rightarrow> False
      | (_, Bits n) \<Rightarrow> n < 2 ^ (32 * chunk_count (desig_variable d))
      | (_, Rows ns) \<Rightarrow> False)"

definition designation_size :: "designation \<Rightarrow> nat" where
  "designation_size d = nat (range_size (dataRange d))"

lemma row_count_pos: "0 < row_count a b"
  by (simp add: row_count_def)

lemma length_encode_rows [simp]: "length (concat (map (encode_chunks n) ns)) = n * length ns"
  by (induction ns) auto

lemma extract_rows:
  assumes "narrow v" "int (length ns) \<le> c" "list_all (\<lambda>n. n < 2 ^ (32 * chunk_count v)) ns"
  shows "sum_map (\<lambda>offset. bigintFromRaw (new_DataRange v c)
           (concat (map (encode_chunks (chunk_count v)) ns) @ rest) (int offset)) [0..<length ns] = Inr ns"
proof -
  let ?e = "encode_chunks (chunk_count v)"
  have "bigintFromRaw (new_DataRange v c) (concat (map ?e ns) @ rest) (int k) = Inr (ns ! k)"
    if k: "k < length ns" for k
  proof -
    have "concat (map ?e ns) = concat (map ?e (take k ns)) @ ?e (ns ! k) @ concat (map ?e (drop (Suc k) ns))"
      using k by (metis append_take_drop_id concat.simps(2) concat_append Cons_nth_drop_Suc list.simps(9) map_append)
    then show ?thesis
      using assms k bigintFromRaw_read [of v k c "ns ! k" "concat (map ?e (take k ns))"]
      by (simp add: list_all_length)
  qed
  then have "sum_map (\<lambda>offset. bigintFromRaw (new_DataRange v c) (concat (map ?e ns) @ rest) (int offset))
      [0..<length ns] = Inr (map ((!) ns) [0..<length ns])"
    by (intro sum_map_Inr) simp
  then show ?thesis by (simp add: map_nth)
qed

interpretation layout: raw_layout designation_size encode_designation extractFromRaw valid_value
proof unfold_locales
  fix d x rest
  assume v: "valid_value d x"
  show "length (encode_designation d x) = designation_size d"
    using v by (cases d; cases x)
      (auto simp: valid_value_def encode_designation_def designation_size_def dataRange_def range_size_def
        stride_chunk_count nat_mult_distrib row_count_pos less_imp_le)
  show "extractFromRaw d (encode_designation d x @ rest) = Inr x"
  proof (cases "\<exists>u a b ns. d = MemoryRangeDesignation u a b \<and> x = Rows ns")
    case True
    then obtain u a b ns where "d = MemoryRangeDesignation u a b" "x = Rows ns" by blast
    with v extract_rows [of u ns "row_count a b" rest] row_count_pos [of a b] show ?thesis
      by (simp add: valid_value_def encode_designation_def extractFromRaw_def dataRange_def)
  next
    case False
    with v show ?thesis
      using bigintFromRaw_read [of "desig_variable d" 0 1 _ "[]" rest]
      by (cases d; cases x)
        (auto simp: valid_value_def encode_designation_def extractFromRaw_def dataRange_def)
  qed
qed

section \<open>The type of what is read\<close>

text \<open>Whatever the chunks are, they are the encoding of exactly one value of the right type.\<close>

lemma encode_chunks_snoc: "encode_chunks (Suc n) (a * 2 ^ 32 + unat w) = encode_chunks n a @ [w]"
proof -
  have w: "unat w < 2 ^ 32" using unsigned_less [of w, where ?'a = nat] by simp
  then have "(a * 2 ^ 32 + unat w) div 2 ^ 32 = a" by simp
  moreover have "(word_of_nat (a * 2 ^ 32 + unat w) :: 32 word) = w"
    using w by (simp only: word_unat_eq_iff unat_of_nat) simp
  ultimately show ?thesis by simp
qed

lemma chunks_decodable: "\<exists>x < 2 ^ (32 * length ws). encode_chunks (length ws) x = ws"
proof (induction ws rule: rev_induct)
  case Nil
  then show ?case by simp
next
  case (snoc w ws)
  then obtain a where a: "a < 2 ^ (32 * length ws)" "encode_chunks (length ws) a = ws" by blast
  have "unat w < 2 ^ 32" using unsigned_less [of w, where ?'a = nat] by simp
  moreover have "(a + 1) * 2 ^ 32 \<le> 2 ^ (32 * length ws) * 2 ^ 32"
    using a(1) by (intro mult_le_mono1) simp
  ultimately have "a * 2 ^ 32 + unat w < 2 ^ (32 * length ws) * 2 ^ 32" by (simp add: algebra_simps)
  moreover have "encode_chunks (Suc (length ws)) (a * 2 ^ 32 + unat w) = ws @ [w]"
    by (simp only: encode_chunks_snoc a(2))
  ultimately show ?case
    by (intro exI [of _ "a * 2 ^ 32 + unat w"]) (simp only: length_append_singleton, simp add: power_add)
qed

lemma rows_decodable:
  "length ws = n * c \<Longrightarrow>
     \<exists>ns. length ns = c \<and> list_all (\<lambda>x. x < 2 ^ (32 * n)) ns \<and> concat (map (encode_chunks n) ns) = ws"
proof (induction c arbitrary: ws)
  case 0
  then show ?case by simp
next
  case (Suc c)
  have "length (drop n ws) = n * c" using Suc.prems by simp
  from Suc.IH [OF this] obtain ns where "length ns = c" "list_all (\<lambda>x. x < 2 ^ (32 * n)) ns"
      "concat (map (encode_chunks n) ns) = drop n ws" by blast
  moreover obtain x where "x < 2 ^ (32 * n)" "encode_chunks n x = take n ws"
    using chunks_decodable [of "take n ws"] Suc.prems by auto
  ultimately show ?case by (intro exI [of _ "x # ns"]) simp
qed

lemma designation_decodable:
  assumes "narrow (desig_variable d)" "length ws = designation_size d"
  shows "\<exists>x. valid_value d x \<and> encode_designation d x = ws"
proof (cases d)
  case (MemoryRangeDesignation v a b)
  with assms have "length ws = chunk_count v * nat (row_count a b)"
    by (simp add: designation_size_def dataRange_def range_size_def stride_chunk_count nat_mult_distrib)
  from rows_decodable [OF this] obtain ns where "length ns = nat (row_count a b)"
      "list_all (\<lambda>x. x < 2 ^ (32 * chunk_count v)) ns" "concat (map (encode_chunks (chunk_count v)) ns) = ws" by blast
  with assms(1) MemoryRangeDesignation show ?thesis
    by (intro exI [of _ "Rows ns"]) (simp add: valid_value_def encode_designation_def)
next
  case (ScalarDesignation v)
  with assms have "length ws = chunk_count v"
    by (simp add: designation_size_def dataRange_def range_size_def stride_chunk_count)
  moreover obtain x where "x < 2 ^ (32 * length ws)" "encode_chunks (length ws) x = ws"
    using chunks_decodable by blast
  ultimately show ?thesis using assms(1) ScalarDesignation
    by (intro exI [of _ "Bits x"]) (simp add: valid_value_def encode_designation_def)
next
  case (MemoryRowDesignation v i)
  with assms have "length ws = chunk_count v"
    by (simp add: designation_size_def dataRange_def range_size_def stride_chunk_count)
  moreover obtain x where "x < 2 ^ (32 * length ws)" "encode_chunks (length ws) x = ws"
    using chunks_decodable by blast
  ultimately show ?thesis using assms(1) MemoryRowDesignation
    by (intro exI [of _ "Bits x"]) (simp add: valid_value_def encode_designation_def)
qed

lemma chunks_value_two:
  "chunks_value data b 2 a =
     (case chunk_at data b of Inl e \<Rightarrow> Inl e | Inr c \<Rightarrow> chunks_value data (b + 1) 1 (a * 2 ^ 32 + c))"
  by (simp add: numeral_2_eq_2 split: sum.split)

text \<open>Reading past the end of the array fails, at the first chunk that is missing.\<close>

abbreviation past_end :: js_error where
  "past_end \<equiv> TypeError ''Cannot convert undefined to a BigInt''"

lemma chunks_value_short:
  "0 < n \<Longrightarrow> length data < base + n \<Longrightarrow> chunks_value data (int base) n a = Inl past_end"
proof (induction n arbitrary: base a)
  case (Suc n)
  show ?case
  proof (cases "base < length data")
    case True
    with Suc have "chunks_value data (int (Suc base)) n b = Inl past_end" for b by (intro Suc.IH) auto
    with True show ?thesis by (simp add: chunk_at_def add.commute)
  qed (simp add: chunk_at_def)
qed simp

lemma bigintFromRaw_total:
  assumes "narrow v" "int k \<le> c"
  shows "if chunk_count v * Suc k \<le> length data then \<exists>x. bigintFromRaw (new_DataRange v c) data (int k) = Inr x
    else bigintFromRaw (new_DataRange v c) data (int k) = Inl past_end"
proof (cases "chunk_count v * Suc k \<le> length data")
  case True
  let ?n = "chunk_count v"
  have "data = take (?n * k) data @ take ?n (drop (?n * k) data) @ drop ?n (drop (?n * k) data)"
    by (simp only: append_take_drop_id)
  moreover have "length (take (?n * k) data) = ?n * k" "length (take ?n (drop (?n * k) data)) = ?n"
    using True by auto
  ultimately have "chunks_value data (int (?n * k)) ?n 0 = Inr (chunks_nat 0 (take ?n (drop (?n * k) data)))"
    using chunks_value_read [of "take (?n * k) data" "take ?n (drop (?n * k) data)" "drop ?n (drop (?n * k) data)" 0]
    by metis
  with True assms show ?thesis by (simp add: bigintFromRaw_def stride_chunk_count)
next
  case False
  then have "0 < chunk_count v" by (cases "chunk_count v") auto
  with False chunks_value_short [of "chunk_count v" data "chunk_count v * k" 0] assms show ?thesis
    by (simp add: bigintFromRaw_def stride_chunk_count algebra_simps)
qed

lemma extract_short:
  assumes "narrow (desig_variable d)" "length data < designation_size d"
  shows "extractFromRaw d data = Inl past_end"
proof (cases d)
  case (MemoryRangeDesignation v a b)
  let ?f = "\<lambda>offset. bigintFromRaw (new_DataRange v (row_count a b)) data (int offset)"
  have v: "narrow v" and short: "length data < chunk_count v * nat (row_count a b)"
    using assms MemoryRangeDesignation
    by (simp_all add: designation_size_def dataRange_def range_size_def stride_chunk_count nat_mult_distrib)
  then have n: "0 < chunk_count v" by (cases "chunk_count v") auto
  have each: "?f k = Inl past_end \<or> (\<exists>z. ?f k = Inr z)" if "k \<in> set [0..<nat (row_count a b)]" for k
  proof -
    have "int k \<le> row_count a b" using that by auto
    from bigintFromRaw_total [OF v this, of data] show ?thesis by (auto split: if_splits)
  qed
  obtain m where m: "nat (row_count a b) = Suc m" using row_count_pos [of a b] by (cases "nat (row_count a b)") auto
  with short n bigintFromRaw_total [OF v, of m "row_count a b" data] have "?f m = Inl past_end"
    by (auto split: if_splits)
  then have "sum_map ?f [0..<nat (row_count a b)] = Inl past_end"
    using m each by (intro sum_map_Inl [of m]) auto
  with MemoryRangeDesignation show ?thesis by (simp add: extractFromRaw_def)
qed (use assms bigintFromRaw_total [of "desig_variable d" 0 1 data] in
  \<open>auto simp: extractFromRaw_def designation_size_def dataRange_def range_size_def stride_chunk_count split: if_splits\<close>)

section \<open>The layout invariant of a reference\<close>

fun layout_offsets :: "int \<Rightarrow> designation list \<Rightarrow> int list" where
  "layout_offsets k [] = []"
| "layout_offsets k (d # ds) = k # layout_offsets (k + range_size (dataRange d)) ds"

definition total_size :: "designation list \<Rightarrow> int" where
  "total_size ds = sum_list (map (\<lambda>d. range_size (dataRange d)) ds)"

definition wf_reference :: "unbound_reference \<Rightarrow> bool" where
  "wf_reference r \<longleftrightarrow>
     map handle_offset (handles r) = layout_offsets 0 (map handle_designation (handles r)) \<and>
     ref_offset r = total_size (map handle_designation (handles r)) \<and>
     list_all (\<lambda>h. handle_reference h = reference_id r) (handles r)"

fun add_all :: "designation list \<Rightarrow> unbound_reference \<Rightarrow> js_error + unbound_reference" where
  "add_all [] r = Inr r"
| "add_all (d # ds) r =
     (case add_designation d r of Inl e \<Rightarrow> Inl e | Inr (h, r') \<Rightarrow> add_all ds r')"

lemma layout_offsets_snoc:
  "layout_offsets k (ds @ [d]) = layout_offsets k ds @ [k + total_size ds]"
  by (induction ds arbitrary: k) (auto simp: total_size_def)

lemma wf_new_reference [simp]: "wf_reference (new_UnboundReference uid)"
  by (simp add: wf_reference_def new_UnboundReference_def total_size_def)

lemma new_reference_fields [simp]:
  "reference_id (new_UnboundReference uid) = uid" "\<not> frozen (new_UnboundReference uid)"
  "handles (new_UnboundReference uid) = []"
  by (simp_all add: new_UnboundReference_def)

lemma wf_add_designation [inv_rules]:
  "wf_reference r \<Longrightarrow> add_designation d r = Inr (h, r') \<Longrightarrow> wf_reference r'"
  by (auto simp: add_designation_def wf_reference_def layout_offsets_snoc total_size_def Let_def
      split: if_splits)

lemma wf_freeze [inv_rules, simp]: "wf_reference (freeze r) = wf_reference r"
  by (simp add: freeze_def wf_reference_def)

lemma add_all_result:
  "\<not> frozen r \<Longrightarrow> wf_reference r \<Longrightarrow>
     \<exists>r'. add_all ds r = Inr r' \<and> wf_reference r' \<and> \<not> frozen r' \<and> reference_id r' = reference_id r \<and>
       map handle_designation (handles r') = map handle_designation (handles r) @ ds"
proof (induction ds arbitrary: r)
  case Nil
  then show ?case by simp
next
  case (Cons d ds)
  obtain h r1 where r1: "add_designation d r = Inr (h, r1)"
    using Cons.prems by (simp add: add_designation_def Let_def)
  then have "\<not> frozen r1" "reference_id r1 = reference_id r"
      "map handle_designation (handles r1) = map handle_designation (handles r) @ [d]"
    using Cons.prems by (auto simp: add_designation_def Let_def)
  moreover have "wf_reference r1" using Cons.prems r1 by (blast intro: inv_rules)
  ultimately show ?case using Cons.IH [of r1] r1 by simp
qed

lemma layout_offsets_nth:
  "i < length ds \<Longrightarrow> layout_offsets k ds ! i = k + total_size (take i ds)"
proof (induction ds arbitrary: k i)
  case (Cons d ds)
  then show ?case by (cases i) (auto simp: total_size_def)
qed simp

lemma handle_offset_nth:
  assumes "wf_reference r" "i < length (handles r)"
  shows "handle_offset (handles r ! i) = total_size (take i (map handle_designation (handles r)))"
proof -
  have "handle_offset (handles r ! i) = map handle_offset (handles r) ! i" using assms(2) by simp
  also have "\<dots> = layout_offsets 0 (map handle_designation (handles r)) ! i"
    using assms(1) by (simp add: wf_reference_def)
  finally show ?thesis using assms(2) by (simp add: layout_offsets_nth)
qed

lemma range_size_nonneg: "narrow (desig_variable d) \<Longrightarrow> 0 \<le> range_size (dataRange d)"
  by (cases d) (simp_all add: range_size_def dataRange_def stride_chunk_count row_count_pos less_imp_le)

lemma total_size_nat:
  "list_all (\<lambda>d. narrow (desig_variable d)) ds \<Longrightarrow>
     total_size ds = int (sum_list (map designation_size ds))"
  by (induction ds) (simp_all add: total_size_def designation_size_def range_size_nonneg)

text \<open>Reading through the handles of a reference an array that holds values one after the other.\<close>

lemma reference_layout:
  assumes "wf_reference r" "list_all2 valid_value (map handle_designation (handles r)) vs" "i < length (handles r)"
  defines "data \<equiv> concat (map2 encode_designation (map handle_designation (handles r)) vs)"
  shows "sample_extract (Sample t (reference_id r) data) (handles r ! i) = Inr (vs ! i) \<and>
    handle_designation (handles r ! i) = map handle_designation (handles r) ! i \<and>
    ref_offset r = int (length data)"
proof -
  let ?ds = "map handle_designation (handles r)"
  have narrow: "list_all (\<lambda>d. narrow (desig_variable d)) ?ds"
    using assms(2) by (auto simp: list_all_length list_all2_conv_all_nth valid_value_def)
  have off: "handle_offset (handles r ! i) = int (sum_list (map designation_size (take i ?ds)))"
    using handle_offset_nth [OF assms(1,3)] assms(3) narrow
    by (simp add: total_size_nat list_all_length)
  have owner: "handle_reference (handles r ! i) = reference_id r"
    using assms(1,3) by (auto simp: wf_reference_def list_all_length)
  have "length data = sum_list (map designation_size ?ds)"
    unfolding data_def by (rule layout.length_concat [OF assms(2)])
  then have "ref_offset r = int (length data)"
    using assms(1) narrow by (simp add: wf_reference_def total_size_nat)
  then show ?thesis
    using layout.extract_at [OF assms(2), of i] off assms(3) owner
    by (simp add: data_def sample_extract_def handle_extract_def subarray_def)
qed

section \<open>Canonical keys\<close>

definition clean_name :: "designation \<Rightarrow> bool" where
  "clean_name d \<longleftrightarrow> wf_variable (desig_variable d) \<and>
     list_all (\<lambda>p. CHR 0x00 \<notin> set p) (fullName (desig_variable d))"

definition key_parts :: "designation \<Rightarrow> string list" where
  "key_parts d =
     join '' '' (fullName (desig_variable d)) #
     (case d of ScalarDesignation v \<Rightarrow> [] | MemoryRowDesignation v i \<Rightarrow> [int_str i]
      | MemoryRangeDesignation v a b \<Rightarrow> [int_str a, int_str b])"

lemma canonicalKey_parts: "canonicalKey d = join [CHR 0x00] (key_parts d)"
  by (cases d) (simp_all add: canonicalKey_def key_parts_def)

lemma key_parts_clean: "clean_name d \<Longrightarrow> p \<in> set (key_parts d) \<Longrightarrow> CHR 0x00 \<notin> set p"
proof -
  assume clean: "clean_name d" and p: "p \<in> set (key_parts d)"
  have "CHR 0x00 \<notin> set (int_str z)" for z
    using int_str_chars [of "CHR 0x00" z] by (auto simp: is_digit_def)
  moreover have "CHR 0x00 \<notin> set (join '' '' (fullName (desig_variable d)))"
    using clean set_join [of "'' ''" "fullName (desig_variable d)"]
    by (auto simp: clean_name_def list_all_iff)
  ultimately show ?thesis using p by (auto simp: key_parts_def split: designation.splits)
qed

lemma key_parts_inj:
  assumes "clean_name d" "clean_name e" "key_parts d = key_parts e"
  shows "fullName (desig_variable d) = fullName (desig_variable e) \<and>
    (case d of
       ScalarDesignation _ \<Rightarrow> e = ScalarDesignation (desig_variable e)
     | MemoryRowDesignation _ i \<Rightarrow> e = MemoryRowDesignation (desig_variable e) i
     | MemoryRangeDesignation _ a b \<Rightarrow> e = MemoryRangeDesignation (desig_variable e) a b)"
proof -
  have "cxxrtlIdentifier (desig_variable d) = cxxrtlIdentifier (desig_variable e)"
    using assms(3) by (simp add: key_parts_def cxxrtlIdentifier_def)
  then have "fullName (desig_variable d) = fullName (desig_variable e)"
    using assms(1,2) identifier_inj by (auto simp: clean_name_def)
  with assms(3) show ?thesis
    by (auto simp: key_parts_def dest: int_str_inj split: designation.splits)
qed

section \<open>Properties\<close>

text \<open>C2: every handle reads exactly the value of its own designation.  For any designations added to a
  fresh reference and any values that fit them, an array that holds the values one after the other,
  most significant chunk first, has the size the reference announces, and extracting through the
  i-th handle gives the i-th value: scalars, memory rows and (ascending or descending) row ranges.\<close>

theorem sample_extract_layout:
  assumes "add_all ds (new_UnboundReference uid) = Inr r"
    and "list_all2 valid_value ds vs" and "i < length ds"
  shows "sample_extract (Sample t uid (concat (map2 encode_designation ds vs))) (handles r ! i) = Inr (vs ! i)
    \<and> handle_designation (handles r ! i) = ds ! i
    \<and> ref_offset r = int (length (concat (map2 encode_designation ds vs)))"
proof -
  have r: "wf_reference r" "map handle_designation (handles r) = ds" "reference_id r = uid"
    using add_all_result [of "new_UnboundReference uid" ds] assms(1) by auto
  then show ?thesis using reference_layout [OF r(1), of vs i t] assms(2,3) by auto
qed

theorem sample_extract_layout_witness:
  "\<exists>r. add_all [ScalarDesignation (ScalarVariable [''a''] None 0 40),
        MemoryRangeDesignation (MemoryVariable [''m''] None 0 8 0 4) 1 0] (new_UnboundReference 7) = Inr r
     \<and> sample_extract (Sample ZERO 7 [1, 5, 11, 22]) (handles r ! 1) = Inr (Rows [11, 22])"
proof -
  let ?ds = "[ScalarDesignation (ScalarVariable [''a''] None 0 40),
        MemoryRangeDesignation (MemoryVariable [''m''] None 0 8 0 4) 1 0]"
  let ?vs = "[Bits (2 ^ 32 + 5), Rows [11, 22]]"
  obtain r where r: "add_all ?ds (new_UnboundReference 7) = Inr r"
    using add_all_result [of "new_UnboundReference 7" ?ds] by (auto simp del: add_all.simps)
  have "list_all2 valid_value ?ds ?vs"
    by (simp add: valid_value_def narrow_def chunk_count_def row_count_def)
  moreover have "concat (map2 encode_designation ?ds ?vs) = [1, 5, 11, 22]"
    by (simp add: encode_designation_def chunk_count_def encode_chunks_two)
  ultimately show ?thesis using sample_extract_layout [OF r, of ?vs 1 ZERO] r by simp
qed

text \<open>C17: reading is typed, whatever the chunks.  From any array of 32-bit words, a handle of the sample's
  reference reads either a value of its designation's type, whose encoding is exactly the chunks at
  the handle's offset (one bigint below the bound of the variable's chunks for a scalar or a row, as
  many of them as the range has rows for a range), or, if and only if the array is too short for the
  designation, fails with the type error of the missing chunk.  It never yields a value of another
  shape, and never drops or merges bits.\<close>

theorem sample_extract_typed:
  assumes "narrow (desig_variable d)" and "rest = subarray data offset"
  shows "case sample_extract (Sample t uid data) (Handle d uid offset) of
      Inr v \<Rightarrow> valid_value d v \<and> designation_size d \<le> length rest \<and> encode_designation d v = take (designation_size d) rest
    | Inl e \<Rightarrow> length rest < designation_size d \<and> e = TypeError ''Cannot convert undefined to a BigInt''"
proof (cases "designation_size d \<le> length rest")
  case True
  then obtain v where v: "valid_value d v" "encode_designation d v = take (designation_size d) rest"
    using designation_decodable [OF assms(1), of "take (designation_size d) rest"] by auto
  have "extractFromRaw d (encode_designation d v @ drop (designation_size d) rest) = Inr v"
    by (rule layout.extract_encode [OF v(1)])
  then have "extractFromRaw d rest = Inr v" by (simp add: v(2))
  with v True show ?thesis by (simp add: sample_extract_def handle_extract_def assms(2))
next
  case False
  then have "extractFromRaw d rest = Inl past_end" by (intro extract_short [OF assms(1)]) simp
  with False show ?thesis by (simp add: sample_extract_def handle_extract_def assms(2))
qed

theorem sample_extract_typed_witness:
  "valid_value (MemoryRowDesignation (MemoryVariable [''m''] None 0 40 0 4) 3) (Bits (2 ^ 32 + 5)) \<and>
   sample_extract (Sample ZERO 7 [9, 1, 5]) (Handle (MemoryRowDesignation (MemoryVariable [''m''] None 0 40 0 4) 3) 7 1) =
     Inr (Bits (2 ^ 32 + 5))"
proof -
  let ?d = "MemoryRowDesignation (MemoryVariable [''m''] None 0 40 0 4) 3"
  have "narrow (desig_variable ?d)" "[1, 5] = subarray [9, 1, 5] 1" by (simp_all add: narrow_def subarray_def)
  moreover have "sample_extract (Sample ZERO 7 [9, 1, 5]) (Handle ?d 7 1) = Inr (Bits (2 ^ 32 + 5))"
    by (simp add: subarray_def sample_extract_def handle_extract_def extractFromRaw_def dataRange_def
        bigintFromRaw_def new_DataRange_def to_int32_small chunks_value_two chunk_at_def)
  ultimately show ?thesis using sample_extract_typed [of ?d "[1, 5]" "[9, 1, 5]" 1 ZERO 7] by simp
qed

text \<open>A handle is tied to its reference: it reads no sample of another reference, and once the
  reference is bound to a name no further designation can be laid out in it.\<close>

theorem reference_discipline:
  "(sample_extract (Sample t uid data) h = Inl (ReferenceError ''Handle is not bound to the same reference as the sample'')
      \<or> handle_reference h = uid)
   \<and> add_designation d (ref_unbound (new_Reference name epoch r)) =
       Inl (GenericError ''Cannot add variables to a reference that has been bound to a name'')
   \<and> allHandles (ref_unbound (new_Reference name epoch r)) = allHandles r"
  by (simp add: sample_extract_def new_Reference_def add_designation_def freeze_def allHandles_def)

text \<open>C28: the key under which the observer files a designation is injective: equal keys mean the same
  kind of designation of the same variable path with the same row or range, and the same item
  designation on the wire.\<close>

theorem canonicalKey_injective:
  assumes "clean_name d" "clean_name e" "canonicalKey d = canonicalKey e"
  shows "cxxrtlItemDesignation d = cxxrtlItemDesignation e \<and>
    fullName (desig_variable d) = fullName (desig_variable e) \<and>
    (case d of
       ScalarDesignation _ \<Rightarrow> e = ScalarDesignation (desig_variable e)
     | MemoryRowDesignation _ i \<Rightarrow> e = MemoryRowDesignation (desig_variable e) i
     | MemoryRangeDesignation _ a b \<Rightarrow> e = MemoryRangeDesignation (desig_variable e) a b)"
proof -
  have "key_parts d = key_parts e"
    using assms(3) key_parts_clean [OF assms(1)] key_parts_clean [OF assms(2)]
    by (intro join_inj [of "CHR 0x00"]) (auto simp: canonicalKey_parts, auto simp: key_parts_def)
  from key_parts_inj [OF assms(1,2) this] show ?thesis
    by (cases d; cases e) (auto simp: cxxrtlItemDesignation_def cxxrtlIdentifier_def)
qed

theorem canonicalKey_injective_witness:
  "canonicalKey (MemoryRowDesignation (MemoryVariable [''m''] None 0 8 0 4) 1) \<noteq>
   canonicalKey (MemoryRangeDesignation (MemoryVariable [''m''] None 0 8 0 4) 1 1)"
  using canonicalKey_injective [of "MemoryRowDesignation (MemoryVariable [''m''] None 0 8 0 4) 1"
      "MemoryRangeDesignation (MemoryVariable [''m''] None 0 8 0 4) 1 1"]
  by (auto simp: clean_name_def wf_variable_def)

text \<open>The designation of a whole memory counts its rows correctly except for an empty memory, where
  the range from 0 to -1 is taken for a descending one of two rows.\<close>

theorem whole_memory_count:
  "range_count (dataRange (designation_of_memory (MemoryVariable p l a w z dp) None None)) =
     (if dp = 0 then 2 else int dp)"
  by (simp add: designation_of_memory_def dataRange_def row_count_def)

text \<open>The bounds check of the chunk reader lets the offset equal to the row count through: on an
  array of exactly the announced size the read then runs off its end and fails with a type error,
  and only larger offsets are reported as out of range.\<close>

theorem bigintFromRaw_bounds:
  assumes "narrow v" "0 < width v" "int (length data) = int (chunk_count v) * c"
  shows "bigintFromRaw (new_DataRange v c) data c = Inl (TypeError ''Cannot convert undefined to a BigInt'')
    \<and> bigintFromRaw (new_DataRange v c) data (c + 1) = Inl (RangeError ''Offset out of bounds'')"
proof -
  obtain n where n: "chunk_count v = Suc n"
    using assms(2) by (cases "chunk_count v") (auto simp: chunk_count_def div_eq_0_iff)
  have "chunk_at data (int (length data)) = Inl (TypeError ''Cannot convert undefined to a BigInt'')"
    by (simp add: chunk_at_def)
  then have "chunks_value data (int (length data)) (Suc n) 0 =
      Inl (TypeError ''Cannot convert undefined to a BigInt'')" by simp
  then have "chunks_value data (int (chunk_count v) * c) (chunk_count v) 0 =
      Inl (TypeError ''Cannot convert undefined to a BigInt'')"
    by (simp only: assms(3) n)
  with assms(1) show ?thesis by (simp add: bigintFromRaw_def stride_chunk_count)
qed

theorem bigintFromRaw_bounds_witness:
  "bigintFromRaw (new_DataRange (ScalarVariable [''a''] None 0 8) 1) [3] 1 =
     Inl (TypeError ''Cannot convert undefined to a BigInt'')"
  using bigintFromRaw_bounds [of "ScalarVariable [''a''] None 0 8" "[3]" 1]
  by (simp add: narrow_def chunk_count_def)

end
