(* ===== verification/Base64.thy ===== *)
theory Base64
  imports Prelude "HOL-Library.Word"
begin

text \<open>
  The decoding the session applies to a sample: \<open>Buffer.from(text, 'base64')\<close> and the view of the
  bytes as little-endian 32-bit words.  Characters outside the base64 alphabet (the padding among
  them) are skipped; a trailing group of fewer than eight bits gives no byte, and trailing bytes that
  do not fill a word give no word.  The encoder the server uses, without padding, is the
  specification the decoder is proved against.
\<close>

section \<open>Bits\<close>

text \<open>Bits are listed most significant first.\<close>

fun bits_of :: "nat \<Rightarrow> nat \<Rightarrow> bool list" where
  "bits_of 0 n = []"
| "bits_of (Suc k) n = bits_of k (n div 2) @ [odd n]"

definition nat_of_bits :: "bool list \<Rightarrow> nat" where
  "nat_of_bits bs = foldl (\<lambda>a b. 2 * a + of_bool b) 0 bs"

fun groups_of :: "nat \<Rightarrow> 'a list \<Rightarrow> 'a list list" where
  "groups_of k xs =
     (if k = 0 \<or> length xs < k then [] else take k xs # groups_of k (drop k xs))"

declare groups_of.simps [simp del]

lemma length_bits_of [simp]: "length (bits_of k n) = k"
  by (induction k arbitrary: n) auto

lemma nat_of_bits_bits_of: "nat_of_bits (bits_of k n) = n mod 2 ^ k"
proof (induction k arbitrary: n)
  case 0
  then show ?case by (simp add: nat_of_bits_def)
next
  case (Suc k)
  have "nat_of_bits (bits_of (Suc k) n) = 2 * (n div 2 mod 2 ^ k) + n mod 2"
    using Suc [of "n div 2"] by (simp add: nat_of_bits_def of_bool_odd_eq_mod_2)
  also have "\<dots> = n mod (2 * 2 ^ k)" by (simp add: mod_mult2_eq)
  finally show ?case by simp
qed

lemma groups_of_short [simp]: "length xs < k \<Longrightarrow> groups_of k xs = []"
  by (subst groups_of.simps) simp

lemma groups_of_append: "0 < k \<Longrightarrow> length g = k \<Longrightarrow> groups_of k (g @ xs) = g # groups_of k xs"
  by (subst groups_of.simps) simp

lemma groups_of_concat:
  "0 < k \<Longrightarrow> (\<And>g. g \<in> set gs \<Longrightarrow> length g = k) \<Longrightarrow> length rest < k \<Longrightarrow> groups_of k (concat gs @ rest) = gs"
  by (induction gs) (auto simp: groups_of_append)

lemma concat_groups_of:
  "0 < k \<Longrightarrow> k dvd length xs \<Longrightarrow> concat (groups_of k xs) = xs \<and> (\<forall>g \<in> set (groups_of k xs). length g = k)"
proof (induction k xs rule: groups_of.induct)
  case (1 k xs)
  show ?case
  proof (cases "length xs < k")
    case True
    with "1.prems" have "xs = []" using dvd_imp_le [of k "length xs"] by (cases xs) simp_all
    with "1.prems"(1) show ?thesis by simp
  next
    case False
    have "k dvd length (drop k xs)" using "1.prems"(2) by (simp add: dvd_diff_nat)
    with "1.IH" "1.prems"(1) False
    have ih: "concat (groups_of k (drop k xs)) = drop k xs \<and> (\<forall>g \<in> set (groups_of k (drop k xs)). length g = k)"
      by blast
    have step: "groups_of k xs = take k xs # groups_of k (drop k xs)"
      using False "1.prems"(1) by (subst groups_of.simps) simp
    show ?thesis
    proof (intro conjI ballI)
      show "concat (groups_of k xs) = xs"
        by (subst step) (simp only: concat.simps conjunct1 [OF ih] append_take_drop_id)
    next
      fix g
      assume "g \<in> set (groups_of k xs)"
      then have "g = take k xs \<or> g \<in> set (groups_of k (drop k xs))"
        unfolding step list.set by blast
      moreover have "length (take k xs) = k" using False by simp
      ultimately show "length g = k" using conjunct2 [OF ih] by blast
    qed
  qed
qed

lemma bits_of_nat_of_bits: "bits_of (length bs) (nat_of_bits bs) = bs"
  by (induction bs rule: rev_induct) (auto simp: nat_of_bits_def)

lemma nat_of_bits_bound: "nat_of_bits bs < 2 ^ length bs"
  by (induction bs rule: rev_induct) (auto simp: nat_of_bits_def)

section \<open>The alphabet\<close>

text \<open>The decoder also accepts the URL-safe variants of the last two characters.\<close>

definition base64_val :: "char \<Rightarrow> nat option" where
  "base64_val c =
     (let n = (of_char c :: nat) in
      if 65 \<le> n \<and> n \<le> 90 then Some (n - 65)
      else if 97 \<le> n \<and> n \<le> 122 then Some (n - 71)
      else if 48 \<le> n \<and> n \<le> 57 then Some (n + 4)
      else if n = 43 \<or> n = 45 then Some 62
      else if n = 47 \<or> n = 95 then Some 63
      else None)"

definition base64_char :: "nat \<Rightarrow> char" where
  "base64_char d =
     char_of (if d < 26 then d + 65 else if d < 52 then d + 71 else if d < 62 then d - 4
              else if d = 62 then 43 else 47)"

lemma base64_val_char: "d < 64 \<Longrightarrow> base64_val (base64_char d) = Some d"
  by (auto simp: base64_val_def base64_char_def Let_def)

section \<open>Decoding\<close>

definition base64_bytes :: "string \<Rightarrow> nat list" where
  "base64_bytes s = map nat_of_bits (groups_of 8 (concat (map (bits_of 6) (List.map_filter base64_val s))))"

definition words_of_bytes :: "nat list \<Rightarrow> 32 word list" where
  "words_of_bytes bs = map (\<lambda>g. word_of_nat (foldr (\<lambda>b a. b + 256 * a) g 0)) (groups_of 4 bs)"

definition decode_item_values :: "string \<Rightarrow> 32 word list" where
  "decode_item_values s = words_of_bytes (base64_bytes s)"

section \<open>The server's encoding\<close>

definition base64_of_bytes :: "nat list \<Rightarrow> string" where
  "base64_of_bytes bs =
     (let bits = concat (map (bits_of 8) bs);
          padded = bits @ replicate ((6 - length bits mod 6) mod 6) False
      in map (\<lambda>g. base64_char (nat_of_bits g)) (groups_of 6 padded))"

fun bytes_of_word :: "nat \<Rightarrow> nat \<Rightarrow> nat list" where
  "bytes_of_word 0 n = []"
| "bytes_of_word (Suc k) n = n mod 256 # bytes_of_word k (n div 256)"

definition encode_item_values :: "32 word list \<Rightarrow> string" where
  "encode_item_values ws = base64_of_bytes (concat (map (\<lambda>w. bytes_of_word 4 (unat w)) ws))"

lemma map_filter_Some: "(\<And>x. x \<in> set xs \<Longrightarrow> f (g x) = Some (h x)) \<Longrightarrow> List.map_filter f (map g xs) = map h xs"
  by (induction xs) (auto simp: List.map_filter_simps)

definition pad6 :: "nat \<Rightarrow> nat" where
  "pad6 n = (6 - n mod 6) mod 6"

lemma pad6_less: "pad6 n < 8"
  using mod_less_divisor [of 6 "6 - n mod 6"] unfolding pad6_def by simp

lemma pad_to_six: "6 dvd n + pad6 n"
proof (cases "n mod 6 = 0")
  case True
  then have "pad6 n = 0" by (simp add: pad6_def)
  with True show ?thesis by (simp add: mod_eq_0_iff_dvd)
next
  case False
  moreover define r where "r = n mod 6"
  ultimately have "0 < r" "r < 6" by simp_all
  then have "pad6 n = 6 - r" by (simp add: pad6_def r_def)
  moreover have "n = n div 6 * 6 + r" unfolding r_def by (rule div_mult_mod_eq [symmetric])
  ultimately have "n + pad6 n = (n div 6 + 1) * 6" using \<open>r < 6\<close> by simp
  then show ?thesis by (metis dvd_triv_right)
qed

lemma base64_bytes_of_bytes:
  assumes "list_all (\<lambda>b. b < 256) bs"
  shows "base64_bytes (base64_of_bytes bs) = bs"
proof -
  let ?bits = "concat (map (bits_of 8) bs)"
  let ?pad = "replicate (pad6 (length ?bits)) False"
  have "6 dvd length (?bits @ ?pad)"
    unfolding length_append length_replicate by (rule pad_to_six)
  note whole = concat_groups_of [OF zero_less_numeral this]
  have g: "concat (groups_of 6 (?bits @ ?pad)) = ?bits @ ?pad"
    by (rule conjunct1 [OF whole])
  have len: "\<And>g. g \<in> set (groups_of 6 (?bits @ ?pad)) \<Longrightarrow> length g = 6"
    using conjunct2 [OF whole] by blast
  have "List.map_filter base64_val (base64_of_bytes bs) = map nat_of_bits (groups_of 6 (?bits @ ?pad))"
    unfolding base64_of_bytes_def Let_def pad6_def
  proof (rule map_filter_Some)
    fix g
    assume "g \<in> set (groups_of 6 (?bits @ replicate ((6 - length ?bits mod 6) mod 6) False))"
    then have "length g = 6" by (intro len) (simp only: pad6_def)
    then show "base64_val (base64_char (nat_of_bits g)) = Some (nat_of_bits g)"
      using nat_of_bits_bound [of g] by (simp add: base64_val_char)
  qed
  moreover have "map (bits_of 6) (map nat_of_bits (groups_of 6 (?bits @ ?pad))) = groups_of 6 (?bits @ ?pad)"
    unfolding map_map using len bits_of_nat_of_bits by (intro map_idI) (metis comp_apply)
  ultimately have "base64_bytes (base64_of_bytes bs) = map nat_of_bits (groups_of 8 (?bits @ ?pad))"
    unfolding base64_bytes_def by (simp only: g)
  also have "groups_of 8 (?bits @ ?pad) = map (bits_of 8) bs"
    by (rule groups_of_concat) (auto simp: pad6_less)
  also have "map nat_of_bits (map (bits_of 8) bs) = bs"
    unfolding map_map using assms by (intro map_idI) (simp add: nat_of_bits_bits_of list_all_iff)
  finally show ?thesis .
qed

lemma length_bytes_of_word [simp]: "length (bytes_of_word k n) = k"
  by (induction k arbitrary: n) auto

lemma bytes_of_word_bound: "list_all (\<lambda>b. b < 256) (bytes_of_word k n)"
  by (induction k arbitrary: n) auto

lemma foldr_bytes_of_word: "foldr (\<lambda>b a. b + 256 * a) (bytes_of_word k n) 0 = n mod 256 ^ k"
  by (induction k arbitrary: n) (auto simp: mod_mult2_eq)

lemma words_of_bytes_of_words: "words_of_bytes (concat (map (\<lambda>w. bytes_of_word 4 (unat w)) ws)) = ws"
proof -
  have "groups_of 4 (concat (map (\<lambda>w :: 32 word. bytes_of_word 4 (unat w)) ws) @ []) =
      map (\<lambda>w. bytes_of_word 4 (unat w)) ws"
    by (rule groups_of_concat) auto
  moreover have "unat w mod 256 ^ 4 = unat w" for w :: "32 word"
    using unsigned_less [of w, where ?'a = nat] by simp
  ultimately show ?thesis by (simp add: words_of_bytes_def comp_def foldr_bytes_of_word)
qed

text \<open>The values of a sample survive their encoding.\<close>

lemma decode_encode_item_values: "decode_item_values (encode_item_values ws) = ws"
proof -
  have "list_all (\<lambda>b. b < 256) (concat (map (\<lambda>w :: 32 word. bytes_of_word 4 (unat w)) ws))"
    using bytes_of_word_bound by (fastforce simp: list_all_iff)
  then show ?thesis
    by (simp add: decode_item_values_def encode_item_values_def base64_bytes_of_bytes words_of_bytes_of_words)
qed

interpretation item_values_wire: wire_codec encode_item_values "\<lambda>s. Inr (decode_item_values s)" "\<lambda>_. True"
  by unfold_locales (simp add: decode_encode_item_values)

end
