(* ===== verification/Session.thy ===== *)
theory Session
  imports Async Samples Base64
begin

text \<open>
  \<open>src/src/debug/session.ts\<close>: the debug session.  It caches what it has learnt of the design,
  binds references to names and reads their samples, controls the simulation, polls its status while
  it is running, and keeps the time cursor.

  \<open>session\<close> has the fields of the class; \<open>sent\<close> logs the commands given to the
  connection, \<open>fired\<close> the calls of the two event emitters, and \<open>timers\<close> are the armed
  timers of \<open>setTimeout\<close>.  The asynchronous methods are resumptions over this state.
\<close>

section \<open>State\<close>

datatype simulation_status =
  SimulationStatus (status: sim_status) (latestTime: time_point) (nextSampleTime: "time_point option")

datatype session_event = DidChangeSimulationStatus simulation_status | DidChangeTimeCursor time_point

record session =
  itemCache :: "string \<rightharpoonup> item_description_map"
  scopeCache :: "string \<rightharpoonup> scope_description_map"
  rootScopeDesc :: "scope_description option"
  referenceEpochs :: "string \<rightharpoonup> nat"
  simulationStatusTimeout :: "nat option"
  simulationStatus :: simulation_status
  timeCursor :: time_point
  forwardTimeStep :: int
  timers :: "nat list"
  next_timer :: nat
  sent :: "any_command list"
  fired :: "session_event list"
  seen :: "(time_point \<times> simulation_status) list"

text \<open>A call of an event emitter runs its listeners at once: \<open>seen\<close> logs what they can read of the session.\<close>

definition emit :: "session_event \<Rightarrow> session \<Rightarrow> session" where
  "emit ev s = s\<lparr>fired := fired s @ [ev], seen := seen s @ [(timeCursor s, simulationStatus s)]\<rparr>"

declare emit_def [simp]

definition post :: "any_command \<Rightarrow> session \<Rightarrow> session" where
  "post c s = s\<lparr>sent := sent s @ [c]\<rparr>"

definition request :: "any_command \<Rightarrow> (session, any_response) async" where
  "request c s = (post c s, Await c (\<lambda>r s. (s, Done r)))"

definition update :: "(session \<Rightarrow> session) \<Rightarrow> (session, unit) async" where
  "update f s = (f s, Done (Inr ()))"

definition missing :: "js_error + 'a" where
  "missing = Inl (TypeError ''undefined'')"

section \<open>Inspecting the design\<close>

definition response_items :: "any_response \<Rightarrow> js_error + item_description_map" where
  "response_items r = (case r of ResListItems x \<Rightarrow> Inr (li_items x) | _ \<Rightarrow> missing)"

definition response_scopes :: "any_response \<Rightarrow> js_error + scope_description_map" where
  "response_scopes r = (case r of ResListScopes x \<Rightarrow> Inr (ls_scopes x) | _ \<Rightarrow> missing)"

definition list_items_command :: "string \<Rightarrow> any_command" where
  "list_items_command i = CmdListItems (CommandListItems (Some i))"

definition list_scopes_command :: "string \<Rightarrow> any_command" where
  "list_scopes_command i = CmdListScopes (CommandListScopes (Some i))"

definition listItemsInScope :: "string \<Rightarrow> (session, item_description_map) async" where
  "listItemsInScope scopeIdentifier s =
     (case itemCache s scopeIdentifier of
        Some m \<Rightarrow> return m s
      | None \<Rightarrow>
          await (request (list_items_command scopeIdentifier)) (\<lambda>response s.
            case response_items response of
              Inl e \<Rightarrow> throw e s
            | Inr m \<Rightarrow> (s\<lparr>itemCache := (itemCache s)(scopeIdentifier \<mapsto> m)\<rparr>, Done (Inr m))) s)"

text \<open>The filter of \<open>listScopesInScope\<close>: the scopes directly inside the given one.\<close>

definition is_child_scope :: "string \<Rightarrow> string \<Rightarrow> bool" where
  "is_child_scope scopeIdentifier scopeName =
     (if scopeIdentifier = '''' then 0 < length scopeName \<and> indexOf scopeName CHR '' '' = -1
      else startsWith scopeName (scopeIdentifier @ '' '') \<and>
           indexOf (drop (length scopeIdentifier + 1) scopeName) CHR '' '' = -1)"

definition child_scopes :: "string \<Rightarrow> scope_description_map \<Rightarrow> scope_description_map" where
  "child_scopes scopeIdentifier scopes = filter (\<lambda>(scopeName, _). is_child_scope scopeIdentifier scopeName) scopes"

definition listScopesInScope :: "string \<Rightarrow> (session, scope_description_map) async" where
  "listScopesInScope scopeIdentifier s =
     (case scopeCache s scopeIdentifier of
        Some m \<Rightarrow> return m s
      | None \<Rightarrow>
          await (request (list_scopes_command scopeIdentifier)) (\<lambda>response s.
            case response_scopes response of
              Inl e \<Rightarrow> throw e s
            | Inr scopes \<Rightarrow>
                (let m = child_scopes scopeIdentifier scopes
                 in (s\<lparr>scopeCache := (scopeCache s)(scopeIdentifier \<mapsto> m)\<rparr>, Done (Inr m)))) s)"

definition variables_of :: "item_description_map \<Rightarrow> js_error + variable list" where
  "variables_of items = sum_map (\<lambda>(itemName, itemDesc). variable_fromCXXRTL itemName (Some itemDesc)) items"

definition getVariablesIn :: "string \<Rightarrow> (session, variable list) async" where
  "getVariablesIn scopeIdentifier =
     await (listItemsInScope scopeIdentifier) (\<lambda>items. of_result (variables_of items))"

definition scopes_of :: "scope_description_map \<Rightarrow> js_error + scope list" where
  "scopes_of scopes =
     sum_map (\<lambda>(scopeName, scopeDesc). scope_fromCXXRTL scopeName (Some scopeDesc) scopeName scopeName) scopes"

definition getScopesIn :: "string \<Rightarrow> (session, scope list) async" where
  "getScopesIn scopeIdentifier =
     await (listScopesInScope scopeIdentifier) (\<lambda>scopes. of_result (scopes_of scopes))"

text \<open>The two lazy fields of a scope are the calls of the session made when they are awaited.\<close>

definition scope_scopes :: "scope \<Rightarrow> (session, scope list) async" where
  "scope_scopes sc = getScopesIn (nested_scopes sc)"

definition scope_variables :: "scope \<Rightarrow> (session, variable list) async" where
  "scope_variables sc = getVariablesIn (nested_variables sc)"

definition root_scope :: "(session, scope) async" where
  "root_scope s = of_result (scope_fromCXXRTL '''' (rootScopeDesc s) '''' '''') s"

definition getRootScope :: "(session, scope) async" where
  "getRootScope s =
     (case rootScopeDesc s of
        Some d \<Rightarrow> root_scope s
      | None \<Rightarrow>
          await (request (list_scopes_command '''')) (\<lambda>response s.
            case response_scopes response of
              Inl e \<Rightarrow> throw e s
            | Inr scopes \<Rightarrow> root_scope (s\<lparr>rootScopeDesc := map_of scopes ''''\<rparr>)) s)"

text \<open>
  \<open>in\<close> also finds the properties every object inherits; their values are not descriptions, which
  is what \<open>None\<close> stands for in \<open>Variable.fromCXXRTL\<close>.
\<close>

definition object_prototype_keys :: "string list" where
  "object_prototype_keys =
     [''constructor'', ''__defineGetter__'', ''__defineSetter__'', ''hasOwnProperty'',
      ''__lookupGetter__'', ''__lookupSetter__'', ''isPrototypeOf'', ''propertyIsEnumerable'',
      ''toString'', ''valueOf'', ''__proto__'', ''toLocaleString'']"

definition scope_of_identifier :: "string \<Rightarrow> string" where
  "scope_of_identifier variableIdentifier = join '' '' (butlast (split_on CHR '' '' variableIdentifier))"

definition find_variable :: "string \<Rightarrow> item_description_map \<Rightarrow> js_error + variable option" where
  "find_variable variableIdentifier items =
     (if variableIdentifier \<in> set (map fst items) \<or> variableIdentifier \<in> set object_prototype_keys
      then map_sum id Some (variable_fromCXXRTL variableIdentifier (map_of items variableIdentifier))
      else Inr None)"

definition getVariable :: "string \<Rightarrow> (session, variable option) async" where
  "getVariable variableIdentifier =
     await (listItemsInScope (scope_of_identifier variableIdentifier))
       (\<lambda>items. of_result (find_variable variableIdentifier items))"

section \<open>Querying the database\<close>

definition advanceReferenceEpoch :: "string \<Rightarrow> session \<Rightarrow> nat \<times> session" where
  "advanceReferenceEpoch name s =
     (let epoch = (case referenceEpochs s name of Some e \<Rightarrow> e | None \<Rightarrow> 0) + 1
      in (epoch, s\<lparr>referenceEpochs := (referenceEpochs s)(name \<mapsto> epoch)\<rparr>))"

definition checkReferenceEpoch :: "string \<Rightarrow> nat \<Rightarrow> session \<Rightarrow> js_error + unit" where
  "checkReferenceEpoch name requestedEpoch s =
     (case referenceEpochs s name of
        None \<Rightarrow> Inl (ReferenceError ''Querying dangling reference'')
      | Some currentEpoch \<Rightarrow>
          if currentEpoch \<noteq> requestedEpoch then Inl (ReferenceError ''Querying out-of-date reference'')
          else Inr ())"

text \<open>The command is issued, and its reply is not waited for.\<close>

definition reference_items_command :: "string \<Rightarrow> unbound_reference \<Rightarrow> any_command" where
  "reference_items_command name u =
     CmdReferenceItems (CommandReferenceItems name (Some (cxxrtlItemDesignations u)))"

definition bindReference :: "string \<Rightarrow> unbound_reference \<Rightarrow> session \<Rightarrow> reference \<times> session" where
  "bindReference name u s =
     (let (epoch, s) = advanceReferenceEpoch name s
      in (new_Reference name epoch u, post (reference_items_command name u) s))"

definition query_interval_command :: "time_interval \<Rightarrow> bool \<Rightarrow> reference \<Rightarrow> any_command" where
  "query_interval_command i collapse ref =
     CmdQueryInterval
       (CommandQueryInterval (interval_toCXXRTL i) collapse (Some (ref_name ref)) (Some ''base64(u32)'') False)"

definition response_samples :: "any_response \<Rightarrow> js_error + proto_sample list" where
  "response_samples r = (case r of ResQueryInterval x \<Rightarrow> Inr (qi_samples x) | _ \<Rightarrow> missing)"

definition decode_sample :: "reference \<Rightarrow> proto_sample \<Rightarrow> js_error + sample" where
  "decode_sample ref p =
     (case ps_item_values p of
        None \<Rightarrow> missing
      | Some values \<Rightarrow>
          (case fromCXXRTL (ps_time p) of
             Inl e \<Rightarrow> Inl e
           | Inr t \<Rightarrow> Inr (Sample t (reference_id (ref_unbound ref)) (decode_item_values values))))"

text \<open>\<open>collapse\<close> is true unless the caller says otherwise.\<close>

definition queryInterval :: "time_interval \<Rightarrow> reference \<Rightarrow> bool option \<Rightarrow> (session, sample list) async" where
  "queryInterval i ref collapse s =
     (case checkReferenceEpoch (ref_name ref) (ref_epoch ref) s of
        Inl e \<Rightarrow> throw e s
      | Inr _ \<Rightarrow>
          await (request (query_interval_command i (case collapse of Some b \<Rightarrow> b | None \<Rightarrow> True) ref)) (\<lambda>response.
            of_result (case response_samples response of
                Inl e \<Rightarrow> Inl e
              | Inr samples \<Rightarrow> sum_map (decode_sample ref) samples)) s)"

section \<open>Manipulating the simulation\<close>

definition clear_timeout :: "session \<Rightarrow> session" where
  "clear_timeout s =
     (case simulationStatusTimeout s of
        None \<Rightarrow> s
      | Some t \<Rightarrow> s\<lparr>timers := removeAll t (timers s), simulationStatusTimeout := None\<rparr>)"

definition set_timeout :: "session \<Rightarrow> session" where
  "set_timeout s =
     s\<lparr>timers := timers s @ [next_timer s], simulationStatusTimeout := Some (next_timer s),
       next_timer := Suc (next_timer s)\<rparr>"

definition decode_status :: "any_response \<Rightarrow> js_error + simulation_status" where
  "decode_status r =
     (case r of
        ResGetSimulationStatus (StatusPaused latest nxt) \<Rightarrow>
          (case fromCXXRTL latest of
             Inl e \<Rightarrow> Inl e
           | Inr t \<Rightarrow> (case fromCXXRTL nxt of Inl e \<Rightarrow> Inl e | Inr n \<Rightarrow> Inr (SimulationStatus Paused t (Some n))))
      | ResGetSimulationStatus (StatusRunning latest) \<Rightarrow>
          (case fromCXXRTL latest of Inl e \<Rightarrow> Inl e | Inr t \<Rightarrow> Inr (SimulationStatus Running t None))
      | ResGetSimulationStatus (StatusFinished latest) \<Rightarrow>
          (case fromCXXRTL latest of Inl e \<Rightarrow> Inl e | Inr t \<Rightarrow> Inr (SimulationStatus Finished t None))
      | _ \<Rightarrow> missing)"

definition status_changed :: "simulation_status \<Rightarrow> simulation_status \<Rightarrow> bool" where
  "status_changed old new \<longleftrightarrow>
     status old \<noteq> status new \<or> \<not> equals (latestTime old) (latestTime new) \<or>
     (nextSampleTime old = None \<and> nextSampleTime new \<noteq> None)"

definition note_status :: "simulation_status \<Rightarrow> session \<Rightarrow> session" where
  "note_status new s =
     (if status_changed (simulationStatus s) new
      then emit (DidChangeSimulationStatus new) (s\<lparr>simulationStatus := new\<rparr>)
      else s)"

definition status_reply :: "any_response \<Rightarrow> (session, unit) async" where
  "status_reply response s =
     (case decode_status response of
        Inl e \<Rightarrow> throw e s
      | Inr new \<Rightarrow>
          (let s = note_status new s; s = (if status new = Running then set_timeout s else s)
           in (s, Done (Inr ()))))"

definition get_status_command :: any_command where
  "get_status_command = CmdGetSimulationStatus CommandGetSimulationStatus"

definition querySimulationStatus :: "(session, unit) async" where
  "querySimulationStatus s = await (request get_status_command) status_reply (clear_timeout s)"

text \<open>The callback of the timer, and the handler of the connection's events.\<close>

definition fire_timer :: "nat \<Rightarrow> (session, unit) async" where
  "fire_timer t s = querySimulationStatus (s\<lparr>timers := removeAll t (timers s)\<rparr>)"

definition onEvent :: "any_event \<Rightarrow> (session, unit) async" where
  "onEvent ev =
     (case ev of
        EvSimulationPaused _ \<Rightarrow> await querySimulationStatus (\<lambda>_. return ())
      | EvSimulationFinished _ \<Rightarrow> await querySimulationStatus (\<lambda>_. return ()))"

definition run_command :: "time_point option \<Rightarrow> any_command" where
  "run_command untilTime = CmdRunSimulation (CommandRunSimulation (map_option toCXXRTL untilTime) [] True)"

definition runSimulation :: "time_point option \<Rightarrow> (session, unit) async" where
  "runSimulation untilTime = await (request (run_command untilTime)) (\<lambda>_. await querySimulationStatus (\<lambda>_. return ()))"

definition pauseSimulation :: "(session, unit) async" where
  "pauseSimulation =
     await (request (CmdPauseSimulation CommandPauseSimulation)) (\<lambda>_. await querySimulationStatus (\<lambda>_. return ()))"

definition isSimulationRunning :: "session \<Rightarrow> bool" where
  "isSimulationRunning s \<longleftrightarrow> status (simulationStatus s) = Running"

section \<open>Manipulating the time cursor\<close>

definition set_timeCursor :: "time_point \<Rightarrow> session \<Rightarrow> js_error + session" where
  "set_timeCursor t s =
     (if lessThan t ZERO \<or> greaterThan t (latestTime (simulationStatus s))
      then Inl (RangeError ''Time cursor out of range'')
      else Inr (emit (DidChangeTimeCursor t) (s\<lparr>timeCursor := t\<rparr>)))"

definition move_cursor :: "time_point \<Rightarrow> (session, unit) async" where
  "move_cursor t s = (case set_timeCursor t s of Inl e \<Rightarrow> throw e s | Inr s' \<Rightarrow> (s', Done (Inr ())))"

definition probe_command :: "time_point \<Rightarrow> time_point \<Rightarrow> any_command" where
  "probe_command b e =
     CmdQueryInterval (CommandQueryInterval (interval_toCXXRTL (TimeInterval b e)) True None None False)"

text \<open>\<open>response.samples.at(n)!.time\<close>\<close>

definition sample_time_at :: "nat \<Rightarrow> proto_sample list \<Rightarrow> js_error + time_point" where
  "sample_time_at n samples = (if n < length samples then fromCXXRTL (ps_time (samples ! n)) else missing)"

definition read_cursor :: "(session, time_point) async" where
  "read_cursor s = return (timeCursor s) s"

text \<open>
  One round of the search, and the search itself: \<open>fuel\<close> bounds its rounds, and the result
  \<open>None\<close> says that it has used them up.
\<close>

primrec search_forward :: "nat \<Rightarrow> (session, time_point option) async" where
  "search_forward 0 = return None"
| "search_forward (Suc fuel) = (\<lambda>s.
     await (request (probe_command (timeCursor s) (offsetByFemtos (timeCursor s) (forwardTimeStep s)))) (\<lambda>response s.
       case response_samples response of
         Inl e \<Rightarrow> throw e s
       | Inr samples \<Rightarrow>
           if length samples = 1
           then search_forward fuel (s\<lparr>forwardTimeStep := forwardTimeStep s * 2\<rparr>)
           else (case sample_time_at 1 samples of
                   Inl e \<Rightarrow> throw e s
                 | Inr t \<Rightarrow>
                     (case set_timeCursor t s of
                        Inl e \<Rightarrow> throw e s
                      | Inr s' \<Rightarrow> return (Some (timeCursor s')) s'))) s)"

definition advance_simulation :: "time_point option \<Rightarrow> (session, time_point option) async" where
  "advance_simulation nxt =
     await (runSimulation nxt) (\<lambda>_. await querySimulationStatus (\<lambda>_ s.
       case nxt of
         None \<Rightarrow> throw (TypeError ''undefined'') s
       | Some n \<Rightarrow>
           if \<not> greaterThan n (latestTime (simulationStatus s))
           then (case set_timeCursor n s of
                   Inl e \<Rightarrow> throw e s
                 | Inr s' \<Rightarrow> return (Some (timeCursor s')) s')
           else return (Some (timeCursor s)) s))"

definition stepForward :: "nat \<Rightarrow> (session, time_point option) async" where
  "stepForward fuel s =
     (if equals (timeCursor s) (latestTime (simulationStatus s))
      then if status (simulationStatus s) = Paused
           then advance_simulation (nextSampleTime (simulationStatus s)) s
           else return (Some (timeCursor s)) s
      else search_forward fuel s)"

definition stepBackward :: "(session, time_point) async" where
  "stepBackward s =
     (if \<not> equals (timeCursor s) ZERO
      then let precedingTimePoint = offsetByFemtos (timeCursor s) (-1)
           in await (request (probe_command precedingTimePoint precedingTimePoint)) (\<lambda>response s.
                case response_samples response of
                  Inl e \<Rightarrow> throw e s
                | Inr samples \<Rightarrow>
                    (case sample_time_at 0 samples of
                       Inl e \<Rightarrow> throw e s
                     | Inr t \<Rightarrow>
                         (case set_timeCursor t s of Inl e \<Rightarrow> throw e s | Inr s' \<Rightarrow> read_cursor s'))) s
      else read_cursor s)"

section \<open>Construction\<close>

definition blank_session :: session where
  "blank_session =
     \<lparr>itemCache = (\<lambda>_. None), scopeCache = (\<lambda>_. None), rootScopeDesc = None, referenceEpochs = (\<lambda>_. None),
      simulationStatusTimeout = None, simulationStatus = SimulationStatus Paused ZERO None,
      timeCursor = ZERO, forwardTimeStep = 1, timers = [], next_timer = 0, sent = [], fired = [], seen = []\<rparr>"

definition new_Session :: "session \<times> (session, unit) outcome" where
  "new_Session = querySimulationStatus blank_session"

end
