(* ===== verification/Session_Design.thy ===== *)
theory Session_Design
  imports Session
begin

text \<open>
  What the session shows of the design: the two caches, which answer a repeated question without a
  command, the scopes and variables they give, and the lookup of a variable by its identifier.
\<close>

section \<open>Requests on their own\<close>

lemma run_request [simp]: "run server (request c) s = (post c s, server (post c s))"
  by (simp add: run_def request_def)

lemma run_pair [simp]: "run server (\<lambda>s. (f s, Done r)) s = (f s, r)"
  by (simp add: run_def)

lemma run_case [simp]:
  "run server (\<lambda>s. case r of Inl e \<Rightarrow> f e s | Inr a \<Rightarrow> g a s) s =
     (case r of Inl e \<Rightarrow> run server (f e) s | Inr a \<Rightarrow> run server (g a) s)"
  by (simp add: run_def split: sum.split)

lemma run_eta: "m s = m' s \<Longrightarrow> run server m s = run server m' s"
  by (simp add: run_def)

section \<open>Memoised questions\<close>

text \<open>
  The contract of \<open>listItemsInScope\<close> and \<open>listScopesInScope\<close>: a question is asked once and the
  decoded reply kept under the scope's identifier.
\<close>

locale memoised =
  fixes cache :: "session \<Rightarrow> string \<rightharpoonup> 'm"
    and command :: "string \<Rightarrow> any_command"
    and decode :: "string \<Rightarrow> any_response \<Rightarrow> js_error + 'm"
    and store :: "string \<Rightarrow> 'm \<Rightarrow> session \<Rightarrow> session"
    and ask :: "string \<Rightarrow> (session, 'm) async"
  assumes ask_hit: "cache s i = Some m \<Longrightarrow> ask i s = return m s"
    and ask_miss: "cache s i = None \<Longrightarrow> ask i s =
      await (request (command i)) (\<lambda>r s.
        case decode i r of Inl e \<Rightarrow> throw e s | Inr m \<Rightarrow> (store i m s, Done (Inr m))) s"
    and cache_store: "cache (store i m s) = (cache s)(i \<mapsto> m)"
    and cache_post: "cache (post c s) = cache s"
    and sent_store: "sent (store i m s) = sent s"
begin

lemma run_hit: "cache s i = Some m \<Longrightarrow> run server (ask i) s = (s, Inr m)"
  using run_eta [of "ask i" s "return m"] by (simp add: ask_hit)

lemma run_miss:
  assumes "cache s i = None"
  shows "run server (ask i) s =
    (case server (post (command i) s) of
       Inl e \<Rightarrow> (post (command i) s, Inl e)
     | Inr r \<Rightarrow> (case decode i r of
           Inl e \<Rightarrow> (post (command i) s, Inl e)
         | Inr m \<Rightarrow> (store i m (post (command i) s), Inr m)))"
proof -
  have "run server (ask i) s = run server (await (request (command i)) (\<lambda>r s.
      case decode i r of Inl e \<Rightarrow> throw e s | Inr m \<Rightarrow> (store i m s, Done (Inr m)))) s"
    by (rule run_eta) (simp add: ask_miss assms)
  also have "\<dots> = (case server (post (command i) s) of
       Inl e \<Rightarrow> (post (command i) s, Inl e)
     | Inr r \<Rightarrow> (case decode i r of
           Inl e \<Rightarrow> (post (command i) s, Inl e)
         | Inr m \<Rightarrow> (store i m (post (command i) s), Inr m)))"
    by (simp add: run_eta [of "\<lambda>s. throw e s" for e] split: sum.split)
  finally show ?thesis .
qed

lemma run_miss_ok:
  assumes "cache s i = None" "server (post (command i) s) = Inr r" "decode i r = Inr m"
  shows "run server (ask i) s = (store i m (post (command i) s), Inr m)"
  using assms by (simp add: run_miss)

lemma run_remembers:
  assumes "run server (ask i) s = (s', Inr m)"
  shows "cache s' i = Some m" and "run server' (ask i) s' = (s', Inr m)"
    and "sent s' = (if cache s i = None then sent s @ [command i] else sent s)"
proof -
  show c: "cache s' i = Some m"
    using assms by (cases "cache s i") (auto simp: run_hit run_miss cache_store split: sum.splits)
  then show "run server' (ask i) s' = (s', Inr m)" by (rule run_hit)
  show "sent s' = (if cache s i = None then sent s @ [command i] else sent s)"
    using assms by (cases "cache s i") (auto simp: run_hit run_miss sent_store post_def split: sum.splits)
qed

end

interpretation items_memo: memoised itemCache list_items_command "\<lambda>_. response_items"
  "\<lambda>i m s. s\<lparr>itemCache := (itemCache s)(i \<mapsto> m)\<rparr>" listItemsInScope
  by unfold_locales (simp_all add: listItemsInScope_def post_def)

interpretation scopes_memo: memoised scopeCache list_scopes_command
  "\<lambda>i r. case response_scopes r of Inl e \<Rightarrow> Inl e | Inr scopes \<Rightarrow> Inr (child_scopes i scopes)"
  "\<lambda>i m s. s\<lparr>scopeCache := (scopeCache s)(i \<mapsto> m)\<rparr>" listScopesInScope
  by unfold_locales
    (auto simp: listScopesInScope_def post_def Let_def intro!: arg_cong [where f = "\<lambda>f. await (request _) f _"]
      split: sum.split)

section \<open>Paths\<close>

text \<open>The path of a scope identifier; the root scope has the empty one.\<close>

definition scope_path :: "string \<Rightarrow> string list" where
  "scope_path n = (if n = '''' then [] else split_on CHR '' '' n)"

lemma indexOf_absent: "indexOf xs x = -1 \<longleftrightarrow> x \<notin> set xs"
  using indexOf_neg [of xs x] indexOf_range [of xs x] by linarith

lemma split_single: "c \<notin> set s \<longleftrightarrow> butlast (split_on c s) = []"
proof
  assume "butlast (split_on c s) = []"
  then obtain p where "split_on c s = [p]"
    by (metis append_butlast_last_id append_Nil split_on_nonempty)
  moreover from this have "p = s" using join_split_on [of c s] by simp
  ultimately show "c \<notin> set s" using split_on_parts [of p c s] by simp
qed (simp add: split_on_no_sep)

lemma startsWith_iff: "startsWith s p \<longleftrightarrow> (\<exists>t. s = p @ t)"
  by (auto simp: startsWith_def) (metis append_take_drop_id)

lemma child_path:
  "startsWith n (i @ '' '') \<and> CHR '' '' \<notin> set (drop (length i + 1) n) \<longleftrightarrow>
     butlast (split_on CHR '' '' n) = split_on CHR '' '' i"
proof
  assume l: "startsWith n (i @ '' '') \<and> CHR '' '' \<notin> set (drop (length i + 1) n)"
  then obtain t where n: "n = i @ CHR '' '' # t" by (auto simp: startsWith_iff)
  with l have "CHR '' '' \<notin> set t" by simp
  then show "butlast (split_on CHR '' '' n) = split_on CHR '' '' i"
    by (simp add: n split_on_append_sep split_on_no_sep)
next
  assume b: "butlast (split_on CHR '' '' n) = split_on CHR '' '' i"
  let ?t = "last (split_on CHR '' '' n)"
  have parts: "split_on CHR '' '' n = split_on CHR '' '' i @ [?t]"
    using append_butlast_last_id [of "split_on CHR '' '' n"] by (simp add: b)
  have "CHR '' '' \<notin> set ?t" by simp
  then have "split_on CHR '' '' (i @ CHR '' '' # ?t) = split_on CHR '' '' n"
    unfolding split_on_append_sep parts [symmetric] by (subst parts) (simp add: split_on_no_sep)
  then have "n = i @ CHR '' '' # ?t" by (metis join_split_on)
  then obtain t where "n = i @ CHR '' '' # t" "CHR '' '' \<notin> set t" using \<open>CHR '' '' \<notin> set ?t\<close> by blast
  then show "startsWith n (i @ '' '') \<and> CHR '' '' \<notin> set (drop (length i + 1) n)"
    by (simp add: startsWith_iff)
qed

section \<open>Scopes and variables of a reply\<close>

lemma scope_fromCXXRTL_Some:
  obtains sc where "scope_fromCXXRTL n (Some d) a b = Inr sc" "scope_cxxrtlIdentifier sc = n"
    "parentFullName sc = (if n = '''' then None else Some (butlast (scope_path n)))"
    "nested_scopes sc = a" "nested_variables sc = b"
  by (cases d)
    (auto simp: scope_fromCXXRTL_def scope_cxxrtlIdentifier_def parentFullName_def scope_path_def join_split_on)

lemma scopes_of_result:
  obtains scs where "scopes_of m = Inr scs" "map scope_cxxrtlIdentifier scs = map fst m"
    "map parentFullName scs = map (\<lambda>n. if n = '''' then None else Some (butlast (scope_path n))) (map fst m)"
    "list_all (\<lambda>sc. nested_scopes sc = scope_cxxrtlIdentifier sc \<and> nested_variables sc = scope_cxxrtlIdentifier sc) scs"
proof (induction m arbitrary: thesis)
  case Nil
  then show ?case by (simp add: scopes_of_def)
next
  case (Cons nd m)
  obtain n d where nd: "nd = (n, d)" by fastforce
  obtain sc where "scope_fromCXXRTL n (Some d) n n = Inr sc" "scope_cxxrtlIdentifier sc = n"
      "parentFullName sc = (if n = '''' then None else Some (butlast (scope_path n)))"
      "nested_scopes sc = n" "nested_variables sc = n"
    by (rule scope_fromCXXRTL_Some)
  moreover obtain scs where "scopes_of m = Inr scs" "map scope_cxxrtlIdentifier scs = map fst m"
      "map parentFullName scs = map (\<lambda>n. if n = '''' then None else Some (butlast (scope_path n))) (map fst m)"
      "list_all (\<lambda>sc. nested_scopes sc = scope_cxxrtlIdentifier sc \<and> nested_variables sc = scope_cxxrtlIdentifier sc) scs"
    by (rule Cons.IH)
  ultimately show ?case by (intro Cons.prems [of "sc # scs"]) (simp_all add: nd scopes_of_def)
qed

lemma variables_of_result:
  obtains vs where "variables_of m = Inr vs" "map cxxrtlIdentifier vs = map fst m"
    "list_all2 (\<lambda>nd v. variable_fromCXXRTL (fst nd) (Some (snd nd)) = Inr v) m vs"
proof (induction m arbitrary: thesis)
  case Nil
  then show ?case by (simp add: variables_of_def)
next
  case (Cons nd m)
  obtain n d where nd: "nd = (n, d)" by fastforce
  obtain v where v: "variable_fromCXXRTL n (Some d) = Inr v"
    using variable_fromCXXRTL_total [of n d] by (cases "variable_fromCXXRTL n (Some d)") simp_all
  moreover obtain vs where "variables_of m = Inr vs" "map cxxrtlIdentifier vs = map fst m"
      "list_all2 (\<lambda>nd v. variable_fromCXXRTL (fst nd) (Some (snd nd)) = Inr v) m vs"
    by (rule Cons.IH)
  ultimately show ?case
    by (intro Cons.prems [of "v # vs"]) (simp_all add: nd variables_of_def identifier_fromCXXRTL)
qed

section \<open>Properties\<close>

text \<open>The filter of \<open>listScopesInScope\<close> is exact: a scope name passes it for a parent exactly when
  it is not the root and its path without the last component is the parent's path, for the root as
  for every other parent and for every string.\<close>

theorem child_scope_exact:
  "is_child_scope i n \<longleftrightarrow> n \<noteq> '''' \<and> butlast (scope_path n) = scope_path i"
proof (cases "i = ''''")
  case True
  then show ?thesis
    using split_single [of "CHR '' ''" n] by (auto simp: is_child_scope_def scope_path_def indexOf_absent)
next
  case False
  have "split_on CHR '' '' i \<noteq> []" by simp
  with False show ?thesis
    using child_path [of n i]
    by (cases "n = ''''") (simp_all add: is_child_scope_def scope_path_def indexOf_absent startsWith_def)
qed

lemma child_scopes_names:
  "map fst (child_scopes i scopes) =
     filter (\<lambda>n. n \<noteq> '''' \<and> butlast (scope_path n) = scope_path i) (map fst scopes)"
  by (induction scopes) (auto simp: child_scopes_def child_scope_exact)

text \<open>C24: asked for the scopes in a scope it has not seen, the session asks the server once and answers
  with exactly the scopes of the reply whose parent it is, in order, each with itself as the
  target of its two lazy fields; asked again, it gives the same answer without a command, whatever
  the server would say.\<close>

theorem getScopesIn_children:
  assumes "scopeCache s i = None"
    and "server (post (list_scopes_command i) s) = Inr (ResListScopes (ResponseListScopes scopes))"
  shows "\<exists>s' scs. run server (getScopesIn i) s = (s', Inr scs) \<and> sent s' = sent s @ [list_scopes_command i] \<and>
    map scope_cxxrtlIdentifier scs =
      filter (\<lambda>n. n \<noteq> '''' \<and> butlast (scope_path n) = scope_path i) (map fst scopes) \<and>
    list_all (\<lambda>sc. parentFullName sc = Some (scope_path i) \<and>
      scope_scopes sc = getScopesIn (scope_cxxrtlIdentifier sc) \<and>
      scope_variables sc = getVariablesIn (scope_cxxrtlIdentifier sc)) scs \<and>
    (\<forall>server'. run server' (getScopesIn i) s' = (s', Inr scs))"
proof -
  let ?m = "child_scopes i scopes"
  let ?s = "(post (list_scopes_command i) s)\<lparr>scopeCache := (scopeCache (post (list_scopes_command i) s))(i \<mapsto> ?m)\<rparr>"
  obtain scs where scs: "scopes_of ?m = Inr scs" "map scope_cxxrtlIdentifier scs = map fst ?m"
      "map parentFullName scs = map (\<lambda>n. if n = '''' then None else Some (butlast (scope_path n))) (map fst ?m)"
      "list_all (\<lambda>sc. nested_scopes sc = scope_cxxrtlIdentifier sc \<and> nested_variables sc = scope_cxxrtlIdentifier sc) scs"
    by (rule scopes_of_result)
  have ask: "run server (listScopesInScope i) s = (?s, Inr ?m)"
    using assms by (simp add: scopes_memo.run_miss response_scopes_def)
  note again = scopes_memo.run_remembers [OF ask]
  have "x = Some (scope_path i)" if "x \<in> set (map parentFullName scs)" for x
    using that unfolding scs(3) by (auto simp: child_scopes_names)
  then have "list_all (\<lambda>sc. parentFullName sc = Some (scope_path i)) scs" by (simp add: list_all_iff)
  moreover have "list_all (\<lambda>sc. scope_scopes sc = getScopesIn (scope_cxxrtlIdentifier sc) \<and>
      scope_variables sc = getVariablesIn (scope_cxxrtlIdentifier sc)) scs"
    using scs(4) by (simp add: list_all_iff scope_scopes_def scope_variables_def)
  moreover have "run server (getScopesIn i) s = (?s, Inr scs)" by (simp add: getScopesIn_def ask scs(1))
  moreover have "run server' (getScopesIn i) ?s = (?s, Inr scs)" for server'
    by (simp add: getScopesIn_def again(2) scs(1) del: fun_upd_apply)
  moreover have "sent ?s = sent s @ [list_scopes_command i]" using again(3) assms(1) by simp
  ultimately show ?thesis using scs(2) by (auto simp: child_scopes_names list_all_iff)
qed

definition example_scope :: scope_description where
  "example_scope =
     ScopeDescriptionModule (ScopeDefinition None None (AttributeMap [])) (ScopeInstantiation None (AttributeMap []))"

theorem getScopesIn_children_witness:
  "\<exists>s' scs. run (\<lambda>s. Inr (ResListScopes (ResponseListScopes
       [('''', example_scope), (''top'', example_scope), (''top cpu'', example_scope),
        (''top cpu alu'', example_scope), (''topmost'', example_scope)])))
     (getScopesIn ''top'') blank_session = (s', Inr scs) \<and> map scope_cxxrtlIdentifier scs = [''top cpu'']"
  using getScopesIn_children [of blank_session "''top''"
      "\<lambda>s. Inr (ResListScopes (ResponseListScopes
         [('''', example_scope), (''top'', example_scope), (''top cpu'', example_scope),
          (''top cpu alu'', example_scope), (''topmost'', example_scope)]))"
      "[('''', example_scope), (''top'', example_scope), (''top cpu'', example_scope),
        (''top cpu alu'', example_scope), (''topmost'', example_scope)]"]
  by (auto simp: blank_session_def scope_path_def)

text \<open>The variables of a scope are those of the reply, in order, and each of them is found again by
  \<open>getVariable\<close> under its identifier, as the same variable and without another command, when the
  server lists items under distinct names that lie in the scope.\<close>

theorem getVariable_finds_listed:
  assumes "itemCache s i = None"
    and "server (post (list_items_command i) s) = Inr (ResListItems (ResponseListItems items))"
    and "distinct (map fst items)" and "list_all (\<lambda>n. scope_of_identifier n = i) (map fst items)"
  shows "\<exists>s' vs. run server (getVariablesIn i) s = (s', Inr vs) \<and> sent s' = sent s @ [list_items_command i] \<and>
    map cxxrtlIdentifier vs = map fst items \<and>
    (\<forall>server'. list_all (\<lambda>v. run server' (getVariable (cxxrtlIdentifier v)) s' = (s', Inr (Some v))) vs)"
proof -
  let ?s = "(post (list_items_command i) s)\<lparr>itemCache := (itemCache (post (list_items_command i) s))(i \<mapsto> items)\<rparr>"
  obtain vs where vs: "variables_of items = Inr vs" "map cxxrtlIdentifier vs = map fst items"
      "list_all2 (\<lambda>nd v. variable_fromCXXRTL (fst nd) (Some (snd nd)) = Inr v) items vs"
    by (rule variables_of_result)
  have ask: "run server (listItemsInScope i) s = (?s, Inr items)"
    using assms(1,2) by (simp add: items_memo.run_miss response_items_def)
  note again = items_memo.run_remembers [OF ask]
  have "run server' (getVariable (cxxrtlIdentifier v)) ?s = (?s, Inr (Some v))" if v: "v \<in> set vs" for server' v
  proof -
    obtain k where k: "k < length vs" "v = vs ! k" using v by (auto simp: in_set_conv_nth)
    obtain n d where nd: "items ! k = (n, d)" by fastforce
    have k': "k < length items" using k(1) vs(3) by (simp add: list_all2_lengthD)
    then have mem: "(n, d) \<in> set items" using nd by (metis nth_mem)
    have var: "variable_fromCXXRTL n (Some d) = Inr v"
      using list_all2_nthD [OF vs(3) k'] nd k(2) by simp
    have "cxxrtlIdentifier v = n" by (rule identifier_fromCXXRTL [OF var])
    moreover have "map_of items n = Some d" using mem assms(3) by simp
    moreover have "n \<in> fst ` set items" using mem by force
    moreover from this have "scope_of_identifier n = i" using assms(4) by (auto simp: list_all_iff)
    ultimately show ?thesis using var again(2) [of server']
      by (simp add: getVariable_def find_variable_def del: fun_upd_apply)
  qed
  moreover have "run server (getVariablesIn i) s = (?s, Inr vs)" by (simp add: getVariablesIn_def ask vs(1))
  moreover have "sent ?s = sent s @ [list_items_command i]" using again(3) assms(1) by simp
  ultimately show ?thesis using vs(2) by (auto simp: list_all_iff)
qed

theorem getVariable_finds_listed_witness:
  "\<exists>s' vs. run (\<lambda>s. Inr (ResListItems (ResponseListItems
       [(''top clk'', ItemDescriptionNode None 0 1 True False False (AttributeMap []))])))
     (getVariablesIn ''top'') blank_session = (s', Inr vs) \<and> map cxxrtlIdentifier vs = [''top clk'']"
  using getVariable_finds_listed [of blank_session "''top''"
      "\<lambda>s. Inr (ResListItems (ResponseListItems
         [(''top clk'', ItemDescriptionNode None 0 1 True False False (AttributeMap []))]))"
      "[(''top clk'', ItemDescriptionNode None 0 1 True False False (AttributeMap []))]"]
  by (auto simp: blank_session_def scope_of_identifier_def)

text \<open>The lookup of an identifier in a scope already listed: the variable if it is listed, \<open>null\<close> if it
  is not, except that a name every JavaScript object inherits, such as \<open>constructor\<close>, is taken for an
  item and makes the lookup fail with an error instead of answering \<open>null\<close>.\<close>

theorem getVariable_in_listed_scope:
  assumes "itemCache s (scope_of_identifier n) = Some items"
  shows "run server (getVariable n) s =
    (s, case map_of items n of
          Some d \<Rightarrow> map_sum id Some (variable_fromCXXRTL n (Some d))
        | None \<Rightarrow> if n \<in> set object_prototype_keys then Inl (GenericError ''Unknown item type'') else Inr None)"
proof -
  have "n \<in> set (map fst items) \<longleftrightarrow> map_of items n \<noteq> None" by (induction items) auto
  then show ?thesis
    using assms by (auto simp: getVariable_def items_memo.run_hit find_variable_def variable_fromCXXRTL_def
      Let_def split: option.split sum.split item_description.split)
qed

theorem getVariable_in_listed_scope_witness:
  "run (\<lambda>_. missing) (getVariable ''constructor'') (blank_session\<lparr>itemCache := ['''' \<mapsto> []]\<rparr>) =
     (blank_session\<lparr>itemCache := ['''' \<mapsto> []]\<rparr>, Inl (GenericError ''Unknown item type''))"
  using getVariable_in_listed_scope [of "blank_session\<lparr>itemCache := ['''' \<mapsto> []]\<rparr>" "''constructor''" "[]" "\<lambda>_. missing"]
  by (simp add: scope_of_identifier_def object_prototype_keys_def)

end
