(* ===== verification/Session_Tasks.thy ===== *)
theory Session_Tasks
  imports Session
begin

text \<open>
  The session under concurrency.  The user interface, the timers and the events of the connection
  start methods of the session at any moment, and their segments interleave; \<open>session_pool\<close> are
  the states that can arise, with any server.  A relation that every elementary update keeps is
  kept by every run of the pool (\<open>session_relation\<close>); it is instantiated for the reference
  epochs, for the caches and for the invariant of the cursor, the status and their events.
\<close>

section \<open>The calls\<close>

inductive session_api :: "session \<Rightarrow> (session, unit) async \<Rightarrow> bool" where
  "session_api s (forget (getVariablesIn i))"
| "session_api s (forget (getScopesIn i))"
| "session_api s (forget getRootScope)"
| "session_api s (forget (getVariable n))"
| "session_api s (update (\<lambda>s. snd (bindReference n u s)))"
| "session_api s (forget (queryInterval iv ref c))"
| "session_api s (runSimulation t)"
| "session_api s pauseSimulation"
| "session_api s (move_cursor tc)"
| "session_api s (forget (stepForward fuel))"
| "session_api s (forget stepBackward)"
| "session_api s (onEvent ev)"
| "t \<in> set (timers s) \<Longrightarrow> session_api s (fire_timer t)"

definition session_pool :: "(any_command \<Rightarrow> result \<Rightarrow> bool) \<Rightarrow> session pool \<Rightarrow> bool" where
  "session_pool ok q \<longleftrightarrow> pool_run session_api ok (fst new_Session, [snd new_Session]) q"

section \<open>Relations all methods keep\<close>

locale session_relation = segment_relation R for R :: "session \<Rightarrow> session \<Rightarrow> bool" +
  assumes R_post: "R s (post c s)"
    and R_items: "R s (s\<lparr>itemCache := (itemCache s)(i \<mapsto> items)\<rparr>)"
    and R_scopes: "R s (s\<lparr>scopeCache := (scopeCache s)(i \<mapsto> child_scopes i scopes)\<rparr>)"
    and R_root: "R s (s\<lparr>rootScopeDesc := d\<rparr>)"
    and R_epoch: "R s (snd (advanceReferenceEpoch n s))"
    and R_cursor: "set_timeCursor t s = Inr s' \<Longrightarrow> R s s'"
    and R_double: "R s (s\<lparr>forwardTimeStep := forwardTimeStep s * 2\<rparr>)"
begin

lemma keeps_request: "keeps_async R (request c)"
  by (simp add: keeps_async_def request_def R_post R_refl)

lemma keeps_query: "(\<And>r. keeps_async R (f r)) \<Longrightarrow> keeps_async R (await (request c) f)"
  by (intro keeps_await keeps_request)

lemma keeps_asyncI:
  "(\<And>s. R s (fst (m s)) \<and> keeps R (snd (m s))) \<Longrightarrow> keeps_async R m"
  by (simp add: keeps_async_def)

lemma keeps_asyncD: "keeps_async R m \<Longrightarrow> R s (fst (m s)) \<and> keeps R (snd (m s))"
  by (simp add: keeps_async_def)

lemma keeps_after:
  "keeps_async R m \<Longrightarrow> R s t \<Longrightarrow> R s (fst (m t)) \<and> keeps R (snd (m t))"
  using R_trans by (auto simp: keeps_async_def)

lemma keeps_done [simp]:
  "R s (fst (throw e s)) \<and> keeps R (snd (throw e s))"
  "R s (fst (return a s)) \<and> keeps R (snd (return a s))"
  "R s (fst (of_result r s)) \<and> keeps R (snd (of_result r s))"
  by (simp_all add: throw_def return_def of_result_def R_refl)

lemma keeps_listItems: "keeps_async R (listItemsInScope i)"
proof (rule keeps_asyncI)
  fix s
  have "keeps_async R (await (request (list_items_command i)) (\<lambda>response s.
      case response_items response of
        Inl e \<Rightarrow> throw e s
      | Inr m \<Rightarrow> (s\<lparr>itemCache := (itemCache s)(i \<mapsto> m)\<rparr>, Done (Inr m))))"
    by (intro keeps_query keeps_asyncI) (simp add: R_items split: sum.split)
  from keeps_asyncD [OF this, of s]
  show "R s (fst (listItemsInScope i s)) \<and> keeps R (snd (listItemsInScope i s))"
    by (simp add: listItemsInScope_def split: option.split)
qed

lemma keeps_listScopes: "keeps_async R (listScopesInScope i)"
proof (rule keeps_asyncI)
  fix s
  have "keeps_async R (await (request (list_scopes_command i)) (\<lambda>response s.
      case response_scopes response of
        Inl e \<Rightarrow> throw e s
      | Inr scopes \<Rightarrow>
          (let m = child_scopes i scopes
           in (s\<lparr>scopeCache := (scopeCache s)(i \<mapsto> m)\<rparr>, Done (Inr m)))))"
    by (intro keeps_query keeps_asyncI) (simp add: R_scopes Let_def split: sum.split)
  from keeps_asyncD [OF this, of s]
  show "R s (fst (listScopesInScope i s)) \<and> keeps R (snd (listScopesInScope i s))"
    by (simp add: listScopesInScope_def split: option.split)
qed

lemma keeps_getRootScope: "keeps_async R getRootScope"
proof (rule keeps_asyncI)
  fix s
  have root: "R s t \<Longrightarrow> R s (fst (root_scope t))" "keeps R (snd (root_scope t))" for s t
    by (simp_all add: root_scope_def of_result_def)
  have "keeps_async R (await (request (list_scopes_command '''')) (\<lambda>response s.
      case response_scopes response of
        Inl e \<Rightarrow> throw e s
      | Inr scopes \<Rightarrow> root_scope (s\<lparr>rootScopeDesc := map_of scopes ''''\<rparr>)))"
    by (intro keeps_query keeps_asyncI) (auto simp: R_root root split: sum.split)
  from keeps_asyncD [OF this, of s]
  show "R s (fst (getRootScope s)) \<and> keeps R (snd (getRootScope s))"
    by (simp add: getRootScope_def root R_refl split: option.split)
qed

lemma keeps_bind: "keeps_async R (update (\<lambda>s. snd (bindReference n u s)))"
  using R_epoch R_post R_trans
  by (auto simp: keeps_async_def update_def bindReference_def split: prod.split) (metis snd_conv)

lemma keeps_queryInterval: "keeps_async R (queryInterval iv ref c)"
proof (rule keeps_asyncI)
  fix s
  have "keeps_async R (await (request (query_interval_command iv b ref)) (\<lambda>response.
      of_result (case response_samples response of
          Inl e \<Rightarrow> Inl e
        | Inr samples \<Rightarrow> sum_map (decode_sample ref) samples)))" for b
    by (intro keeps_query keeps_of_result)
  from keeps_asyncD [OF this] show "R s (fst (queryInterval iv ref c s)) \<and> keeps R (snd (queryInterval iv ref c s))"
    by (simp add: queryInterval_def split: sum.split)
qed

lemma keeps_move_cursor: "keeps_async R (move_cursor t)"
  using R_cursor by (auto simp: keeps_async_def move_cursor_def throw_def R_refl split: sum.split)

lemma keeps_set_cursor:
  fixes s :: session
  shows "R s (fst (case set_timeCursor t s of Inl e \<Rightarrow> throw e s | Inr s' \<Rightarrow> return (f s') s')) \<and>
   keeps R (snd (case set_timeCursor t s of Inl e \<Rightarrow> throw e s | Inr s' \<Rightarrow> return (f s') s'))"
  using R_cursor by (auto simp: return_def split: sum.split)

lemma keeps_search: "keeps_async R (search_forward fuel)"
proof (induction fuel)
  case 0
  then show ?case by (simp add: keeps_return)
next
  case (Suc fuel)
  show ?case
  proof (rule keeps_asyncI)
    fix s :: session
    note double = keeps_after [OF Suc R_double]
    have "keeps_async R (await (request (probe_command (timeCursor s) (offsetByFemtos (timeCursor s) (forwardTimeStep s)))) (\<lambda>response s.
       case response_samples response of
         Inl e \<Rightarrow> throw e s
       | Inr samples \<Rightarrow>
           if length samples = 1
           then search_forward fuel (s\<lparr>forwardTimeStep := forwardTimeStep s * 2\<rparr>)
           else (case sample_time_at 1 samples of
                   Inl e \<Rightarrow> throw e s
                 | Inr t \<Rightarrow>
                     (case set_timeCursor t s of
                        Inl e \<Rightarrow> throw e s
                      | Inr s' \<Rightarrow> return (Some (timeCursor s')) s'))))"
      by (intro keeps_query keeps_asyncI) (auto simp: double keeps_set_cursor split: sum.split)
    from keeps_asyncD [OF this, of s]
    show "R s (fst (search_forward (Suc fuel) s)) \<and> keeps R (snd (search_forward (Suc fuel) s))" by simp
  qed
qed

lemma keeps_stepBackward: "keeps_async R stepBackward"
proof (rule keeps_asyncI)
  fix s
  have "keeps_async R (await (request (probe_command t u)) (\<lambda>response s.
      case response_samples response of
        Inl e \<Rightarrow> throw e s
      | Inr samples \<Rightarrow>
          (case sample_time_at 0 samples of
             Inl e \<Rightarrow> throw e s
           | Inr t \<Rightarrow> (case set_timeCursor t s of Inl e \<Rightarrow> throw e s | Inr s' \<Rightarrow> read_cursor s'))))" for t u
    by (intro keeps_query keeps_asyncI) (auto simp: R_cursor read_cursor_def return_def split: sum.split)
  from keeps_asyncD [OF this]
  show "R s (fst (stepBackward s)) \<and> keeps R (snd (stepBackward s))"
    by (simp add: stepBackward_def read_cursor_def Let_def)
qed

lemma keeps_getVariablesIn: "keeps_async R (getVariablesIn i)"
  unfolding getVariablesIn_def by (intro keeps_await keeps_listItems keeps_of_result)

lemma keeps_getScopesIn: "keeps_async R (getScopesIn i)"
  unfolding getScopesIn_def by (intro keeps_await keeps_listScopes keeps_of_result)

lemma keeps_getVariable: "keeps_async R (getVariable n)"
  unfolding getVariable_def by (intro keeps_await keeps_listItems keeps_of_result)

lemmas keeps_core =
  keeps_forget [OF keeps_getVariablesIn] keeps_forget [OF keeps_getScopesIn] keeps_forget [OF keeps_getRootScope]
  keeps_forget [OF keeps_getVariable] keeps_bind keeps_forget [OF keeps_queryInterval] keeps_move_cursor
  keeps_forget [OF keeps_stepBackward]

end

locale status_relation = session_relation +
  assumes R_status: "decode_status r = Inr st \<Longrightarrow> R s (note_status st s)"
    and R_timers: "R s (s\<lparr>timers := ts\<rparr>)"
    and R_clear: "R s (clear_timeout s)"
    and R_set: "R s (set_timeout s)"
begin

lemma keeps_status_reply: "keeps_async R (status_reply r)"
proof -
  have "decode_status r = Inr st \<Longrightarrow> R s (set_timeout (note_status st s))" for st s
    using R_status R_set by (rule R_trans)
  then show ?thesis
    using R_status by (auto simp: keeps_async_def status_reply_def throw_def R_refl Let_def split: sum.split)
qed

lemma keeps_querySimulationStatus: "keeps_async R querySimulationStatus"
  using keeps_after [OF keeps_query [OF keeps_status_reply] R_clear]
  by (simp add: keeps_async_def querySimulationStatus_def)

lemma keeps_refresh: "keeps_async R (await querySimulationStatus (\<lambda>_. return ()))"
  by (intro keeps_await keeps_querySimulationStatus keeps_return)

lemma keeps_runSimulation: "keeps_async R (runSimulation t)"
  unfolding runSimulation_def by (intro keeps_query keeps_refresh)

lemma keeps_pauseSimulation: "keeps_async R pauseSimulation"
  unfolding pauseSimulation_def by (intro keeps_query keeps_refresh)

lemma keeps_advance: "keeps_async R (advance_simulation nxt)"
  unfolding advance_simulation_def
proof (intro keeps_await keeps_runSimulation keeps_querySimulationStatus keeps_asyncI)
  fix u v s
  show "R s (fst (case nxt of None \<Rightarrow> throw (TypeError ''undefined'') s
        | Some n \<Rightarrow> if \<not> greaterThan n (latestTime (simulationStatus s))
            then case set_timeCursor n s of Inl e \<Rightarrow> throw e s | Inr s' \<Rightarrow> return (Some (timeCursor s')) s'
            else return (Some (timeCursor s)) s)) \<and>
      keeps R (snd (case nxt of None \<Rightarrow> throw (TypeError ''undefined'') s
        | Some n \<Rightarrow> if \<not> greaterThan n (latestTime (simulationStatus s))
            then case set_timeCursor n s of Inl e \<Rightarrow> throw e s | Inr s' \<Rightarrow> return (Some (timeCursor s')) s'
            else return (Some (timeCursor s)) s))"
    by (cases nxt) (simp_all add: keeps_set_cursor)
qed

lemma keeps_stepForward: "keeps_async R (stepForward fuel)"
  using keeps_asyncD [OF keeps_advance] keeps_asyncD [OF keeps_search]
  by (intro keeps_asyncI) (simp add: stepForward_def)

lemma keeps_onEvent: "keeps_async R (onEvent ev)"
  by (cases ev) (simp_all only: onEvent_def any_event.case keeps_refresh)

lemma keeps_fire_timer: "keeps_async R (fire_timer t)"
  using keeps_after [OF keeps_querySimulationStatus R_timers] by (simp add: keeps_async_def fire_timer_def)

lemmas keeps_methods =
  keeps_getVariablesIn keeps_getScopesIn keeps_getRootScope keeps_getVariable keeps_bind keeps_queryInterval
  keeps_runSimulation keeps_pauseSimulation keeps_move_cursor keeps_stepForward keeps_stepBackward
  keeps_onEvent keeps_fire_timer

theorem session_api_keeps: "session_api s m \<Longrightarrow> keeps_async R m"
  by (induction rule: session_api.induct) (intro keeps_methods keeps_forget)+

theorem session_run_keeps:
  assumes "pool_run session_api ok (s, ts) q" and "list_all (keeps R) ts"
  shows "R s (fst q) \<and> list_all (keeps R) (snd q)"
  using pool_run_keeps [of session_api ok s ts "fst q" "snd q"] assms session_api_keeps by simp

theorem session_pool_keeps:
  assumes "session_pool ok q"
  shows "R (fst new_Session) (fst q) \<and> list_all (keeps R) (snd q)"
  using session_run_keeps [of ok "fst new_Session" "[snd new_Session]" q] assms
    keeps_asyncD [OF keeps_querySimulationStatus]
  by (simp add: session_pool_def new_Session_def)

end

end
