(* ===== verification/Session_Invariants.thy ===== *)
theory Session_Invariants
  imports Session_Tasks
begin

text \<open>
  What holds of the session in every interleaving of its methods: the invariant of the cursor, the
  status and the events that announce them; the epochs of the references; the polling of the
  status while the simulation is running.
\<close>

section \<open>Cursor, status and events\<close>

text \<open>What a listener knows that follows the two events from the start.\<close>

fun apply_event :: "session_event \<Rightarrow> time_point \<times> simulation_status \<Rightarrow> time_point \<times> simulation_status" where
  "apply_event (DidChangeSimulationStatus st) (c, _) = (c, st)"
| "apply_event (DidChangeTimeCursor c) (_, st) = (c, st)"

definition initial_view :: "time_point \<times> simulation_status" where
  "initial_view = (ZERO, SimulationStatus Paused ZERO None)"

definition replay :: "session_event list \<Rightarrow> time_point \<times> simulation_status" where
  "replay evs = fold apply_event evs initial_view"

text \<open>The times the simulation has been seen to reach.\<close>

definition reported_times :: "session_event list \<Rightarrow> time_point list" where
  "reported_times evs =
     ZERO # List.map_filter (\<lambda>ev. case ev of DidChangeSimulationStatus st \<Rightarrow> Some (latestTime st) | _ \<Rightarrow> None) evs"

definition announced_ok :: "session_event \<Rightarrow> bool" where
  "announced_ok ev =
     (case ev of
        DidChangeSimulationStatus st \<Rightarrow> (nextSampleTime st \<noteq> None) = (status st = Paused)
      | DidChangeTimeCursor t \<Rightarrow> ZERO \<le> t)"

definition session_inv :: "session \<Rightarrow> bool" where
  "session_inv s \<longleftrightarrow>
     replay (fired s) = (timeCursor s, simulationStatus s) \<and>
     last (initial_view # seen s) = (timeCursor s, simulationStatus s) \<and>
     ZERO \<le> timeCursor s \<and> list_ex (\<lambda>t. timeCursor s \<le> t) (reported_times (fired s)) \<and>
     latestTime (simulationStatus s) \<in> set (reported_times (fired s)) \<and>
     list_all announced_ok (fired s) \<and> 0 < forwardTimeStep s"

lemma replay_snoc [simp]: "replay (evs @ [ev]) = apply_event ev (replay evs)"
  by (simp add: replay_def)

lemma reported_snoc [simp]:
  "reported_times (evs @ [DidChangeSimulationStatus st]) = reported_times evs @ [latestTime st]"
  "reported_times (evs @ [DidChangeTimeCursor t]) = reported_times evs"
  by (simp_all add: reported_times_def List.map_filter_def)

lemma decode_status_ok: "decode_status r = Inr st \<Longrightarrow> announced_ok (DidChangeSimulationStatus st)"
  by (auto simp: decode_status_def announced_ok_def missing_def split: any_response.splits
      response_get_simulation_status.splits sum.splits)

lemma set_timeCursor_Inr:
  "set_timeCursor t s = Inr s' \<longleftrightarrow>
     ZERO \<le> t \<and> t \<le> latestTime (simulationStatus s) \<and>
     s' = emit (DidChangeTimeCursor t) (s\<lparr>timeCursor := t\<rparr>)"
  by (auto simp: set_timeCursor_def time_order not_less)

lemma inv_note_status: "decode_status r = Inr st \<Longrightarrow> session_inv s \<Longrightarrow> session_inv (note_status st s)"
  using decode_status_ok [of r st]
  by (auto simp: session_inv_def note_status_def list_ex_iff)

lemma inv_set_timeCursor: "set_timeCursor t s = Inr s' \<Longrightarrow> session_inv s \<Longrightarrow> session_inv s'"
  by (auto simp: session_inv_def set_timeCursor_Inr announced_ok_def list_ex_iff)

interpretation invariant: status_relation "\<lambda>s s'. session_inv s \<longrightarrow> session_inv s'"
  by unfold_locales
    (auto simp: session_inv_def post_def advanceReferenceEpoch_def clear_timeout_def set_timeout_def Let_def
      dest: inv_note_status [unfolded session_inv_def] inv_set_timeCursor [unfolded session_inv_def]
      split: option.split)

lemma inv_new_Session: "session_inv (fst new_Session)"
  by (simp add: session_inv_def new_Session_def querySimulationStatus_def await_def request_def post_def
      clear_timeout_def blank_session_def replay_def initial_view_def reported_times_def)

section \<open>Epochs\<close>

definition epochs_grow :: "session \<Rightarrow> session \<Rightarrow> bool" where
  "epochs_grow s s' \<longleftrightarrow>
     (\<forall>n e. referenceEpochs s n = Some e \<longrightarrow> (\<exists>e'. referenceEpochs s' n = Some e' \<and> e \<le> e'))"

lemma epochs_same: "referenceEpochs s' = referenceEpochs s \<Longrightarrow> epochs_grow s s'"
  by (simp add: epochs_grow_def)

lemma epochs_grow_trans: "epochs_grow s t \<Longrightarrow> epochs_grow t u \<Longrightarrow> epochs_grow s u"
  unfolding epochs_grow_def by (meson order_trans)

interpretation epochs: status_relation epochs_grow
proof unfold_locales
  fix s t u
  show "epochs_grow s t \<Longrightarrow> epochs_grow t u \<Longrightarrow> epochs_grow s u" by (rule epochs_grow_trans)
next
  fix n s
  show "epochs_grow s (snd (advanceReferenceEpoch n s))"
    by (auto simp: epochs_grow_def advanceReferenceEpoch_def Let_def)
qed (auto simp: post_def note_status_def clear_timeout_def set_timeout_def set_timeCursor_Inr
    intro!: epochs_same split: option.split)

lemma bindReference_epoch:
  assumes "bindReference n u s = (ref, s')"
  shows "ref_name ref = n" "referenceEpochs s' = (referenceEpochs s)(n \<mapsto> ref_epoch ref)"
    "ref_epoch ref = (case referenceEpochs s n of Some e \<Rightarrow> e | None \<Rightarrow> 0) + 1"
    "sent s' = sent s @ [reference_items_command n u]"
  using assms by (auto simp: bindReference_def advanceReferenceEpoch_def post_def new_Reference_def Let_def)

definition bind_all :: "(string \<times> unbound_reference) list \<Rightarrow> session \<Rightarrow> session" where
  "bind_all bs s = fold (\<lambda>(n, u) s. snd (bindReference n u s)) bs s"

lemma bind_all_epochs:
  "referenceEpochs s n = Some e \<Longrightarrow>
     referenceEpochs (bind_all bs s) n = Some (e + length (filter (\<lambda>b. fst b = n) bs))"
proof (induction bs arbitrary: s e)
  case Nil
  then show ?case by (simp add: bind_all_def)
next
  case (Cons b bs)
  obtain m u where b: "b = (m, u)" by fastforce
  obtain ref s1 where s1: "bindReference m u s = (ref, s1)" by fastforce
  have "referenceEpochs s1 n = Some (if m = n then e + 1 else e)"
    using Cons.prems bindReference_epoch(2,3) [OF s1] by auto
  from Cons.IH [OF this] show ?case using s1 by (auto simp: bind_all_def b)
qed

section \<open>Polling\<close>

definition polled :: "session \<Rightarrow> bool" where
  "polled s \<longleftrightarrow> (status (simulationStatus s) = Running \<longrightarrow> timers s \<noteq> [])"

definition is_status_command :: "any_command \<Rightarrow> bool" where
  "is_status_command c \<longleftrightarrow> c = get_status_command"

text \<open>A server that answers every status query with a status.\<close>

definition status_answered :: "any_command \<Rightarrow> result \<Rightarrow> bool" where
  "status_answered c r \<longleftrightarrow>
     (if is_status_command c then \<exists>x st. r = Inr x \<and> decode_status x = Inr st else True)"

interpretation polling: session_relation "\<lambda>s s'. polled s \<longrightarrow> polled s'"
  by unfold_locales
    (auto simp: polled_def post_def advanceReferenceEpoch_def set_timeCursor_Inr Let_def
      is_status_command_def get_status_command_def list_items_command_def list_scopes_command_def)

abbreviation watched :: "(session, 'a) async \<Rightarrow> bool" where
  "watched \<equiv> watches_async polled is_status_command status_answered"

lemma watched_keeps: "keeps_async (\<lambda>s s'. polled s \<longrightarrow> polled s') m \<Longrightarrow> watched m"
  by (rule keeps_watches_async)

lemma status_note: "status (simulationStatus (note_status st s)) = status st"
  by (auto simp: note_status_def status_changed_def)

lemma status_reply_polled:
  "decode_status x = Inr st \<Longrightarrow> polled (fst (status_reply x s)) \<and> snd (status_reply x s) = Done (Inr ())"
  by (simp add: status_reply_def Let_def polled_def set_timeout_def status_note)

lemma restoring_status: "restores polled is_status_command status_answered (await (request get_status_command) status_reply s)"
  unfolding restores_def
  by (rule disjI2) (auto simp: await_def request_def is_status_command_def status_answered_def status_reply_polled)

lemma watched_querySimulationStatus: "watched querySimulationStatus"
proof -
  have "watches polled is_status_command status_answered (snd (await (request get_status_command) status_reply s))" for s
    by (auto simp: await_def request_def is_status_command_def status_answered_def status_reply_polled restores_def)
  then show ?thesis
    using restoring_status by (simp add: watches_async_def querySimulationStatus_def)
qed

lemma watched_request: "watched (request c)"
  by (rule watched_keeps) (rule polling.keeps_request)

lemma watched_refresh: "watched (await querySimulationStatus (\<lambda>_. return ()))"
  by (intro watches_await watched_querySimulationStatus watches_basic)

lemma watched_runSimulation: "watched (runSimulation t)" and watched_pauseSimulation: "watched pauseSimulation"
  unfolding runSimulation_def pauseSimulation_def by (intro watches_await watched_request watched_refresh)+

lemma watched_advance: "watched (advance_simulation nxt)"
  unfolding advance_simulation_def
proof (intro watches_await watched_runSimulation watched_querySimulationStatus watched_keeps polling.keeps_asyncI)
  fix u v s
  let ?m = "\<lambda>s. case nxt of None \<Rightarrow> throw (TypeError ''undefined'') s
        | Some n \<Rightarrow> if \<not> greaterThan n (latestTime (simulationStatus s))
            then case set_timeCursor n s of Inl e \<Rightarrow> throw e s | Inr s' \<Rightarrow> return (Some (timeCursor s')) s'
            else return (Some (timeCursor s)) s"
  show "(polled s \<longrightarrow> polled (fst (?m s))) \<and> keeps (\<lambda>s s'. polled s \<longrightarrow> polled s') (snd (?m s))"
    by (cases nxt) (auto simp: throw_def return_def set_timeCursor_Inr polled_def split: sum.split)
qed

lemma watched_stepForward: "watched (stepForward fuel)"
proof -
  have "polled s \<longrightarrow> restores polled is_status_command status_answered (return a s)"
    "watches polled is_status_command status_answered (snd (return a s))" for a :: "time_point option" and s
    by (simp_all add: return_def restores_def)
  then show ?thesis
    using watched_advance watched_keeps [OF polling.keeps_search [of fuel]]
    by (simp add: watches_async_def stepForward_def)
qed

lemma watched_onEvent: "watched (onEvent ev)"
  by (cases ev) (simp_all only: onEvent_def any_event.case watched_refresh)

lemma restores_querySimulationStatus:
  "restores polled is_status_command status_answered (querySimulationStatus s)"
  by (simp add: querySimulationStatus_def restoring_status)

lemma watched_fire_timer: "watched (fire_timer t)"
  using watched_querySimulationStatus restores_querySimulationStatus
  by (simp add: watches_async_def fire_timer_def)

theorem session_api_watched: "session_api s m \<Longrightarrow> watched m"
  by (induction rule: session_api.induct)
    (intro polling.keeps_core [THEN watched_keeps] watched_runSimulation watched_pauseSimulation
      watched_stepForward watched_onEvent watched_fire_timer watches_forget)+

text \<open>A task that waits for the status or is about to handle it.\<close>

definition querying_status :: "(session, unit) outcome \<Rightarrow> bool" where
  "querying_status t \<longleftrightarrow> restoring polled is_status_command status_answered t"

section \<open>Steps of the pool\<close>

lemma pool_start: "session_pool ok (fst new_Session, [snd new_Session])"
  by (simp add: session_pool_def)

lemma pool_next: "session_pool ok q \<Longrightarrow> pool_step session_api ok q q' \<Longrightarrow> session_pool ok q'"
  unfolding session_pool_def by (rule rtranclp.rtrancl_into_rtrancl)

lemma pool_move:
  "session_pool ok (s, ts) \<Longrightarrow> move_cursor t s = (s', o') \<Longrightarrow> session_pool ok (s', ts @ [o'])"
  by (erule pool_next) (rule pool_call [where m = "move_cursor t"], rule session_api.intros(9))

lemma new_Session_eq:
  "new_Session = (post get_status_command blank_session,
     Await get_status_command (\<lambda>r s. (s, Turn (\<lambda>s. case r of Inl e \<Rightarrow> throw e s | Inr a \<Rightarrow> status_reply a s))))"
  by (simp add: new_Session_def querySimulationStatus_def clear_timeout_def blank_session_def await_def request_def)

text \<open>The session after the reply to its first status query.\<close>

lemma pool_first_status:
  assumes "ok get_status_command (Inr a)" "status_reply a (post get_status_command blank_session) = (s, o')"
  shows "session_pool ok (s, [o'])"
proof -
  let ?h = "\<lambda>r s. (s, Turn (\<lambda>s. case r of Inl e \<Rightarrow> throw e s | Inr a \<Rightarrow> status_reply a s))"
  let ?s = "post get_status_command blank_session"
  have "pool_step session_api ok (?s, [Await get_status_command ?h]) (?s, [Await get_status_command ?h][0 := snd (?h (Inr a) ?s)])"
    by (rule pool_reply [where r = "Inr a" and i = 0 and c = get_status_command and h = ?h])
      (simp_all add: assms(1))
  then have q: "session_pool ok (?s, [snd (?h (Inr a) ?s)])"
    using pool_next [OF pool_start [of ok]] by (simp add: new_Session_eq)
  have "pool_step session_api ok (?s, [snd (?h (Inr a) ?s)]) (s, [snd (?h (Inr a) ?s)][0 := o'])"
    by (rule pool_turn [where i = 0 and k = "status_reply a"]) (simp_all add: assms(2))
  then show ?thesis using pool_next [OF q] by simp
qed

section \<open>Properties\<close>

text \<open>C12: in every state any interleaving of the session's methods, timers and events can reach, whatever the
  server replies: the cursor is not negative and not after every time the simulation has reported;
  the next sample time is announced exactly with the paused status; the guess of the time step is
  positive; and a listener that follows the two events from the start knows the cursor and the
  status exactly, so that no change goes unannounced.\<close>

theorem session_events_and_cursor:
  assumes "session_pool ok (s, ts)"
  shows "replay (fired s) = (timeCursor s, simulationStatus s) \<and> ZERO \<le> timeCursor s \<and>
    list_ex (\<lambda>t. timeCursor s \<le> t) (reported_times (fired s)) \<and>
    latestTime (simulationStatus s) \<in> set (reported_times (fired s)) \<and>
    list_all announced_ok (fired s) \<and> 0 < forwardTimeStep s"
  using invariant.session_pool_keeps [OF assms] inv_new_Session by (simp add: session_inv_def)

theorem session_events_and_cursor_witness:
  "replay [DidChangeTimeCursor ZERO] = (ZERO, SimulationStatus Paused ZERO None)"
  using session_events_and_cursor [OF pool_move [OF pool_start surjective_pairing [of "move_cursor ZERO (fst new_Session)"]]]
  by (simp add: move_cursor_def set_timeCursor_def time_order new_Session_def querySimulationStatus_def
      await_def request_def post_def clear_timeout_def blank_session_def)

text \<open>A reference just bound passes the epoch check, and stays valid exactly until its name is bound
  again: after any further bindings it is rejected as out of date if one of them used its name, and
  accepted otherwise.\<close>

theorem epoch_discipline:
  "case bindReference name u s of (ref, s1) \<Rightarrow>
     checkReferenceEpoch (ref_name ref) (ref_epoch ref) (bind_all bs s1) =
       (if name \<in> set (map fst bs) then Inl (ReferenceError ''Querying out-of-date reference'') else Inr ())"
proof -
  obtain ref s1 where b: "bindReference name u s = (ref, s1)" by fastforce
  note e = bindReference_epoch [OF b]
  have "referenceEpochs (bind_all bs s1) name = Some (ref_epoch ref + length (filter (\<lambda>b. fst b = name) bs))"
    by (rule bind_all_epochs) (simp add: e(2))
  moreover have "length (filter (\<lambda>b. fst b = name) bs) = 0 \<longleftrightarrow> name \<notin> set (map fst bs)"
    by (induction bs) auto
  ultimately show ?thesis by (auto simp: b checkReferenceEpoch_def e(1))
qed

text \<open>C22: a reference that has been superseded stays dead under concurrency: whatever the session does between
  the two bindings and after them, in any interleaving, a query with the old reference fails with
  a \<open>ReferenceError\<close> at once and issues no command.\<close>

theorem superseded_reference_rejected:
  assumes "session_pool ok (s, ts)" and "bindReference name u s = (ref, s1)"
    and "pool_run session_api ok (s1, ts) (s2, ts2)" and "bindReference name u' s2 = (ref', s3)"
    and "pool_run session_api ok (s3, ts2) (s4, ts4)"
  shows "queryInterval iv ref c s4 = (s4, Done (Inl (ReferenceError ''Querying out-of-date reference'')))"
proof -
  have ts: "list_all (keeps epochs_grow) ts" using epochs.session_pool_keeps [OF assms(1)] by simp
  have g12: "epochs_grow s1 s2" and ts2: "list_all (keeps epochs_grow) ts2"
    using epochs.session_run_keeps [OF assms(3) ts] by simp_all
  have g34: "epochs_grow s3 s4" using epochs.session_run_keeps [OF assms(5) ts2] by simp
  note b1 = bindReference_epoch [OF assms(2)] and b2 = bindReference_epoch [OF assms(4)]
  have "referenceEpochs s1 name = Some (ref_epoch ref)" by (simp add: b1(2))
  then obtain e2 where e2: "referenceEpochs s2 name = Some e2" "ref_epoch ref \<le> e2"
    using g12 by (auto simp: epochs_grow_def)
  then have "referenceEpochs s3 name = Some (e2 + 1)" by (simp add: b2(2,3))
  then obtain e4 where "referenceEpochs s4 name = Some e4" "e2 + 1 \<le> e4"
    using g34 by (auto simp: epochs_grow_def)
  with e2 show ?thesis by (simp add: queryInterval_def checkReferenceEpoch_def b1(1) throw_def)
qed

theorem superseded_reference_rejected_witness:
  "\<exists>ref s1 ref' s3. bindReference ''view'' (new_UnboundReference 0) (fst new_Session) = (ref, s1) \<and>
     bindReference ''view'' (new_UnboundReference 1) s1 = (ref', s3) \<and>
     queryInterval (TimeInterval ZERO ZERO) ref None s3 =
       (s3, Done (Inl (ReferenceError ''Querying out-of-date reference'')))"
proof -
  obtain ref s1 where b1: "bindReference ''view'' (new_UnboundReference 0) (fst new_Session) = (ref, s1)"
    by fastforce
  obtain ref' s3 where b2: "bindReference ''view'' (new_UnboundReference 1) s1 = (ref', s3)" by fastforce
  show ?thesis
    using superseded_reference_rejected [OF pool_start b1 rtranclp.rtrancl_refl b2 rtranclp.rtrancl_refl] b1 b2
    by blast
qed

text \<open>C15: polling does not stall: in every reachable state of every interleaving, if the server answers status
  queries with statuses, then as long as the simulation is known to be running there is an armed
  timer that will query the status or a query already under way.\<close>

theorem polling_never_stalls:
  assumes "session_pool status_answered (s, ts)" and "isSimulationRunning s"
  shows "timers s \<noteq> [] \<or> list_ex querying_status ts"
proof -
  have start: "pool_watched polled is_status_command status_answered (fst new_Session, [snd new_Session])"
    using watched_querySimulationStatus restores_querySimulationStatus [of blank_session]
    by (simp add: pool_watched_def new_Session_def watches_async_def restores_def)
  have "pool_watched polled is_status_command status_answered (s, ts)"
    using pool_run_watched [OF assms(1) [unfolded session_pool_def] _ start] session_api_watched by blast
  then show ?thesis
    using assms(2) by (auto simp: pool_watched_def polled_def isSimulationRunning_def list_ex_iff querying_status_def)
qed

definition running_reply :: any_response where
  "running_reply = ResGetSimulationStatus (StatusRunning (toCXXRTL (TimePoint 1 0)))"

lemma decode_running_reply: "decode_status running_reply = Inr (SimulationStatus Running (TimePoint 1 0) None)"
  by (simp add: decode_status_def running_reply_def time_wire.dec_enc RESOLUTION_def)

theorem polling_never_stalls_witness:
  "timers (fst (status_reply running_reply (post get_status_command blank_session))) = [0]"
proof -
  let ?q = "status_reply running_reply (post get_status_command blank_session)"
  have ok: "status_answered get_status_command (Inr running_reply)"
    by (simp add: status_answered_def decode_running_reply)
  have s: "status (simulationStatus (fst ?q)) = Running" "timers (fst ?q) = [0]" "snd ?q = Done (Inr ())"
    by (simp_all add: status_reply_def decode_running_reply note_status_def status_changed_def post_def blank_session_def set_timeout_def)
  have "timers (fst ?q) \<noteq> [] \<or> list_ex querying_status [snd ?q]"
    by (rule polling_never_stalls [OF pool_first_status [where ok = status_answered and a = running_reply]])
      (simp_all add: ok isSimulationRunning_def s(1))
  then show ?thesis using s(2) by simp
qed

end
