(* ===== verification/Session_Time.thy ===== *)
theory Session_Time
  imports Session_Design Session_Invariants
begin

text \<open>
  Moving the time cursor.  The server keeps a timeline of samples; its answer to a query for an
  interval starts with the sample in force at the start of the interval and goes on with those after
  it (\<open>samples_between\<close>).  Under this contract (\<open>serves\<close>) a step forward finds the next sample
  by doubling its guess of the time step, and a step backward the previous one.
\<close>

section \<open>The server's timeline\<close>

definition timeline :: "time_point list \<Rightarrow> bool" where
  "timeline ts \<longleftrightarrow> sorted_wrt (<) ts \<and> ZERO \<in> set ts \<and> list_all (\<lambda>t. ZERO \<le> t) ts"

definition next_sample :: "time_point list \<Rightarrow> time_point \<Rightarrow> time_point option" where
  "next_sample ts c = (case filter (\<lambda>t. c < t) ts of [] \<Rightarrow> None | t # _ \<Rightarrow> Some t)"

definition prev_sample :: "time_point list \<Rightarrow> time_point \<Rightarrow> time_point option" where
  "prev_sample ts c = at_last (filter (\<lambda>t. t < c) ts)"

definition samples_between :: "time_point list \<Rightarrow> time_point \<Rightarrow> time_point \<Rightarrow> time_point list" where
  "samples_between ts b e =
     (case at_last (filter (\<lambda>t. t \<le> b) ts) of None \<Rightarrow> [] | Some t \<Rightarrow> [t]) @ filter (\<lambda>t. b < t \<and> t \<le> e) ts"

definition timeline_response :: "time_point list \<Rightarrow> time_point \<Rightarrow> time_point \<Rightarrow> any_response" where
  "timeline_response ts b e =
     ResQueryInterval (ResponseQueryInterval
       (map (\<lambda>t. ProtoSample (toCXXRTL t) None None) (samples_between ts b e)))"

definition serves :: "time_point list \<Rightarrow> (session \<Rightarrow> result) \<Rightarrow> bool" where
  "serves ts server \<longleftrightarrow>
     (\<forall>s b e. ZERO \<le> b \<and> b \<le> e \<longrightarrow> server (post (probe_command b e) s) = Inr (timeline_response ts b e))"

text \<open>A server that does so, reading the interval from the wire.\<close>

definition timeline_server :: "time_point list \<Rightarrow> session \<Rightarrow> result" where
  "timeline_server ts s =
     (case last (sent s) of
        CmdQueryInterval q \<Rightarrow>
          (case interval_fromCXXRTL (qi_interval q) of
             Inl e \<Rightarrow> Inl e
           | Inr i \<Rightarrow> Inr (timeline_response ts (begin_time i) (end_time i)))
      | _ \<Rightarrow> missing)"

lemma le_ZERO: "ZERO \<le> t \<longleftrightarrow> 0 \<le> raw t"
  by (simp add: time_le_raw)

lemma serves_timeline_server: "serves ts (timeline_server ts)"
  by (auto simp: serves_def timeline_server_def post_def probe_command_def le_ZERO time_le_raw interval_wire.dec_enc)

section \<open>Samples and their neighbours\<close>

lemma filter_head: "filter P xs = y # ys \<Longrightarrow> y \<in> set xs \<and> P y"
proof -
  assume "filter P xs = y # ys"
  then have "y \<in> set (filter P xs)" by simp
  then show ?thesis by simp
qed

lemma at_last_filter: "at_last (filter P xs) = Some y \<Longrightarrow> y \<in> set xs \<and> P y"
proof -
  assume "at_last (filter P xs) = Some y"
  then have "y \<in> set (filter P xs)" by (metis at_last_def last_in_set option.inject option.simps(3))
  then show ?thesis by simp
qed

lemma filter_after:
  assumes "sorted_wrt (<) ts" "next_sample ts c = Some n"
  shows "filter (\<lambda>t. c < t \<and> t \<le> e) ts = (if n \<le> e then n # filter (\<lambda>t. n < t \<and> t \<le> e) ts else [])"
proof -
  obtain xs where xs: "filter (\<lambda>t. c < t) ts = n # xs"
    using assms(2) by (auto simp: next_sample_def split: list.splits)
  have "sorted_wrt (<) (n # xs)" using sorted_wrt_filter [OF assms(1), of "\<lambda>t. c < t"] by (simp add: xs)
  then have above: "list_all (\<lambda>t. n < t) xs" by (simp add: list_all_iff)
  have "c < n" using filter_head [OF xs] by simp
  have "filter (\<lambda>t. n < t) ts = filter (\<lambda>t. n < t) (filter (\<lambda>t. c < t) ts)"
    using \<open>c < n\<close> by (induction ts) auto
  also have "\<dots> = xs" using above by (simp add: xs list_all_iff)
  finally have after: "filter (\<lambda>t. n < t) ts = xs" .
  have "filter (\<lambda>t. c < t \<and> t \<le> e) ts = filter (\<lambda>t. t \<le> e) (n # xs)"
    by (simp add: xs [symmetric] filter_filter conj_commute)
  moreover have "filter (\<lambda>t. n < t \<and> t \<le> e) ts = filter (\<lambda>t. t \<le> e) xs"
    by (simp add: after [symmetric] filter_filter conj_commute)
  moreover have "filter (\<lambda>t. t \<le> e) xs = []" if "\<not> n \<le> e"
    using above that by (auto simp: filter_empty_conv list_all_iff)
  ultimately show ?thesis by simp
qed

lemma no_next: "next_sample ts c = None \<Longrightarrow> filter (\<lambda>t. c < t \<and> t \<le> e) ts = []"
  by (auto simp: next_sample_def filter_empty_conv split: list.splits)

lemma in_force:
  assumes "timeline ts" "ZERO \<le> c"
  obtains t where "at_last (filter (\<lambda>t. t \<le> c) ts) = Some t"
proof -
  have "ZERO \<in> set (filter (\<lambda>t. t \<le> c) ts)" using assms by (simp add: timeline_def)
  then show ?thesis by (intro that [of "last (filter (\<lambda>t. t \<le> c) ts)"]) (simp only: at_last_def, metis empty_iff empty_set)
qed

lemma in_force_member:
  fixes c :: time_point
  assumes "sorted_wrt (<) ts" "c \<in> set ts"
  shows "at_last (filter (\<lambda>t. t \<le> c) ts) = Some c" "filter (\<lambda>t. t \<le> c) ts = filter (\<lambda>t. t < c) ts @ [c]"
proof -
  obtain as bs where ts: "ts = as @ c # bs" using assms(2) by (auto simp: in_set_conv_decomp)
  with assms(1) have ab: "\<forall>a \<in> set as. a < c" "\<forall>b \<in> set bs. c < b" by (auto simp: sorted_wrt_append)
  have "filter (\<lambda>t. t \<le> c) as = as" "filter (\<lambda>t. t < c) as = as"
    using ab(1) by (auto simp: filter_id_conv)
  moreover have "filter (\<lambda>t. t \<le> c) bs = []" "filter (\<lambda>t. t < c) bs = []"
    using ab(2) by (auto simp: filter_empty_conv)
  ultimately show "filter (\<lambda>t. t \<le> c) ts = filter (\<lambda>t. t < c) ts @ [c]" by (simp add: ts)
  then show "at_last (filter (\<lambda>t. t \<le> c) ts) = Some c" by simp
qed

lemma next_sample_mem: "next_sample ts c = Some n \<Longrightarrow> n \<in> set ts \<and> c < n"
  by (auto simp: next_sample_def dest: filter_head split: list.splits)

lemma prev_sample_mem: "prev_sample ts c = Some p \<Longrightarrow> p \<in> set ts \<and> p < c"
  unfolding prev_sample_def by (drule at_last_filter) simp

lemma prev_next:
  assumes "sorted_wrt (<) ts" "c \<in> set ts" "next_sample ts c = Some n"
  shows "prev_sample ts n = Some c"
proof -
  have "filter (\<lambda>t. t < n) ts = filter (\<lambda>t. t \<le> c) ts"
  proof (rule filter_cong [OF refl])
    fix t
    assume t: "t \<in> set ts"
    have "n \<le> t" if "c < t"
      using filter_after [OF assms(1,3), of t] t that by (auto simp: filter_empty_conv split: if_splits)
    then show "(t < n) = (t \<le> c)" using next_sample_mem [OF assms(3)] by force
  qed
  then show ?thesis using in_force_member [OF assms(1,2)] by (simp add: prev_sample_def)
qed

section \<open>Steps\<close>

lemma probe_answer:
  assumes "timeline ts" "serves ts server" "ZERO \<le> b" "b \<le> e"
  obtains t rest where "rest = filter (\<lambda>t. b < t \<and> t \<le> e) ts" "at_last (filter (\<lambda>t. t \<le> b) ts) = Some t"
    "t \<in> set ts" "server (post (probe_command b e) s) =
      Inr (ResQueryInterval (ResponseQueryInterval (map (\<lambda>t. ProtoSample (toCXXRTL t) None None) (t # rest))))"
proof -
  obtain t where t: "at_last (filter (\<lambda>t. t \<le> b) ts) = Some t" by (rule in_force [OF assms(1,3)])
  then have mem: "t \<in> set ts" by (rule conjunct1 [OF at_last_filter])
  have srv: "server (post (probe_command b e) s) = Inr (timeline_response ts b e)"
    using assms(2-4) unfolding serves_def by blast
  have "samples_between ts b e = t # filter (\<lambda>t. b < t \<and> t \<le> e) ts"
    by (simp add: samples_between_def t)
  then show ?thesis by (intro that [OF refl t mem]) (simp add: srv timeline_response_def)
qed

definition arrive :: "time_point \<Rightarrow> session \<Rightarrow> session" where
  "arrive t s = emit (DidChangeTimeCursor t) (s\<lparr>timeCursor := t\<rparr>)"

lemma set_timeCursor_arrive:
  "ZERO \<le> t \<Longrightarrow> t \<le> latestTime (simulationStatus s) \<Longrightarrow> set_timeCursor t s = Inr (arrive t s)"
  by (simp add: set_timeCursor_Inr arrive_def)

definition look_ahead :: "session \<Rightarrow> session" where
  "look_ahead s = post (probe_command (timeCursor s) (offsetByFemtos (timeCursor s) (forwardTimeStep s))) s"

lemma look_ahead_frame [simp]:
  "timeCursor (look_ahead s) = timeCursor s" "forwardTimeStep (look_ahead s) = forwardTimeStep s"
  "simulationStatus (look_ahead s) = simulationStatus s" "fired (look_ahead s) = fired s"
  "length (sent (look_ahead s)) = Suc (length (sent s))"
  by (simp_all add: look_ahead_def post_def)

definition double_step :: "session \<Rightarrow> session" where
  "double_step s = (look_ahead s)\<lparr>forwardTimeStep := forwardTimeStep s * 2\<rparr>"

text \<open>What a round does with its reply.\<close>

definition after_probe :: "nat \<Rightarrow> any_response \<Rightarrow> (session, time_point option) async" where
  "after_probe fuel response s =
     (case response_samples response of
        Inl e \<Rightarrow> throw e s
      | Inr samples \<Rightarrow>
          if length samples = 1
          then search_forward fuel (s\<lparr>forwardTimeStep := forwardTimeStep s * 2\<rparr>)
          else (case sample_time_at 1 samples of
                  Inl e \<Rightarrow> throw e s
                | Inr t \<Rightarrow>
                    (case set_timeCursor t s of
                       Inl e \<Rightarrow> throw e s
                     | Inr s' \<Rightarrow> return (Some (timeCursor s')) s')))"

lemma run_at: "m s = m' s' \<Longrightarrow> run server m s = run server m' s'"
  by (simp add: run_def)

lemma run_search:
  "server (look_ahead s) = Inr response \<Longrightarrow>
     run server (search_forward (Suc fuel)) s = run server (after_probe fuel response) (look_ahead s)"
proof -
  let ?c = "probe_command (timeCursor s) (offsetByFemtos (timeCursor s) (forwardTimeStep s))"
  assume "server (look_ahead s) = Inr response"
  moreover have "run server (search_forward (Suc fuel)) s = run server (await (request ?c) (after_probe fuel)) s"
    by (rule run_at) (simp add: after_probe_def [abs_def])
  ultimately show ?thesis by (simp add: look_ahead_def)
qed

lemma search_round:
  assumes "timeline ts" "serves ts server" "ZERO \<le> timeCursor s" "0 < forwardTimeStep s"
    and "case next_sample ts (timeCursor s) of None \<Rightarrow> True | Some n \<Rightarrow> n \<le> latestTime (simulationStatus s)"
  shows "run server (search_forward (Suc fuel)) s =
    (case next_sample ts (timeCursor s) of
       Some n \<Rightarrow>
         if raw n - raw (timeCursor s) \<le> forwardTimeStep s then (arrive n (look_ahead s), Inr (Some n))
         else run server (search_forward fuel) (double_step s)
     | None \<Rightarrow> run server (search_forward fuel) (double_step s))"
proof -
  let ?c = "timeCursor s" and ?e = "offsetByFemtos (timeCursor s) (forwardTimeStep s)"
  let ?enc = "\<lambda>t. ProtoSample (toCXXRTL t) None None"
  have "?c \<le> ?e" using assms(4) by (simp add: time_le_raw)
  obtain t rest where rest: "rest = filter (\<lambda>t. ?c < t \<and> t \<le> ?e) ts"
    and reply: "server (post (probe_command ?c ?e) s) = Inr (ResQueryInterval (ResponseQueryInterval (map ?enc (t # rest))))"
    by (rule probe_answer [OF assms(1,2,3) \<open>?c \<le> ?e\<close>, of s])
  let ?r = "ResQueryInterval (ResponseQueryInterval (map ?enc (t # rest)))"
  have round: "run server (search_forward (Suc fuel)) s = run server (after_probe fuel ?r) (look_ahead s)"
    by (rule run_search) (simp add: look_ahead_def reply)
  have again: "run server (after_probe fuel ?r) (look_ahead s) = run server (search_forward fuel) (double_step s)"
    if "rest = []"
    by (rule run_at) (simp add: that after_probe_def response_samples_def double_step_def)
  show ?thesis
  proof (cases "next_sample ts ?c")
    case None
    then have "rest = []" by (simp add: rest no_next)
    then show ?thesis using None round again by simp
  next
    case (Some n)
    have sorted: "sorted_wrt (<) ts" and nn: "ZERO \<le> n" "n \<le> latestTime (simulationStatus s)"
      using assms(1,5) next_sample_mem [OF Some] by (auto simp: timeline_def list_all_iff Some)
    have hit: "n \<le> ?e \<longleftrightarrow> raw n - raw ?c \<le> forwardTimeStep s" by (auto simp: time_le_raw)
    show ?thesis
    proof (cases "n \<le> ?e")
      case False
      then have "rest = []" using filter_after [OF sorted Some, of ?e] by (simp add: rest)
      then show ?thesis using Some False hit round again by simp
    next
      case True
      then obtain rest' where rest': "rest = n # rest'" using filter_after [OF sorted Some, of ?e] by (simp add: rest)
      have "set_timeCursor n (look_ahead s) = Inr (arrive n (look_ahead s))"
        using nn by (intro set_timeCursor_arrive) simp_all
      moreover have "sample_time_at 1 (map ?enc (t # rest)) = Inr n"
        using nn(1) by (simp add: rest' sample_time_at_def le_ZERO time_wire.dec_enc)
      ultimately have "run server (after_probe fuel ?r) (look_ahead s) =
          run server (return (Some n)) (arrive n (look_ahead s))"
        by (intro run_at) (simp add: after_probe_def response_samples_def rest' arrive_def)
      then show ?thesis using Some True hit round by simp
    qed
  qed
qed

lemma double_frame [simp]:
  "timeCursor (double_step s) = timeCursor s" "simulationStatus (double_step s) = simulationStatus s"
  "forwardTimeStep (double_step s) = forwardTimeStep s * 2" "fired (double_step s) = fired s"
  "length (sent (double_step s)) = Suc (length (sent s))"
  by (simp_all add: double_step_def)

lemma arrive_frame [simp]:
  "timeCursor (arrive n s) = n" "simulationStatus (arrive n s) = simulationStatus s"
  "forwardTimeStep (arrive n s) = forwardTimeStep s" "fired (arrive n s) = fired s @ [DidChangeTimeCursor n]"
  "sent (arrive n s) = sent s"
  by (simp_all add: arrive_def)

lemma search_finds:
  assumes "timeline ts" "serves ts server"
  shows "ZERO \<le> timeCursor s \<Longrightarrow> 0 < forwardTimeStep s \<Longrightarrow>
    next_sample ts (timeCursor s) = Some n \<Longrightarrow> n \<le> latestTime (simulationStatus s) \<Longrightarrow>
    raw n - raw (timeCursor s) \<le> forwardTimeStep s * 2 ^ k \<Longrightarrow>
    \<exists>s' j. run server (search_forward (Suc k)) s = (s', Inr (Some n)) \<and> timeCursor s' = n \<and>
      simulationStatus s' = simulationStatus s \<and> fired s' = fired s @ [DidChangeTimeCursor n] \<and>
      forwardTimeStep s' = forwardTimeStep s * 2 ^ j \<and> length (sent s') = length (sent s) + j + 1 \<and>
      (j = 0 \<or> forwardTimeStep s' < 2 * (raw n - raw (timeCursor s)))"
proof (induction k arbitrary: s)
  case 0
  then have "run server (search_forward (Suc 0)) s = (arrive n (look_ahead s), Inr (Some n))"
    using search_round [OF assms, of s 0] by simp
  then show ?case by (intro exI [of _ "arrive n (look_ahead s)"] exI [of _ 0]) simp
next
  case (Suc k)
  note round = search_round [OF assms, of s "Suc k"]
  show ?case
  proof (cases "raw n - raw (timeCursor s) \<le> forwardTimeStep s")
    case True
    then have "run server (search_forward (Suc (Suc k))) s = (arrive n (look_ahead s), Inr (Some n))"
      using round Suc.prems by simp
    then show ?thesis by (intro exI [of _ "arrive n (look_ahead s)"] exI [of _ 0]) simp
  next
    case False
    then have again: "run server (search_forward (Suc (Suc k))) s = run server (search_forward (Suc k)) (double_step s)"
      using round Suc.prems by simp
    have "0 < forwardTimeStep s * 2" "raw n - raw (timeCursor s) \<le> forwardTimeStep s * 2 * 2 ^ k"
      using Suc.prems(2,5) by (simp_all add: mult.assoc)
    then obtain s' j where j: "run server (search_forward (Suc k)) (double_step s) = (s', Inr (Some n))"
        "timeCursor s' = n" "simulationStatus s' = simulationStatus s" "fired s' = fired s @ [DidChangeTimeCursor n]"
        "forwardTimeStep s' = forwardTimeStep s * 2 * 2 ^ j" "length (sent s') = Suc (length (sent s)) + j + 1"
        "j = 0 \<or> forwardTimeStep s' < 2 * (raw n - raw (timeCursor s))"
      using Suc.IH [of "double_step s", unfolded double_frame, OF Suc.prems(1) _ Suc.prems(3,4)] by blast
    have "forwardTimeStep s' < 2 * (raw n - raw (timeCursor s))" using j(5,7) False by auto
    then show ?thesis using again j by (intro exI [of _ s'] exI [of _ "Suc j"]) (simp add: mult.assoc)
  qed
qed

lemma search_result:
  assumes "timeline ts" "serves ts server"
  shows "ZERO \<le> timeCursor s \<Longrightarrow> 0 < forwardTimeStep s \<Longrightarrow>
    (case next_sample ts (timeCursor s) of None \<Rightarrow> True | Some n \<Rightarrow> n \<le> latestTime (simulationStatus s)) \<Longrightarrow>
    snd (run server (search_forward fuel) s) =
      Inr (case next_sample ts (timeCursor s) of
             None \<Rightarrow> None
           | Some n \<Rightarrow> if \<exists>k < fuel. raw n - raw (timeCursor s) \<le> forwardTimeStep s * 2 ^ k then Some n else None)"
proof (induction fuel arbitrary: s)
  case 0
  then show ?case by (simp split: option.split)
next
  case (Suc fuel)
  note round = search_round [OF assms Suc.prems(1,2,3), of fuel]
  have again: "snd (run server (search_forward fuel) (double_step s)) =
      Inr (case next_sample ts (timeCursor s) of
             None \<Rightarrow> None
           | Some n \<Rightarrow> if \<exists>k < fuel. raw n - raw (timeCursor s) \<le> forwardTimeStep s * 2 ^ Suc k then Some n else None)"
    using Suc.IH [of "double_step s", unfolded double_frame mult.assoc power_Suc [symmetric]] Suc.prems by simp
  show ?case
    using again unfolding round Ex_less_Suc2 by (auto split: option.split)
qed

lemma search_hopeless:
  assumes "timeline ts" "serves ts server"
  shows "ZERO \<le> timeCursor s \<Longrightarrow> 0 < forwardTimeStep s \<Longrightarrow> next_sample ts (timeCursor s) = None \<Longrightarrow>
    \<exists>s'. run server (search_forward fuel) s = (s', Inr None) \<and> timeCursor s' = timeCursor s"
proof (induction fuel arbitrary: s)
  case 0
  then show ?case by simp
next
  case (Suc fuel)
  then show ?case using Suc.IH [of "double_step s"] search_round [OF assms, of s fuel] by simp
qed

lemma stepForward_search:
  "timeCursor s < latestTime (simulationStatus s) \<Longrightarrow>
     run server (stepForward fuel) s = run server (search_forward fuel) s"
  by (rule run_at) (auto simp: stepForward_def time_order)

lemma stepBackward_prev:
  assumes "timeline ts" "serves ts server" "ZERO < timeCursor s" "timeCursor s \<le> latestTime (simulationStatus s)"
  obtains p s' where "prev_sample ts (timeCursor s) = Some p" "run server stepBackward s = (s', Inr p)"
    "timeCursor s' = p" "simulationStatus s' = simulationStatus s" "fired s' = fired s @ [DidChangeTimeCursor p]"
    "length (sent s') = length (sent s) + 1" "forwardTimeStep s' = forwardTimeStep s"
proof -
  let ?b = "offsetByFemtos (timeCursor s) (-1)"
  let ?enc = "\<lambda>t. ProtoSample (toCXXRTL t) None None"
  have b: "ZERO \<le> ?b" using assms(3) by (simp add: time_le_raw time_less_raw)
  have below: "t \<le> ?b \<longleftrightarrow> t < timeCursor s" for t by (auto simp: time_le_raw time_less_raw)
  obtain p rest where p: "at_last (filter (\<lambda>t. t \<le> ?b) ts) = Some p" "p \<in> set ts"
    and reply: "server (post (probe_command ?b ?b) s) = Inr (ResQueryInterval (ResponseQueryInterval (map ?enc (p # rest))))"
    by (rule probe_answer [OF assms(1,2) b order_refl, of s])
  have "ZERO \<le> p" using p(2) assms(1) by (simp add: timeline_def list_all_iff)
  moreover have "p \<le> latestTime (simulationStatus s)"
    using at_last_filter [OF p(1)] below [of p] assms(4) by auto
  ultimately have set: "set_timeCursor p (post (probe_command ?b ?b) s) = Inr (arrive p (post (probe_command ?b ?b) s))"
    by (intro set_timeCursor_arrive) (simp_all add: post_def)
  have time: "sample_time_at 0 (map ?enc (p # rest)) = Inr p"
    using \<open>ZERO \<le> p\<close> by (simp add: sample_time_at_def le_ZERO time_wire.dec_enc)
  define handle where "handle = (\<lambda>response (s :: session).
      case response_samples response of
        Inl e \<Rightarrow> throw e s
      | Inr samples \<Rightarrow>
          (case sample_time_at 0 samples of
             Inl e \<Rightarrow> throw e s
           | Inr t \<Rightarrow> (case set_timeCursor t s of Inl e \<Rightarrow> throw e s | Inr s' \<Rightarrow> read_cursor s')))"
  have "run server stepBackward s = run server (await (request (probe_command ?b ?b)) handle) s"
    using assms(3) by (intro run_at) (auto simp: stepBackward_def handle_def time_order Let_def)
  moreover have "run server (handle (ResQueryInterval (ResponseQueryInterval (map ?enc (p # rest)))))
      (post (probe_command ?b ?b) s) = run server (return p) (arrive p (post (probe_command ?b ?b) s))"
    by (rule run_at) (simp only: handle_def response_samples_def any_response.case response_query_interval.sel
        sum.case time set, simp add: read_cursor_def)
  ultimately have "run server stepBackward s = (arrive p (post (probe_command ?b ?b) s), Inr p)"
    by (simp add: reply)
  moreover have "prev_sample ts (timeCursor s) = Some p" using p(1) by (simp add: prev_sample_def below)
  ultimately show ?thesis using that by (simp add: post_def)
qed

section \<open>Properties\<close>

text \<open>C1: a step forward inside the recorded simulation goes exactly to the next sample.  Against a server
  that keeps the interval contract, with the cursor before the latest time, the search returns the
  next sample of the timeline and moves the cursor there with one announcement; after \<open>k\<close> doublings
  suffice to cover the gap, \<open>k + 1\<close> rounds are enough; each round costs one command, and the guess is
  at most doubled beyond the gap.\<close>

theorem stepForward_next_sample:
  assumes "timeline ts" "serves ts server" "ZERO \<le> timeCursor s" "0 < forwardTimeStep s"
    and "timeCursor s < latestTime (simulationStatus s)"
    and "next_sample ts (timeCursor s) = Some n" "n \<le> latestTime (simulationStatus s)"
    and "raw n - raw (timeCursor s) \<le> forwardTimeStep s * 2 ^ k"
  shows "\<exists>s' j. run server (stepForward (Suc k)) s = (s', Inr (Some n)) \<and> timeCursor s' = n \<and>
    simulationStatus s' = simulationStatus s \<and> fired s' = fired s @ [DidChangeTimeCursor n] \<and>
    forwardTimeStep s' = forwardTimeStep s * 2 ^ j \<and> length (sent s') = length (sent s) + j + 1 \<and>
    (j = 0 \<or> forwardTimeStep s' < 2 * (raw n - raw (timeCursor s)))"
  unfolding stepForward_search [OF assms(5)]
  by (rule search_finds [OF assms(1,2,3,4,6,7,8)])

definition example_timeline :: "time_point list" where
  "example_timeline = [ZERO, TimePoint 0 7, TimePoint 1 0]"

definition example_session :: session where
  "example_session = blank_session\<lparr>simulationStatus := SimulationStatus Paused (TimePoint 1 0) None\<rparr>"

lemma example_facts:
  "timeline example_timeline" "timeCursor example_session = ZERO" "forwardTimeStep example_session = 1"
  "latestTime (simulationStatus example_session) = TimePoint 1 0"
  "next_sample example_timeline ZERO = Some (TimePoint 0 7)" "ZERO < TimePoint 1 0" "TimePoint 0 7 \<le> TimePoint 1 0"
  "ZERO \<in> set example_timeline"
  by (simp_all add: timeline_def example_timeline_def example_session_def blank_session_def next_sample_def
      time_less_raw time_le_raw RESOLUTION_def)

theorem stepForward_next_sample_witness:
  "\<exists>s'. run (timeline_server example_timeline) (stepForward 4) example_session = (s', Inr (Some (TimePoint 0 7))) \<and>
     timeCursor s' = TimePoint 0 7"
  using stepForward_next_sample [of example_timeline "timeline_server example_timeline" example_session "TimePoint 0 7" 3]
  by (auto simp: example_facts serves_timeline_server eval_nat_numeral)

text \<open>C21: the search of a step forward returns, and never fails, exactly when there is a sample after the
  cursor and its rounds, each with twice the time step of the one before, have come to cover the
  distance to it: within a given number of rounds it returns the next sample if one of their steps is
  at least the distance, so the logarithm of the distance bounds the rounds, and otherwise it is still
  searching; without a next sample (a cursor put between the last sample and a later latest time) it
  probes for ever.\<close>

theorem stepForward_returns_iff:
  assumes "timeline ts" "serves ts server" "ZERO \<le> timeCursor s" "0 < forwardTimeStep s"
    and "timeCursor s < latestTime (simulationStatus s)"
    and "list_all (\<lambda>t. t \<le> latestTime (simulationStatus s)) ts"
  shows "snd (run server (stepForward fuel) s) =
      Inr (case next_sample ts (timeCursor s) of
             None \<Rightarrow> None
           | Some n \<Rightarrow>
               if list_ex (\<lambda>k. raw n - raw (timeCursor s) \<le> forwardTimeStep s * 2 ^ k) [0..<fuel] then Some n else None)
    \<and> ((\<exists>rounds t. snd (run server (stepForward rounds) s) = Inr (Some t)) \<longleftrightarrow> next_sample ts (timeCursor s) \<noteq> None)"
proof -
  have result: "snd (run server (stepForward rounds) s) =
      Inr (case next_sample ts (timeCursor s) of
             None \<Rightarrow> None
           | Some n \<Rightarrow> if \<exists>k < rounds. raw n - raw (timeCursor s) \<le> forwardTimeStep s * 2 ^ k then Some n else None)" for rounds
    unfolding stepForward_search [OF assms(5)]
    using assms(6) next_sample_mem
    by (intro search_result [OF assms(1-4)]) (fastforce simp: list_all_iff split: option.split)
  have enough: "\<exists>rounds. \<exists>k < rounds. raw n - raw (timeCursor s) \<le> forwardTimeStep s * 2 ^ k" for n
  proof -
    let ?k = "nat (raw n - raw (timeCursor s))"
    have "raw n - raw (timeCursor s) \<le> 2 ^ ?k"
      using of_nat_less_two_power [of ?k, where 'a = int] by linarith
    also have "(2 :: int) ^ ?k \<le> forwardTimeStep s * 2 ^ ?k" using assms(4) by simp
    finally show ?thesis by blast
  qed
  have "(\<exists>rounds t. snd (run server (stepForward rounds) s) = Inr (Some t)) \<longleftrightarrow> next_sample ts (timeCursor s) \<noteq> None"
    using enough by (cases "next_sample ts (timeCursor s)") (simp_all add: result)
  then show ?thesis unfolding result [of fuel] by (auto simp: list_ex_iff split: option.split)
qed

theorem stepForward_returns_iff_witness:
  "snd (run (timeline_server example_timeline) (stepForward 3) example_session) = Inr None \<and>
   snd (run (timeline_server example_timeline) (stepForward 4) example_session) = Inr (Some (TimePoint 0 7))"
  using stepForward_returns_iff [of example_timeline "timeline_server example_timeline" example_session 3]
    stepForward_returns_iff [of example_timeline "timeline_server example_timeline" example_session 4]
  by (simp add: example_facts serves_timeline_server)
    (simp add: example_timeline_def time_le_raw RESOLUTION_def upt_rec)

text \<open>A step backward goes exactly to the sample before the cursor with one command, and at time zero it
  stays without asking the server.\<close>

theorem stepBackward_previous_sample:
  assumes "timeline ts" "serves ts server" "ZERO \<le> timeCursor s" "timeCursor s \<le> latestTime (simulationStatus s)"
  shows "case prev_sample ts (timeCursor s) of
      None \<Rightarrow> timeCursor s = ZERO \<and> run server stepBackward s = (s, Inr ZERO)
    | Some p \<Rightarrow> \<exists>s'. run server stepBackward s = (s', Inr p) \<and> timeCursor s' = p \<and>
        fired s' = fired s @ [DidChangeTimeCursor p] \<and> length (sent s') = length (sent s) + 1"
proof (cases "timeCursor s = ZERO")
  case True
  then have "prev_sample ts (timeCursor s) = None"
    using assms(1) by (auto simp: prev_sample_def at_last_def filter_empty_conv timeline_def list_all_iff)
  moreover have "run server stepBackward s = run server (return ZERO) s"
    by (rule run_at) (simp add: True stepBackward_def time_order read_cursor_def)
  ultimately show ?thesis using True by simp
next
  case False
  then have "ZERO < timeCursor s" using assms(3) by simp
  then obtain p s' where "prev_sample ts (timeCursor s) = Some p" "run server stepBackward s = (s', Inr p)"
      "timeCursor s' = p" "fired s' = fired s @ [DidChangeTimeCursor p]" "length (sent s') = length (sent s) + 1"
    by (rule stepBackward_prev [OF assms(1,2) _ assms(4)])
  then show ?thesis by auto
qed

theorem stepBackward_previous_sample_witness:
  "\<exists>s'. run (timeline_server example_timeline) stepBackward (example_session\<lparr>timeCursor := TimePoint 1 0\<rparr>) =
     (s', Inr (TimePoint 0 7))"
  using stepBackward_previous_sample [of example_timeline "timeline_server example_timeline"
      "example_session\<lparr>timeCursor := TimePoint 1 0\<rparr>"]
  by (auto simp: example_facts serves_timeline_server)
    (auto simp: prev_sample_def example_timeline_def time_less_raw time_le_raw RESOLUTION_def at_last_def)

text \<open>The two steps are inverse: from a cursor on a sample that has a next one, a step forward followed by
  a step backward returns to it.\<close>

theorem step_forward_then_backward:
  assumes "timeline ts" "serves ts server" "timeCursor s \<in> set ts" "0 < forwardTimeStep s"
    and "timeCursor s < latestTime (simulationStatus s)"
    and "next_sample ts (timeCursor s) = Some n" "n \<le> latestTime (simulationStatus s)"
    and "raw n - raw (timeCursor s) \<le> forwardTimeStep s * 2 ^ k"
  shows "\<exists>s'. run server (await (stepForward (Suc k)) (\<lambda>_. stepBackward)) s = (s', Inr (timeCursor s)) \<and>
    timeCursor s' = timeCursor s"
proof -
  have c: "ZERO \<le> timeCursor s" using assms(1,3) by (simp add: timeline_def list_all_iff)
  obtain s1 where s1: "run server (stepForward (Suc k)) s = (s1, Inr (Some n))" "timeCursor s1 = n"
      "simulationStatus s1 = simulationStatus s"
    using search_finds [OF assms(1,2) c assms(4,6,7,8)] by (auto simp: stepForward_search [OF assms(5)])
  have "ZERO < timeCursor s1" "timeCursor s1 \<le> latestTime (simulationStatus s1)"
    using le_less_trans [OF c] next_sample_mem [OF assms(6)] assms(7) by (simp_all add: s1)
  then obtain p s2 where "prev_sample ts n = Some p" "run server stepBackward s1 = (s2, Inr p)" "timeCursor s2 = p"
    by (rule stepBackward_prev [OF assms(1,2)]) (simp add: s1)
  moreover have "prev_sample ts n = Some (timeCursor s)"
    using assms(1,3,6) by (intro prev_next) (simp_all add: timeline_def)
  ultimately show ?thesis by (simp add: s1(1))
qed

theorem step_forward_then_backward_witness:
  "\<exists>s'. run (timeline_server example_timeline) (await (stepForward 4) (\<lambda>_. stepBackward)) example_session =
     (s', Inr ZERO)"
proof -
  have "\<exists>s'. run (timeline_server example_timeline) (await (stepForward (Suc 3)) (\<lambda>_. stepBackward)) example_session =
      (s', Inr (timeCursor example_session)) \<and> timeCursor s' = timeCursor example_session"
    by (rule step_forward_then_backward [where ts = example_timeline and n = "TimePoint 0 7"])
      (simp_all add: example_facts serves_timeline_server)
  then show ?thesis by (auto simp: example_facts simp del: run_await)
qed

lemma run_querySimulationStatus:
  obtains s1 r where "run server querySimulationStatus s = (s1, r)" "sent s1 = sent s @ [get_status_command]"
    "timeCursor s1 = timeCursor s"
proof -
  let ?s = "post get_status_command (clear_timeout s)"
  have clear: "sent (clear_timeout s) = sent s" "timeCursor (clear_timeout s) = timeCursor s"
    by (simp_all add: clear_timeout_def split: option.split)
  have frame: "sent (note_status st t) = sent t \<and> timeCursor (note_status st t) = timeCursor t" for st t
    by (simp add: note_status_def)
  have reply: "\<exists>s1 r. run server (status_reply x) t = (s1, r) \<and> sent s1 = sent t \<and> timeCursor s1 = timeCursor t" for x t
    by (cases "decode_status x") (simp_all add: run_def status_reply_def throw_def Let_def set_timeout_def frame)
  have "run server querySimulationStatus s = run server (await (request get_status_command) status_reply) (clear_timeout s)"
    by (rule run_at) (simp add: querySimulationStatus_def)
  then show ?thesis
    using that reply [of _ ?s] clear by (cases "server ?s") (fastforce simp: post_def)+
qed

text \<open>At the end of a paused simulation a step forward runs it until the announced next sample, then moves
  the cursor there if the simulation has got that far and leaves it otherwise.  Before the first
  status has arrived there is no announced sample: the simulation is then told to run without
  limit, and the step fails with a \<open>TypeError\<close>.\<close>

theorem stepForward_at_end:
  assumes "timeCursor s = latestTime (simulationStatus s)" "status (simulationStatus s) = Paused"
  shows "\<exists>s' r cs. run server (stepForward fuel) s = (s', r) \<and>
    sent s' = sent s @ run_command (nextSampleTime (simulationStatus s)) # cs \<and>
    (case r of
       Inr t \<Rightarrow> t = Some (timeCursor s') \<and> (\<exists>n. nextSampleTime (simulationStatus s) = Some n \<and>
         timeCursor s' = (if n \<le> latestTime (simulationStatus s') then n else timeCursor s))
     | Inl e \<Rightarrow> timeCursor s' = timeCursor s)"
proof -
  let ?n = "nextSampleTime (simulationStatus s)"
  let ?s0 = "post (run_command ?n) s"
  let ?final = "\<lambda>s. case ?n of
         None \<Rightarrow> throw (TypeError ''undefined'') s
       | Some n \<Rightarrow>
           if \<not> greaterThan n (latestTime (simulationStatus s))
           then (case set_timeCursor n s of Inl e \<Rightarrow> throw e s | Inr s' \<Rightarrow> return (Some (timeCursor s')) s')
           else return (Some (timeCursor s)) s"
  have eq: "run server (stepForward fuel) s =
      run server (await (runSimulation ?n) (\<lambda>_. await querySimulationStatus (\<lambda>_. ?final))) s"
    using assms by (intro run_at) (simp add: stepForward_def time_order advance_simulation_def)
  obtain s1 r1 where s1: "run server querySimulationStatus ?s0 = (s1, r1)"
      "sent s1 = sent ?s0 @ [get_status_command]" "timeCursor s1 = timeCursor s"
    by (rule run_querySimulationStatus [of server ?s0]) (simp add: post_def)
  obtain s2 r2 where s2: "run server querySimulationStatus s1 = (s2, r2)"
      "sent s2 = sent s1 @ [get_status_command]" "timeCursor s2 = timeCursor s"
    by (rule run_querySimulationStatus [of server s1]) (simp add: s1(3))
  have run0: "run server (runSimulation ?n) s = (case server ?s0 of Inl e \<Rightarrow> (?s0, Inl e) | Inr _ \<Rightarrow> (s1, r1))"
    by (simp add: runSimulation_def s1(1) split: sum.split)
  have final: "\<exists>s' r. run server ?final s2 = (s', r) \<and> sent s' = sent s2 \<and> (case r of
       Inr t \<Rightarrow> t = Some (timeCursor s') \<and> (\<exists>n. ?n = Some n \<and>
         timeCursor s' = (if n \<le> latestTime (simulationStatus s') then n else timeCursor s))
     | Inl e \<Rightarrow> timeCursor s' = timeCursor s)"
    unfolding s2(3) [symmetric] by (cases ?n)
      (auto simp: run_def throw_def return_def time_order not_less set_timeCursor_Inr split: sum.split)
  show ?thesis
  proof (cases "\<exists>e. server ?s0 = Inl e \<or> r1 = Inl e \<or> r2 = Inl e")
    case True
    then show ?thesis unfolding eq
      using s1 s2 by (cases "server ?s0"; cases r1; cases r2) (auto simp: run0 post_def)
  next
    case False
    then obtain b where ok: "server ?s0 = Inr b" "r1 = Inr ()" "r2 = Inr ()"
      by (cases "server ?s0"; cases r1; cases r2) auto
    obtain s' r where f: "run server ?final s2 = (s', r)" "sent s' = sent s2"
        "case r of
           Inr t \<Rightarrow> t = Some (timeCursor s') \<and> (\<exists>n. ?n = Some n \<and>
             timeCursor s' = (if n \<le> latestTime (simulationStatus s') then n else timeCursor s))
         | Inl e \<Rightarrow> timeCursor s' = timeCursor s"
      using final by blast
    have "run server (stepForward fuel) s = (s', r)" unfolding eq by (simp add: run0 ok s1(1) s2(1) f(1))
    moreover have "sent s' = sent s @ run_command ?n # [get_status_command, get_status_command]"
      by (simp add: f(2) s2(2) s1(2)) (simp add: post_def)
    ultimately show ?thesis using f(3) by blast
  qed
qed

theorem stepForward_at_end_witness:
  "\<exists>s' e cs. run (\<lambda>_. Inr running_reply) (stepForward 1) blank_session = (s', Inl e) \<and>
     sent s' = run_command None # cs"
proof -
  have b: "timeCursor blank_session = latestTime (simulationStatus blank_session)"
    "status (simulationStatus blank_session) = Paused" "nextSampleTime (simulationStatus blank_session) = None"
    "sent blank_session = []"
    by (simp_all add: blank_session_def)
  note at_end = stepForward_at_end [OF b(1,2), of "\<lambda>_. Inr running_reply" 1, unfolded b(3,4) append_Nil]
  then obtain s' r cs where r: "run (\<lambda>_. Inr running_reply) (stepForward 1) blank_session = (s', r)"
      "sent s' = run_command None # cs"
      "case r of
         Inr t \<Rightarrow> t = Some (timeCursor s') \<and> (\<exists>n. None = Some n \<and>
           timeCursor s' = (if n \<le> latestTime (simulationStatus s') then n else timeCursor blank_session))
       | Inl e \<Rightarrow> timeCursor s' = timeCursor blank_session"
    by blast
  then show ?thesis by (cases r) auto
qed

end
