(* ===== verification/Session_Walk.thy ===== *)
theory Session_Walk
  imports Session_Time
begin

text \<open>
  Stepping as a whole: the abstract specification of the two stepping commands is a walk along the
  server's timeline, one sample at a time, that stays where it is at the two ends.  Over a finished
  simulation any sequence of commands implements the walk with the same moves, however the guess of
  the time step develops on the way.
\<close>

section \<open>The walk\<close>

datatype step = Ahead | Back

definition walk_step :: "time_point list \<Rightarrow> step \<Rightarrow> time_point \<Rightarrow> time_point" where
  "walk_step ts m c =
     (case (case m of Ahead \<Rightarrow> next_sample ts c | Back \<Rightarrow> prev_sample ts c) of Some t \<Rightarrow> t | None \<Rightarrow> c)"

text \<open>The samples the walk arrives at; a step that stays arrives nowhere.\<close>

primrec trail :: "time_point list \<Rightarrow> step list \<Rightarrow> time_point \<Rightarrow> time_point list" where
  "trail ts [] c = []"
| "trail ts (m # ms) c =
     (if walk_step ts m c = c then [] else [walk_step ts m c]) @ trail ts ms (walk_step ts m c)"

section \<open>The commands\<close>

definition step_command :: "nat \<Rightarrow> step \<Rightarrow> (session, time_point option) async" where
  "step_command fuel m =
     (case m of Ahead \<Rightarrow> stepForward fuel | Back \<Rightarrow> await stepBackward (\<lambda>t. return (Some t)))"

text \<open>A sequence of commands, each given when the previous one has returned.\<close>

primrec step_commands :: "nat \<Rightarrow> step list \<Rightarrow> (session, time_point option) async" where
  "step_commands fuel [] = (\<lambda>s. return (Some (timeCursor s)) s)"
| "step_commands fuel (m # ms) = await (step_command fuel m) (\<lambda>r. if r = None then return None else step_commands fuel ms)"

section \<open>The refinement\<close>

text \<open>The states of the session the walk is about: the simulation has finished at its last sample.\<close>

definition on_timeline :: "time_point list \<Rightarrow> session \<Rightarrow> bool" where
  "on_timeline ts s \<longleftrightarrow>
     timeline ts \<and> timeCursor s \<in> set ts \<and> status (simulationStatus s) = Finished \<and>
     latestTime (simulationStatus s) = last ts \<and> 0 < forwardTimeStep s"

lemma on_timeline_bounds:
  assumes "on_timeline ts s"
  shows "ZERO \<le> timeCursor s" "timeCursor s \<le> last ts" "t \<in> set ts \<Longrightarrow> t \<le> last ts" "t \<in> set ts \<Longrightarrow> ZERO \<le> t"
proof -
  have ts: "sorted_wrt (<) ts" "list_all (\<lambda>t. ZERO \<le> t) ts" "timeCursor s \<in> set ts"
    using assms by (auto simp: on_timeline_def timeline_def)
  show below: "t \<le> last ts" if "t \<in> set ts" for t
  proof -
    have "ts = butlast ts @ [last ts]" using that by (cases ts rule: rev_cases) simp_all
    with ts(1) have "\<forall>x \<in> set (butlast ts). x < last ts" by (metis sorted_wrt_append list.set_intros(1))
    moreover have "t \<in> set (butlast ts) \<or> t = last ts" using that \<open>ts = _\<close> by (metis Un_iff empty_iff insert_iff list.set set_append)
    ultimately show ?thesis by auto
  qed
  show "timeCursor s \<le> last ts" by (rule below [OF ts(3)])
  show "ZERO \<le> timeCursor s" "t \<in> set ts \<Longrightarrow> ZERO \<le> t" using ts(2,3) by (simp_all add: list_all_iff)
qed

lemma no_next_last:
  assumes "on_timeline ts s" "next_sample ts (timeCursor s) = None"
  shows "timeCursor s = last ts"
proof -
  have "last ts \<in> set ts" using assms(1) unfolding on_timeline_def by (metis empty_iff empty_set last_in_set)
  then have "\<not> timeCursor s < last ts"
    using assms(2) by (auto simp: next_sample_def filter_empty_conv split: list.splits)
  with on_timeline_bounds(2) [OF assms(1)] show ?thesis by simp
qed

lemma step_ahead_refines:
  assumes "on_timeline ts s" "serves ts server" "raw (last ts) < 2 ^ fuel"
  shows "\<exists>s'. run server (step_command (Suc fuel) Ahead) s = (s', Inr (Some (timeCursor s'))) \<and> on_timeline ts s' \<and>
    timeCursor s' = walk_step ts Ahead (timeCursor s) \<and>
    fired s' = fired s @ map DidChangeTimeCursor (trail ts [Ahead] (timeCursor s))"
proof -
  have tl: "timeline ts" and pos: "0 < forwardTimeStep s" and latest: "latestTime (simulationStatus s) = last ts"
    and fin: "status (simulationStatus s) = Finished"
    using assms(1) by (auto simp: on_timeline_def)
  show ?thesis
  proof (cases "next_sample ts (timeCursor s)")
    case None
    then have "run server (stepForward (Suc fuel)) s = run server (return (Some (timeCursor s))) s"
      using no_next_last [OF assms(1)] by (intro run_at) (simp add: stepForward_def time_order fin latest)
    then show ?thesis using assms(1) None by (simp add: step_command_def walk_step_def)
  next
    case (Some n)
    then have n: "n \<in> set ts" "timeCursor s < n" using next_sample_mem by auto
    then have below: "n \<le> last ts" using on_timeline_bounds(3) [OF assms(1)] by blast
    then have before: "timeCursor s < latestTime (simulationStatus s)" using n(2) by (simp add: latest)
    have "raw n - raw (timeCursor s) \<le> raw (last ts)"
      using on_timeline_bounds(1) [OF assms(1)] below by (simp add: time_le_raw)
    also have "\<dots> \<le> 1 * 2 ^ fuel" using assms(3) by simp
    also have "\<dots> \<le> forwardTimeStep s * 2 ^ fuel" using pos by (intro mult_right_mono) simp_all
    finally have gap: "raw n - raw (timeCursor s) \<le> forwardTimeStep s * 2 ^ fuel" .
    obtain s' j where s': "run server (search_forward (Suc fuel)) s = (s', Inr (Some n))" "timeCursor s' = n"
        "simulationStatus s' = simulationStatus s" "fired s' = fired s @ [DidChangeTimeCursor n]"
        "forwardTimeStep s' = forwardTimeStep s * 2 ^ j"
      using search_finds [OF tl assms(2) on_timeline_bounds(1) [OF assms(1)] pos Some _ gap] below latest by auto
    then have "on_timeline ts s'" using assms(1) n(1) by (simp add: on_timeline_def)
    with s' n(2) show ?thesis
      by (simp add: step_command_def walk_step_def Some stepForward_search [OF before])
  qed
qed

lemma step_back_refines:
  assumes "on_timeline ts s" "serves ts server"
  shows "\<exists>s'. run server (step_command (Suc fuel) Back) s = (s', Inr (Some (timeCursor s'))) \<and> on_timeline ts s' \<and>
    timeCursor s' = walk_step ts Back (timeCursor s) \<and>
    fired s' = fired s @ map DidChangeTimeCursor (trail ts [Back] (timeCursor s))"
proof -
  have tl: "timeline ts" and latest: "latestTime (simulationStatus s) = last ts"
    using assms(1) by (auto simp: on_timeline_def)
  show ?thesis
  proof (cases "timeCursor s = ZERO")
    case True
    then have "prev_sample ts (timeCursor s) = None"
      using on_timeline_bounds(4) [OF assms(1)] by (auto simp: prev_sample_def at_last_def filter_empty_conv dest: leD)
    moreover have "run server stepBackward s = run server (return ZERO) s"
      by (rule run_at) (simp add: True stepBackward_def time_order read_cursor_def)
    ultimately show ?thesis using assms(1) True by (simp add: step_command_def walk_step_def)
  next
    case False
    then have "ZERO < timeCursor s" using on_timeline_bounds(1) [OF assms(1)] by simp
    moreover have "timeCursor s \<le> latestTime (simulationStatus s)"
      using on_timeline_bounds(2) [OF assms(1)] by (simp add: latest)
    ultimately obtain p s' where p: "prev_sample ts (timeCursor s) = Some p" "run server stepBackward s = (s', Inr p)"
        "timeCursor s' = p" "simulationStatus s' = simulationStatus s" "fired s' = fired s @ [DidChangeTimeCursor p]"
        "forwardTimeStep s' = forwardTimeStep s"
      by (rule stepBackward_prev [OF tl assms(2)]) blast
    then have "on_timeline ts s'" using assms(1) prev_sample_mem [OF p(1)] by (simp add: on_timeline_def)
    moreover have "p \<noteq> timeCursor s" using prev_sample_mem [OF p(1)] by auto
    ultimately show ?thesis using p by (simp add: step_command_def walk_step_def)
  qed
qed

lemma step_refines:
  assumes "on_timeline ts s" "serves ts server" "raw (last ts) < 2 ^ fuel"
  shows "\<exists>s'. run server (step_command (Suc fuel) m) s = (s', Inr (Some (timeCursor s'))) \<and> on_timeline ts s' \<and>
    timeCursor s' = walk_step ts m (timeCursor s) \<and>
    fired s' = fired s @ map DidChangeTimeCursor (trail ts [m] (timeCursor s))"
  using step_ahead_refines [OF assms] step_back_refines [OF assms(1,2), of fuel] by (cases m) blast+

lemma trail_Cons: "trail ts (m # ms) c = trail ts [m] c @ trail ts ms (walk_step ts m c)"
  by simp

lemma steps_refine:
  assumes "serves ts server" "raw (last ts) < 2 ^ fuel"
  shows "on_timeline ts s \<Longrightarrow>
    \<exists>s'. run server (step_commands (Suc fuel) ms) s = (s', Inr (Some (timeCursor s'))) \<and>
      timeCursor s' = fold (walk_step ts) ms (timeCursor s) \<and>
      fired s' = fired s @ map DidChangeTimeCursor (trail ts ms (timeCursor s))"
proof (induction ms arbitrary: s)
  case Nil
  have "run server (\<lambda>s. return (Some (timeCursor s)) s) s = run server (return (Some (timeCursor s))) s"
    by (rule run_at) simp
  then show ?case by simp
next
  case (Cons m ms)
  obtain s1 where s1: "run server (step_command (Suc fuel) m) s = (s1, Inr (Some (timeCursor s1)))" "on_timeline ts s1"
      "timeCursor s1 = walk_step ts m (timeCursor s)"
      "fired s1 = fired s @ map DidChangeTimeCursor (trail ts [m] (timeCursor s))"
    using step_refines [OF Cons.prems assms] by blast
  obtain s' where s': "run server (step_commands (Suc fuel) ms) s1 = (s', Inr (Some (timeCursor s')))"
      "timeCursor s' = fold (walk_step ts) ms (timeCursor s1)"
      "fired s' = fired s1 @ map DidChangeTimeCursor (trail ts ms (timeCursor s1))"
    using Cons.IH [OF s1(2)] by blast
  have "run server (step_commands (Suc fuel) (m # ms)) s = (s', Inr (Some (timeCursor s')))"
    by (simp add: s1(1) s'(1))
  with s1 s' show ?case unfolding trail_Cons [of ts m ms] by (intro exI [of _ s']) simp
qed

section \<open>Properties\<close>

text \<open>C7: stepping implements the walk: over a finished simulation, any sequence of step commands, given one
  after the other, returns without an error at exactly the sample where the walk with the same moves
  ends, and announces exactly the samples the walk arrives at, in order.  Rounds enough to cover the
  whole simulation with doublings from one femtosecond are enough for every step.\<close>

theorem stepping_refines_walk:
  assumes "timeline ts" "serves ts server" "timeCursor s \<in> set ts"
    and "status (simulationStatus s) = Finished" "latestTime (simulationStatus s) = last ts" "0 < forwardTimeStep s"
    and "raw (last ts) < 2 ^ fuel"
  shows "\<exists>s'. run server (step_commands (Suc fuel) ms) s = (s', Inr (Some (fold (walk_step ts) ms (timeCursor s)))) \<and>
    timeCursor s' = fold (walk_step ts) ms (timeCursor s) \<and>
    fired s' = fired s @ map DidChangeTimeCursor (trail ts ms (timeCursor s))"
proof -
  have "on_timeline ts s" using assms by (simp add: on_timeline_def)
  from steps_refine [OF assms(2,7) this, of ms] show ?thesis by metis
qed

theorem stepping_refines_walk_witness:
  "\<exists>s'. run (timeline_server example_timeline) (step_commands 81 [Ahead, Ahead, Ahead, Back])
      (example_session\<lparr>simulationStatus := SimulationStatus Finished (TimePoint 1 0) None\<rparr>) =
      (s', Inr (Some (TimePoint 0 7))) \<and>
     fired s' = map DidChangeTimeCursor [TimePoint 0 7, TimePoint 1 0, TimePoint 0 7]"
proof -
  let ?s = "example_session\<lparr>simulationStatus := SimulationStatus Finished (TimePoint 1 0) None\<rparr>"
  let ?ms = "[Ahead, Ahead, Ahead, Back]"
  have walk: "walk_step example_timeline Ahead ZERO = TimePoint 0 7" "walk_step example_timeline Ahead (TimePoint 0 7) = TimePoint 1 0"
    "walk_step example_timeline Ahead (TimePoint 1 0) = TimePoint 1 0" "walk_step example_timeline Back (TimePoint 1 0) = TimePoint 0 7"
    by (simp_all add: walk_step_def next_sample_def prev_sample_def at_last_def example_timeline_def time_less_raw RESOLUTION_def)
  have "ZERO < TimePoint 0 7" "TimePoint 0 7 < TimePoint 1 0" by (simp_all add: time_less_raw RESOLUTION_def)
  then have neq: "TimePoint 0 7 \<noteq> ZERO" "TimePoint 1 0 \<noteq> TimePoint 0 7" by auto
  have ends: "fold (walk_step example_timeline) ?ms ZERO = TimePoint 0 7"
    "trail example_timeline ?ms ZERO = [TimePoint 0 7, TimePoint 1 0, TimePoint 0 7]"
    using neq by (simp_all add: walk)
  have s: "timeCursor ?s = ZERO" "status (simulationStatus ?s) = Finished" "0 < forwardTimeStep ?s" "fired ?s = []"
    "latestTime (simulationStatus ?s) = last example_timeline" "raw (last example_timeline) < 2 ^ 80"
    by (simp_all add: example_session_def blank_session_def example_timeline_def RESOLUTION_def)
  have "timeCursor ?s \<in> set example_timeline" by (simp only: s(1) example_facts(8))
  from stepping_refines_walk [OF example_facts(1) serves_timeline_server this s(2,5,3,6), of ?ms]
  show ?thesis unfolding s(1,4) ends append_Nil by (simp only: Suc_numeral semiring_norm) blast
qed

end
