(* ===== verification/Session_Requests.thy ===== *)
theory Session_Requests
  imports Session_Tasks
begin

text \<open>
  How the session's methods issue their commands: a segment only appends to the log of commands, and
  the command a method waits for is the last one its segment has issued.  With this the connection
  under the session can number the commands without the session knowing their numbers.
\<close>

lemma posts_request: "posts_at sent s (request c s)"
  by (simp add: request_def posts_at_def posting_def post_def)

lemma posts_query: "(\<And>r. posts sent (f r)) \<Longrightarrow> posts_at sent s (await (request c) f s)"
  by (intro posts_await posts_request)

lemma sent_set_timeCursor: "set_timeCursor t s = Inr s' \<Longrightarrow> sent s' = sent s"
  by (auto simp: set_timeCursor_def split: if_splits)

lemma posts_cursor:
  "posts_at sent s (case set_timeCursor t s of Inl e \<Rightarrow> throw e s | Inr s' \<Rightarrow> return (f s') s')"
  using sent_set_timeCursor by (auto simp: return_def split: sum.split)

lemma posts_listItems: "posts_at sent s (listItemsInScope i s)"
  by (auto simp: listItemsInScope_def intro!: postsI posts_query split: option.split sum.split)

lemma posts_listScopes: "posts_at sent s (listScopesInScope i s)"
  by (auto simp: listScopesInScope_def Let_def intro!: postsI posts_query split: option.split sum.split)

lemma posts_getVariablesIn: "posts sent (getVariablesIn i)"
  unfolding getVariablesIn_def by (intro postsI posts_await posts_listItems posts_basic)

lemma posts_getScopesIn: "posts sent (getScopesIn i)"
  unfolding getScopesIn_def by (intro postsI posts_await posts_listScopes posts_basic)

lemma posts_getVariable: "posts sent (getVariable n)"
  unfolding getVariable_def by (intro postsI posts_await posts_listItems posts_basic)

lemma posts_getRootScope: "posts sent getRootScope"
  by (auto simp: getRootScope_def root_scope_def of_result_def intro!: postsI posts_query split: option.split sum.split)

lemma posts_bind: "posts sent (update (\<lambda>s. snd (bindReference n u s)))"
  by (auto simp: posts_at_def posting_def update_def bindReference_def advanceReferenceEpoch_def post_def Let_def)

lemma posts_queryInterval: "posts sent (queryInterval iv ref c)"
proof
  fix s
  have "posts_at sent s (await (request (query_interval_command iv b ref)) (\<lambda>response.
      of_result (case response_samples response of
          Inl e \<Rightarrow> Inl e
        | Inr samples \<Rightarrow> sum_map (decode_sample ref) samples)) s)" for b
    by (intro posts_query postsI posts_basic)
  then show "posts_at sent s (queryInterval iv ref c s)" by (simp add: queryInterval_def split: sum.split)
qed

lemma posts_status_reply: "posts sent (status_reply r)"
  by (auto simp: status_reply_def note_status_def set_timeout_def Let_def split: sum.split)

lemma posts_querySimulationStatus: "posts sent querySimulationStatus"
proof -
  have "posts sent (await (request get_status_command) status_reply)"
    by (intro postsI posts_query posts_status_reply)
  then show ?thesis
    unfolding querySimulationStatus_def
    by (intro postsI) (erule posts_after, simp add: clear_timeout_def split: option.split)
qed

lemma posts_refresh: "posts sent (await querySimulationStatus (\<lambda>_. return ()))"
  by (intro postsI posts_await postsD [OF posts_querySimulationStatus] posts_basic)

lemma posts_runSimulation: "posts sent (runSimulation t)" and posts_pauseSimulation: "posts sent pauseSimulation"
  unfolding runSimulation_def pauseSimulation_def by (intro postsI posts_query posts_refresh)+

lemma posts_move_cursor: "posts sent (move_cursor t)"
  using sent_set_timeCursor by (auto simp: move_cursor_def split: sum.split)

lemma posts_search: "posts sent (search_forward fuel)"
proof (induction fuel)
  case 0
  then show ?case by auto
next
  case (Suc fuel)
  have "posts_at sent s (search_forward fuel (s\<lparr>forwardTimeStep := forwardTimeStep s * 2\<rparr>))" for s
    by (rule posts_after [OF Suc]) simp
  then show ?case by (auto simp: return_def sent_set_timeCursor intro!: postsI posts_query split: sum.split)
qed

lemma posts_advance: "posts sent (advance_simulation nxt)"
  unfolding advance_simulation_def
  by (intro postsI posts_await postsD [OF posts_runSimulation] postsD [OF posts_querySimulationStatus])
    (auto intro: posts_cursor split: option.split)

lemma posts_stepForward: "posts sent (stepForward fuel)"
  by (auto simp: stepForward_def intro!: postsI postsD [OF posts_search] postsD [OF posts_advance])

lemma posts_stepBackward: "posts sent stepBackward"
  by (auto simp: stepBackward_def read_cursor_def Let_def return_def sent_set_timeCursor intro!: postsI posts_query split: sum.split)

lemma posts_onEvent: "posts sent (onEvent ev)"
  by (cases ev) (simp_all only: onEvent_def any_event.case posts_refresh)

lemma posts_fire_timer: "posts sent (fire_timer t)"
  unfolding fire_timer_def by (intro postsI posts_after [OF posts_querySimulationStatus]) simp

lemmas posts_methods =
  posts_getVariablesIn posts_getScopesIn posts_getRootScope posts_getVariable posts_bind posts_queryInterval
  posts_runSimulation posts_pauseSimulation posts_move_cursor posts_stepForward posts_stepBackward
  posts_onEvent posts_fire_timer

theorem session_api_posts: "session_api s m \<Longrightarrow> posts sent m"
  by (induction rule: session_api.induct) (intro posts_methods posts_forget)+

end
