(* ===== verification/Wire.thy ===== *)
theory Wire
  imports Session_Invariants Session_Requests
begin

text \<open>
  The link, the connection and the session together.  \<open>NodeStreamLink.onStreamData\<close>
  (\<open>src/src/cxxrtl/link.ts\<close>) is an \<open>async\<close> handler: it awaits the connection's \<open>onLinkRecv\<close>
  (\<open>src/src/cxxrtl/client.ts\<close>) packet by packet, which for an event awaits the session's handler
  (\<open>src/src/debug/session.ts\<close>), which in turn awaits the reply to a command of its own.  So
  several chunks can be in the middle of being handled while the methods of the session run.

  \<open>resumed\<close> and \<open>stream_destroyed\<close> are the state of the stream: a stream that is paused, or has been
  destroyed, delivers neither data nor its end.  A
  session's segment that has issued commands gives them to the connection, which numbers them; a task
  waits for the number its last segment ended with and resumes when the connection has settled it.
  \<open>JSON.parse\<close> is an argument.
\<close>

section \<open>State\<close>

record wire =
  resumed :: bool
  stream_destroyed :: bool
  recvBuffer :: "string list"
  wire_conn :: connection
  wire_session :: session

text \<open>The stream delivers what arrives.\<close>

abbreviation flowing :: "wire \<Rightarrow> bool" where
  "flowing w \<equiv> resumed w \<and> \<not> stream_destroyed w"

definition set_flowing :: "bool \<Rightarrow> wire \<Rightarrow> wire" where
  "set_flowing b w = w\<lparr>resumed := b\<rparr>"

lemma set_flowing_twice [simp]: "set_flowing b (set_flowing c w) = set_flowing b w"
  by (simp add: set_flowing_def)

text \<open>The commands a segment of the session has issued go to the connection in order.\<close>

definition commit :: "session \<Rightarrow> wire \<Rightarrow> wire" where
  "commit s w =
     w\<lparr>wire_session := s,
       wire_conn := fold perform_start (drop (length (sent (wire_session w))) (sent s)) (wire_conn w)\<rparr>"

text \<open>A task of the session, as a task on the whole.\<close>

primrec lift_outcome :: "(session, 'a) outcome \<Rightarrow> (wire, 'a) outcome" where
  "lift_outcome (Done r) = Done r"
| "lift_outcome (Turn k) =
     Turn (\<lambda>w. case map_prod id lift_outcome (k (wire_session w)) of (s, o') \<Rightarrow> (commit s w, o'))"
| "lift_outcome (Await c h) =
     Await c (\<lambda>r w. case map_prod id lift_outcome (h r (wire_session w)) of (s, o') \<Rightarrow> (commit s w, o'))"

lemma lift_pair:
  "(case map_prod id lift_outcome q of (s, o') \<Rightarrow> (commit s w, o')) = (commit (fst q) w, lift_outcome (snd q))"
  by (cases q) simp

definition in_session :: "(session, 'a) async \<Rightarrow> (wire, 'a) async" where
  "in_session m w = (case m (wire_session w) of (s, o') \<Rightarrow> (commit s w, lift_outcome o'))"

lemma in_session_pair: "in_session m w = (commit (fst (m (wire_session w))) w, lift_outcome (snd (m (wire_session w))))"
  by (simp add: in_session_def split: prod.split)

section \<open>The handler of a chunk\<close>

text \<open>
  \<open>onRecv\<close>: after the connection has dispatched the packet, the two notifications the connection
  awaits are awaited; \<open>onConnected\<close> does nothing.
\<close>

definition wire_onRecv :: "server_packet \<Rightarrow> (wire, unit) async" where
  "wire_onRecv p w =
     (case onLinkRecv p (wire_conn w) of
        Inl e \<Rightarrow> throw e w
      | Inr c \<Rightarrow>
          (let w' = w\<lparr>wire_conn := c\<rparr>
           in case (conn_state (wire_conn w), p) of
                (Connected, SrvEvent ev) \<Rightarrow> await (in_session (onEvent ev)) (\<lambda>_. return ()) w'
              | (Initializing, SrvGreeting g) \<Rightarrow>
                  if sg_version g = 0 then await (return ()) (\<lambda>_. return ()) w' else return () w'
              | _ \<Rightarrow> return () w'))"

fun handle_packets :: "(string \<Rightarrow> server_packet option) \<Rightarrow> string list \<Rightarrow> (wire, unit) async" where
  "handle_packets parse [] = (\<lambda>w. return () (set_flowing True w))"
| "handle_packets parse (t # ts) =
     (case parse t of
        None \<Rightarrow> return ()
      | Some p \<Rightarrow>
          await (attempt (wire_onRecv p)) (\<lambda>r.
            case r of
              Inl e \<Rightarrow> return ()
            | Inr _ \<Rightarrow> (\<lambda>w. handle_packets parse ts (set_flowing True w))))"

definition wire_onStreamData :: "(string \<Rightarrow> server_packet option) \<Rightarrow> string \<Rightarrow> (wire, unit) async" where
  "wire_onStreamData parse chunk w =
     (case split_chunk chunk (recvBuffer w) of
        (buffer, texts) \<Rightarrow> handle_packets parse texts (w\<lparr>recvBuffer := buffer, resumed := False\<rparr>))"

section \<open>Runs\<close>

text \<open>A task with the number of the command it waits for, if it waits for one.\<close>

type_synonym wire_pool = "wire \<times> (nat \<times> (wire, unit) outcome) list"

definition numbered :: "wire \<times> (wire, unit) outcome \<Rightarrow> nat \<times> (wire, unit) outcome" where
  "numbered q = (next_command (wire_conn (fst q)) - 1, snd q)"

inductive wire_step :: "(string \<Rightarrow> server_packet option) \<Rightarrow> wire_pool \<Rightarrow> wire_pool \<Rightarrow> bool" for parse where
  wire_data: "flowing w \<Longrightarrow> q = wire_onStreamData parse chunk w \<Longrightarrow> wire_step parse (w, ts) (fst q, ts @ [numbered q])"
| wire_end: "flowing w \<Longrightarrow> wire_step parse (w, ts) (w\<lparr>wire_conn := onLinkDone (wire_conn w)\<rparr>, ts)"
| wire_call: "session_api (wire_session w) m \<Longrightarrow> q = in_session m w \<Longrightarrow>
    wire_step parse (w, ts) (fst q, ts @ [numbered q])"
| wire_register: "wire_step parse (w, ts) (w\<lparr>wire_conn := perform_register (wire_conn w)\<rparr>, ts)"
| wire_turn: "i < length ts \<Longrightarrow> ts ! i = (n, Turn k) \<Longrightarrow> q = k w \<Longrightarrow>
    wire_step parse (w, ts) (fst q, ts[i := numbered q])"
| wire_settled: "i < length ts \<Longrightarrow> ts ! i = (n, Await c h) \<Longrightarrow> (n, r) \<in> set (settled (wire_conn w)) \<Longrightarrow> q = h r w \<Longrightarrow>
    wire_step parse (w, ts) (fst q, ts[i := numbered q])"

text \<open>The constructor of the session creates the connection and queries the status.\<close>

definition start_wire :: wire where
  "start_wire = \<lparr>resumed = True, stream_destroyed = False, recvBuffer = [], wire_conn = new_Connection, wire_session = blank_session\<rparr>"

definition new_wire :: wire_pool where
  "new_wire = (let q = in_session querySimulationStatus start_wire in (fst q, [numbered q]))"

definition wire_reachable :: "(string \<Rightarrow> server_packet option) \<Rightarrow> wire_pool \<Rightarrow> bool" where
  "wire_reachable parse q \<longleftrightarrow> rtranclp (wire_step parse) new_wire q"

section \<open>Relations every segment keeps\<close>

locale wire_relation = segment_relation R for R :: "wire \<Rightarrow> wire \<Rightarrow> bool" +
  assumes R_session: "session_api s m \<Longrightarrow> keeps_async R (in_session m)"
    and R_query: "keeps_async R (in_session querySimulationStatus)"
    and R_recv: "onLinkRecv p (wire_conn w) = Inr c \<Longrightarrow> R w (w\<lparr>wire_conn := c\<rparr>)"
    and R_done: "R w (w\<lparr>wire_conn := onLinkDone (wire_conn w)\<rparr>)"
    and R_register: "R w (w\<lparr>wire_conn := perform_register (wire_conn w)\<rparr>)"
    and R_flow: "R w (w\<lparr>resumed := b\<rparr>)"
    and R_buffer: "R w (w\<lparr>recvBuffer := bs, resumed := b\<rparr>)"
begin

lemma keeps_after: "keeps_async R m \<Longrightarrow> R w w' \<Longrightarrow> R w (fst (m w')) \<and> keeps R (snd (m w'))"
  using R_trans by (auto simp: keeps_async_def)

lemma keeps_here: "keeps_async R m \<Longrightarrow> R w (fst (m w)) \<and> keeps R (snd (m w))"
  by (simp add: keeps_async_def)

lemma keeps_onRecv: "keeps_async R (wire_onRecv p)"
proof -
  have ev: "keeps_async R (await (in_session (onEvent ev)) (\<lambda>_. return ()))" for ev
    by (intro keeps_await keeps_return R_session session_api.intros)
  have greet: "keeps_async R (await (return ()) (\<lambda>_. return ()) :: (wire, unit) async)"
    by (intro keeps_await keeps_return)
  have ret: "keeps_async R (return () :: (wire, unit) async)" by (rule keeps_return)
  have thr: "keeps_async R (throw e :: (wire, unit) async)" for e by (rule keeps_throw)
  have "R w (fst (wire_onRecv p w)) \<and> keeps R (snd (wire_onRecv p w))" for w
    using keeps_after [OF ev R_recv] keeps_after [OF greet R_recv] keeps_after [OF ret R_recv]
      keeps_here [OF thr]
    by (auto simp: wire_onRecv_def Let_def split: sum.split connection_state.split server_packet.split)
  then show ?thesis by (simp add: keeps_async_def)
qed

lemma keeps_handle_packets: "keeps_async R (handle_packets parse texts)"
proof (induction texts)
  case Nil
  have "keeps_async R (return () :: (wire, unit) async)" by (rule keeps_return)
  note keeps_after [OF this R_flow]
  then show ?case by (simp add: keeps_async_def set_flowing_def)
next
  case (Cons t texts)
  have "keeps_async R (\<lambda>w. handle_packets parse texts (set_flowing True w))"
    using keeps_after [OF Cons R_flow] by (simp add: keeps_async_def set_flowing_def)
  then have "keeps_async R (await (attempt (wire_onRecv p)) (\<lambda>r. case r of Inl e \<Rightarrow> return ()
      | Inr _ \<Rightarrow> (\<lambda>w. handle_packets parse texts (set_flowing True w))))" for p
    by (intro keeps_await keeps_attempt keeps_onRecv) (simp add: keeps_return split: sum.split)
  then show ?case by (simp add: keeps_return split: option.split)
qed

lemma keeps_onStreamData: "keeps_async R (wire_onStreamData parse chunk)"
  using keeps_after [OF keeps_handle_packets R_buffer]
  by (simp add: keeps_async_def wire_onStreamData_def split: prod.split)

lemma wire_step_keeps:
  assumes "wire_step parse (w, ts) (w', ts')" and "list_all (\<lambda>(n, t). keeps R t) ts"
  shows "R w w' \<and> list_all (\<lambda>(n, t). keeps R t) ts'"
proof -
  have upd: "keeps R t' \<Longrightarrow> list_all (\<lambda>(n, t). keeps R t) (ts[i := (m, t')])" for i m t'
    using assms(2) by (auto simp: list_all_iff dest!: set_update_subset_insert [THEN subsetD])
  have nth: "i < length ts \<Longrightarrow> ts ! i = (n, t) \<Longrightarrow> keeps R t" for i n t
    using assms(2) by (auto simp: list_all_length)
  show ?thesis
    using assms(1)
  proof (cases rule: wire_step.cases)
    case (wire_data q chunk)
    then show ?thesis using keeps_here [OF keeps_onStreamData, of w parse chunk] assms(2) by (simp add: numbered_def)
  next
    case wire_end
    then show ?thesis using R_done assms(2) by simp
  next
    case (wire_call m q)
    then show ?thesis using keeps_here [OF R_session, of "wire_session w" m w] assms(2) by (simp add: numbered_def)
  next
    case wire_register
    then show ?thesis using R_register assms(2) by simp
  next
    case (wire_turn i n k q)
    then have "R w (fst (k w)) \<and> keeps R (snd (k w))" using nth [of i n "Turn k"] by simp
    with wire_turn show ?thesis using upd by (simp add: numbered_def)
  next
    case (wire_settled i n c h r q)
    then have "R w (fst (h r w)) \<and> keeps R (snd (h r w))" using nth [of i n "Await c h"] by simp
    with wire_settled show ?thesis using upd by (simp add: numbered_def)
  qed
qed

lemma wire_run_keeps:
  assumes "rtranclp (wire_step parse) (w, ts) (w', ts')" and "list_all (\<lambda>(n, t). keeps R t) ts"
  shows "R w w' \<and> list_all (\<lambda>(n, t). keeps R t) ts'"
  using assms(1)
proof (induction rule: rtranclp_induct2)
  case refl
  then show ?case using assms(2) R_refl by simp
next
  case (step w1 ts1 w2 ts2)
  then show ?case using wire_step_keeps [of parse w1 ts1 w2 ts2] R_trans [of w w1 w2] by blast
qed

lemma wire_reachable_keeps:
  assumes "wire_reachable parse (w, ts)"
  shows "R start_wire w \<and> list_all (\<lambda>(n, t). keeps R t) ts"
proof -
  let ?q = "in_session querySimulationStatus start_wire"
  have start: "R start_wire (fst ?q) \<and> keeps R (snd ?q)" by (rule keeps_here [OF R_query])
  then have "R (fst ?q) w \<and> list_all (\<lambda>(n, t). keeps R t) ts"
    using wire_run_keeps [of parse "fst ?q" "[numbered ?q]" w ts] assms
    by (simp add: wire_reachable_def new_wire_def Let_def numbered_def)
  then show ?thesis using start R_trans by blast
qed

end
section \<open>The session inside\<close>

lemma commit_session [simp]: "wire_session (commit s w) = s"
  by (simp add: commit_def)

lemma lift_keeps: "keeps R o' \<Longrightarrow> keeps (\<lambda>w w'. R (wire_session w) (wire_session w')) (lift_outcome o')"
  by (induction rule: keeps.induct) (simp_all add: lift_pair)

lemma in_session_keeps: "keeps_async R m \<Longrightarrow> keeps_async (\<lambda>w w'. R (wire_session w) (wire_session w')) (in_session m)"
  by (simp add: keeps_async_def in_session_pair lift_keeps)

sublocale status_relation \<subseteq> on_wire: wire_relation "\<lambda>w w'. R (wire_session w) (wire_session w')"
  using R_trans by unfold_locales (auto intro!: in_session_keeps session_api_keeps keeps_querySimulationStatus simp: R_refl)

section \<open>The connection inside\<close>

text \<open>What happens to the connection is a history of it that issues the commands of the session.\<close>

definition conn_follows :: "wire \<Rightarrow> wire \<Rightarrow> bool" where
  "conn_follows w w' \<longleftrightarrow>
     (\<exists>es. wire_conn w' = fold conn_step es (wire_conn w) \<and>
        sent (wire_session w') = sent (wire_session w) @ issued es)"

lemma issued_append: "issued (es @ fs) = issued es @ issued fs"
  by (induction es rule: issued.induct) simp_all

lemma conn_follows_one:
  "wire_session w' = wire_session w \<Longrightarrow> wire_conn w' = conn_step e (wire_conn w) \<Longrightarrow> issued [e] = [] \<Longrightarrow> conn_follows w w'"
  unfolding conn_follows_def by (intro exI [of _ "[e]"]) simp

lemma conn_follows_none: "wire_session w' = wire_session w \<Longrightarrow> wire_conn w' = wire_conn w \<Longrightarrow> conn_follows w w'"
  unfolding conn_follows_def by (intro exI [of _ "[]"]) simp

lemma conn_follows_trans: "conn_follows w w' \<Longrightarrow> conn_follows w' w'' \<Longrightarrow> conn_follows w w''"
  unfolding conn_follows_def by (metis append.assoc fold_append comp_apply issued_append)

lemma fold_perform: "fold perform_start cs c = fold conn_step (map EvSend cs) c"
  by (induction cs arbitrary: c) simp_all

lemma issued_sends: "issued (map EvSend cs) = cs"
  by (induction cs) simp_all

lemma commit_follows: "posting sent (wire_session w) q \<Longrightarrow> conn_follows w (commit (fst q) w)"
  by (auto simp: posting_def conn_follows_def commit_def fold_perform issued_sends intro!: exI [of _ "map EvSend cs" for cs])

lemma lift_follows: "segments (posting sent) o' \<Longrightarrow> keeps conn_follows (lift_outcome o')"
  by (induction rule: segments.induct) (auto simp: lift_pair commit_follows)

lemma in_session_follows: "posts sent m \<Longrightarrow> keeps_async conn_follows (in_session m)"
  by (simp add: keeps_async_def posts_def posts_at_def in_session_pair commit_follows lift_follows)

interpretation conn_follows: wire_relation conn_follows
proof unfold_locales
  fix p c and w :: wire
  assume "onLinkRecv p (wire_conn w) = Inr c"
  then show "conn_follows w (w\<lparr>wire_conn := c\<rparr>)" by (intro conn_follows_one [of _ _ "EvRecv p"]) simp_all
next
  show "session_api s m \<Longrightarrow> keeps_async conn_follows (in_session m)" for s m
    by (rule in_session_follows [OF session_api_posts])
  show "keeps_async conn_follows (in_session querySimulationStatus)"
    by (rule in_session_follows [OF posts_querySimulationStatus])
qed (auto intro: conn_follows_none conn_follows_trans conn_follows_one [of _ _ EvDone] conn_follows_one [of _ _ EvRegister])

section \<open>The numbers of the tasks\<close>

abbreviation wire_sent :: "wire \<Rightarrow> any_command list" where
  "wire_sent w \<equiv> sent (wire_session w)"

lemma lift_posting: "posting sent (wire_session w) q \<Longrightarrow> posting wire_sent w (commit (fst q) w, lift_outcome (snd q))"
  by (cases q; cases "snd q") (auto simp: posting_def)

lemma lift_segments: "segments (posting sent) o' \<Longrightarrow> segments (posting wire_sent) (lift_outcome o')"
  by (induction rule: segments.induct) (auto simp: lift_pair lift_posting)

lemma in_session_posts: "posts sent m \<Longrightarrow> posts wire_sent (in_session m)"
  by (simp add: posts_def posts_at_def in_session_pair lift_posting lift_segments)

lemma posts_onRecv: "posts_at wire_sent w (wire_onRecv p w)"
proof -
  have ev: "posts wire_sent (await (in_session (onEvent ev)) (\<lambda>_. return ()))" for ev
    by (intro postsI posts_await postsD [OF in_session_posts] posts_onEvent posts_basic)
  have greet: "posts wire_sent (await (return ()) (\<lambda>_. return ()))" by (intro postsI posts_await posts_basic)
  have ret: "posts wire_sent (return ())" by (intro postsI posts_basic)
  show ?thesis
    using posts_after [OF ev] posts_after [OF greet] posts_after [OF ret]
    by (auto simp: wire_onRecv_def Let_def split: sum.split connection_state.split server_packet.split)
qed

lemma posts_handle_packets: "posts wire_sent (handle_packets parse texts)"
proof (induction texts)
  case Nil
  show ?case by (auto simp: set_flowing_def return_def)
next
  case (Cons t texts)
  have "posts wire_sent (\<lambda>w. handle_packets parse texts (set_flowing True w))"
    by (intro postsI posts_after [OF Cons]) (simp add: set_flowing_def)
  then have "posts wire_sent (await (attempt (wire_onRecv p)) (\<lambda>r. case r of Inl e \<Rightarrow> return ()
      | Inr _ \<Rightarrow> (\<lambda>w. handle_packets parse texts (set_flowing True w))))" for p
    by (intro postsI posts_await posts_attempt posts_onRecv) (auto split: sum.split)
  then show ?case by (auto split: option.split)
qed

lemma posts_onStreamData: "posts wire_sent (wire_onStreamData parse chunk)"
  by (auto simp: wire_onStreamData_def intro!: posts_after [OF posts_handle_packets] split: prod.split)

text \<open>A task that waits has the number of the command it waits for in the order of issue.\<close>

definition task_ok :: "any_command list \<Rightarrow> nat \<times> (wire, unit) outcome \<Rightarrow> bool" where
  "task_ok cs = (\<lambda>(n, t). segments (posting wire_sent) t \<and>
     (case t of Await c h \<Rightarrow> n < length cs \<and> cs ! n = c | _ \<Rightarrow> True))"

definition wire_inv :: "wire_pool \<Rightarrow> bool" where
  "wire_inv q \<longleftrightarrow>
     next_command (wire_conn (fst q)) = length (wire_sent (fst q)) \<and> list_all (task_ok (wire_sent (fst q))) (snd q)"

lemma task_ok_grows: "task_ok cs t \<Longrightarrow> task_ok (cs @ ds) t"
  by (auto simp: task_ok_def nth_append split: outcome.splits)

lemma next_command_step: "next_command (conn_step e c) = next_command c + length (issued [e])"
proof (cases e)
  case (EvRecv p)
  then show ?thesis using traceRecv_frame receive_frame by (cases p) (auto simp: onLinkRecv_def split: sum.split)
qed (auto simp: perform_start_def perform_register_def onLinkDone_def conn_send_def traceSend_def Let_def split: list.split)

lemma next_command_run: "next_command (fold conn_step es c) = next_command c + length (issued es)"
proof (induction es arbitrary: c)
  case (Cons e es)
  have "issued (e # es) = issued [e] @ issued es" using issued_append [of "[e]" es] by simp
  then show ?case by (simp add: Cons next_command_step)
qed simp

lemma follows_counts:
  "conn_follows w w' \<Longrightarrow> next_command (wire_conn w) = length (wire_sent w) \<Longrightarrow>
     next_command (wire_conn w') = length (wire_sent w')"
  by (auto simp: conn_follows_def next_command_run)

text \<open>The number a segment ends with is that of the command it waits for.\<close>

lemma numbered_ok:
  assumes "posts_at wire_sent w q" "next_command (wire_conn (fst q)) = length (wire_sent (fst q))"
  shows "task_ok (wire_sent (fst q)) (numbered q)"
proof -
  obtain cs where cs: "wire_sent (fst q) = wire_sent w @ cs"
      "case snd q of Await c h \<Rightarrow> cs \<noteq> [] \<and> last cs = c | _ \<Rightarrow> True" "segments (posting wire_sent) (snd q)"
    using assms(1) by (auto simp: posts_at_def posting_def)
  have "next_command (wire_conn (fst q)) - 1 = length (wire_sent w) + (length cs - 1)" if "cs \<noteq> []"
    using that assms(2) by (cases cs) (simp_all add: cs(1))
  then have "cs \<noteq> [] \<Longrightarrow> wire_sent (fst q) ! (next_command (wire_conn (fst q)) - 1) = last cs"
    by (simp add: cs(1) last_conv_nth nth_append)
  moreover have "cs \<noteq> [] \<Longrightarrow> next_command (wire_conn (fst q)) - 1 < length (wire_sent (fst q))"
    using assms(2) by (simp add: cs(1))
  ultimately show ?thesis
    using cs(2,3) by (simp add: task_ok_def numbered_def split: outcome.splits)
qed

lemma wire_inv_added:
  assumes "wire_inv (w, ts)" "conn_follows w (fst q)" "posts_at wire_sent w q"
  shows "wire_inv (fst q, ts @ [numbered q]) \<and> wire_inv (fst q, ts[i := numbered q])"
proof -
  have count: "next_command (wire_conn (fst q)) = length (wire_sent (fst q))"
    using assms(1,2) follows_counts by (simp add: wire_inv_def)
  have new: "task_ok (wire_sent (fst q)) (numbered q)" by (rule numbered_ok [OF assms(3) count])
  have old: "list_all (task_ok (wire_sent (fst q))) ts"
    using assms(1,2) task_ok_grows by (auto simp: wire_inv_def conn_follows_def list_all_iff)
  with new have "list_all (task_ok (wire_sent (fst q))) (ts[i := numbered q])"
    by (auto simp: list_all_iff dest!: set_update_subset_insert [THEN subsetD])
  with new old count show ?thesis by (simp add: wire_inv_def)
qed

lemma wire_inv_step:
  assumes "wire_inv (w, ts)" "list_all (\<lambda>(n, t). keeps conn_follows t) ts" "wire_step parse (w, ts) (w', ts')"
  shows "wire_inv (w', ts')"
proof -
  have nth: "i < length ts \<Longrightarrow> ts ! i = (n, t) \<Longrightarrow> keeps conn_follows t \<and> segments (posting wire_sent) t" for i n t
    using assms(1,2) by (auto simp: wire_inv_def task_ok_def list_all_length split: prod.splits)
  show ?thesis
    using assms(3)
  proof (cases rule: wire_step.cases)
    case (wire_data q chunk)
    then show ?thesis
      using wire_inv_added [OF assms(1)] conn_follows.keeps_here [OF conn_follows.keeps_onStreamData, of w parse chunk]
        postsD [OF posts_onStreamData, of w parse chunk] by simp
  next
    case (wire_call m q)
    then show ?thesis
      using wire_inv_added [OF assms(1)] conn_follows.keeps_here [OF conn_follows.R_session, of "wire_session w" m w]
        postsD [OF in_session_posts, of m w] session_api_posts by simp
  next
    case wire_end
    then show ?thesis using assms(1) follows_counts [OF conn_follows.R_done, of w] by (simp add: wire_inv_def)
  next
    case wire_register
    then show ?thesis using assms(1) follows_counts [OF conn_follows.R_register, of w] by (simp add: wire_inv_def)
  next
    case (wire_turn i n k q)
    then show ?thesis
      using wire_inv_added [OF assms(1), of q i] nth [of i n "Turn k"] by (auto simp: posts_at_def)
  next
    case (wire_settled i n c h r q)
    then show ?thesis
      using wire_inv_added [OF assms(1), of q i] nth [of i n "Await c h"] by (auto simp: posts_at_def)
  qed
qed

lemma wire_inv_run:
  assumes "rtranclp (wire_step parse) (w, ts) (w', ts')"
    and "wire_inv (w, ts)" "list_all (\<lambda>(n, t). keeps conn_follows t) ts"
  shows "wire_inv (w', ts')"
  using assms(1)
proof (induction rule: rtranclp_induct2)
  case refl
  then show ?case by (rule assms(2))
next
  case (step w1 ts1 w2 ts2)
  then show ?case using conn_follows.wire_run_keeps [OF step.hyps(1) assms(3)] wire_inv_step by blast
qed

lemma reachable_wire_inv:
  assumes "wire_reachable parse (w, ts)"
  shows "wire_inv (w, ts)"
proof -
  let ?q = "in_session querySimulationStatus start_wire"
  have f: "conn_follows start_wire (fst ?q) \<and> keeps conn_follows (snd ?q)"
    by (rule conn_follows.keeps_here [OF conn_follows.R_query])
  have "wire_inv (start_wire, [])"
    by (simp add: wire_inv_def start_wire_def blank_session_def new_Connection_def conn_send_def traceSend_def
        blank_connection_def)
  then have "wire_inv (fst ?q, [] @ [numbered ?q])"
    using wire_inv_added [of start_wire "[]" ?q] f postsD [OF in_session_posts [OF posts_querySimulationStatus]] by blast
  then show ?thesis
    using wire_inv_run [of parse "fst ?q" "[numbered ?q]" w ts] assms f
    by (simp add: wire_reachable_def new_wire_def Let_def numbered_def)
qed

section \<open>A handler that blocks the stream\<close>

text \<open>A segment that neither touches the stream nor settles a command of a connected connection.\<close>

definition quiet :: "wire \<Rightarrow> wire \<Rightarrow> bool" where
  "quiet w w' \<longleftrightarrow>
     flowing w' = flowing w \<and>
     (conn_state (wire_conn w) = Connected \<longrightarrow>
        conn_state (wire_conn w') = Connected \<and> settled (wire_conn w') = settled (wire_conn w))"

interpretation quiet: segment_relation quiet
  by unfold_locales (auto simp: quiet_def)

lemma perform_connected:
  "conn_state c = Connected \<Longrightarrow> conn_state (perform_start cmd c) = Connected \<and> settled (perform_start cmd c) = settled c"
  by (simp add: perform_start_def conn_send_def traceSend_def Let_def)

lemma quiet_commit: "quiet w (commit s w)"
proof -
  have "conn_state c = Connected \<Longrightarrow>
      conn_state (fold perform_start cs c) = Connected \<and> settled (fold perform_start cs c) = settled c" for cs c
    by (induction cs arbitrary: c) (simp_all add: perform_connected)
  then show ?thesis by (simp add: quiet_def commit_def)
qed

text \<open>The segments of the session's tasks keep what giving its commands to the connection keeps.\<close>

lemma lift_commits:
  assumes "\<And>w s. R w (commit s w)"
  shows "keeps R (lift_outcome o')"
proof (induction o')
  case (Turn k)
  have "keeps R (lift_outcome (snd (k s)))" for s
  proof -
    have "snd (k s) \<in> Basic_BNFs.snds (k s)" by (cases "k s") simp
    from Turn [OF rangeI this] show ?thesis .
  qed
  then show ?case by (simp add: lift_pair assms)
next
  case (Await c h)
  have "keeps R (lift_outcome (snd (h r s)))" for r s
  proof -
    have "snd (h r s) \<in> Basic_BNFs.snds (h r s)" by (cases "h r s") simp
    from Await [OF rangeI rangeI this] show ?thesis .
  qed
  then show ?case by (simp add: lift_pair assms)
qed simp

lemma quiet_lift: "keeps quiet (lift_outcome o')"
  by (rule lift_commits) (rule quiet_commit)

lemma quiet_in_session: "keeps_async quiet (in_session m)"
  by (simp add: keeps_async_def in_session_pair quiet_commit quiet_lift)

definition waiting :: "('s, 'a) outcome \<Rightarrow> bool" where
  "waiting o' = (case o' of Await c h \<Rightarrow> True | _ \<Rightarrow> False)"

definition wedged :: "nat \<Rightarrow> wire_pool \<Rightarrow> bool" where
  "wedged n q \<longleftrightarrow>
     \<not> flowing (fst q) \<and> conn_state (wire_conn (fst q)) = Connected \<and> n < length (snd q) \<and>
     waiting (snd (snd q ! n)) \<and> fst (snd q ! n) \<notin> fst ` set (settled (wire_conn (fst q))) \<and>
     (\<forall>i < length (snd q). i = n \<or> keeps quiet (snd (snd q ! i)))"

lemma wedged_step:
  assumes "wedged n (w, ts)" "wire_step parse (w, ts) (w', ts')"
  shows "wedged n (w', ts') \<and> ts' ! n = ts ! n \<and> settled (wire_conn w') = settled (wire_conn w)"
proof -
  have moved: "wedged n (w', ts[i := numbered q]) \<and> ts[i := numbered q] ! n = ts ! n \<and>
      settled (wire_conn w') = settled (wire_conn w)"
    if "i \<noteq> n" "i < length ts" "quiet w w'" "keeps quiet (snd q)" for i q
    using that assms(1) by (auto simp: wedged_def quiet_def nth_list_update numbered_def)
  show ?thesis
    using assms(2)
  proof (cases rule: wire_step.cases)
    case (wire_call m q)
    then have "quiet w w' \<and> keeps quiet (snd q)" using quiet_in_session [of m] by (simp add: keeps_async_def)
    then show ?thesis using assms(1) wire_call by (auto simp: wedged_def quiet_def nth_append less_Suc_eq numbered_def)
  next
    case wire_register
    then show ?thesis using assms(1) by (auto simp: wedged_def perform_register_def split: list.splits)
  next
    case (wire_turn i m k q)
    then have "i \<noteq> n" using assms(1) by (auto simp: wedged_def waiting_def)
    then have "keeps quiet (Turn k)" using assms(1) wire_turn(3,4) by (auto simp: wedged_def)
    then show ?thesis using moved [of i q] \<open>i \<noteq> n\<close> wire_turn by simp
  next
    case (wire_settled i m c h r q)
    then have "i \<noteq> n" using assms(1) by (force simp: wedged_def)
    then have "keeps quiet (Await c h)" using assms(1) wire_settled(3,4) by (auto simp: wedged_def)
    then show ?thesis using moved [of i q] \<open>i \<noteq> n\<close> wire_settled by simp
  qed (use assms(1) in \<open>simp_all add: wedged_def\<close>)
qed

lemma wedged_run:
  assumes "wedged n (w, ts)" "rtranclp (wire_step parse) (w, ts) (w', ts')"
  shows "wedged n (w', ts') \<and> ts' ! n = ts ! n \<and> settled (wire_conn w') = settled (wire_conn w)"
  using assms(2)
proof (induction rule: rtranclp_induct2)
  case refl
  then show ?case using assms(1) by simp
next
  case (step w1 ts1 w2 ts2)
  then show ?case using wedged_step [of n w1 ts1 parse w2 ts2] by simp
qed

text \<open>The connection's handler as the link's loop sees it: it fails or not, and leaves a connection.\<close>

definition conn_recv :: "server_packet \<Rightarrow> connection \<Rightarrow> bool \<times> connection" where
  "conn_recv p c = (case onLinkRecv p c of Inl e \<Rightarrow> (False, c) | Inr c' \<Rightarrow> (True, c'))"

definition event_free :: "(string \<Rightarrow> server_packet option) \<Rightarrow> string list \<Rightarrow> bool" where
  "event_free parse texts \<longleftrightarrow> list_all (\<lambda>t. case parse t of Some (SrvEvent ev) \<Rightarrow> False | _ \<Rightarrow> True) texts"

lemma run_onRecv:
  assumes "case p of SrvEvent ev \<Rightarrow> False | _ \<Rightarrow> True"
  shows "run server (wire_onRecv p) w =
    (w\<lparr>wire_conn := snd (conn_recv p (wire_conn w))\<rparr>,
     case onLinkRecv p (wire_conn w) of Inl e \<Rightarrow> Inl e | Inr c \<Rightarrow> Inr ())"
proof (cases "onLinkRecv p (wire_conn w)")
  case (Inl e)
  then show ?thesis by (simp add: run_def wire_onRecv_def throw_def conn_recv_def)
next
  case (Inr c)
  show ?thesis
  proof (cases "\<exists>g. conn_state (wire_conn w) = Initializing \<and> p = SrvGreeting g \<and> sg_version g = 0")
    case True
    then have "run server (wire_onRecv p) w = run server (await (return ()) (\<lambda>_. return ())) (w\<lparr>wire_conn := c\<rparr>)"
      using Inr by (auto simp: run_def wire_onRecv_def)
    then show ?thesis by (simp add: Inr conn_recv_def)
  next
    case False
    then have "run server (wire_onRecv p) w = run server (return ()) (w\<lparr>wire_conn := c\<rparr>)"
      using assms Inr by (cases p; cases "conn_state (wire_conn w)") (simp_all add: run_def wire_onRecv_def)
    then show ?thesis by (simp add: Inr conn_recv_def)
  qed
qed

lemma run_handle_packets:
  "event_free parse texts \<Longrightarrow>
     run server (handle_packets parse texts) w =
       (w\<lparr>wire_conn := fold (\<lambda>t. conn_step (EvRecv (the (parse t))))
            (take (accepted parse conn_recv texts (wire_conn w)) texts) (wire_conn w),
          resumed := resumed w \<or> texts = [] \<or> accepted parse conn_recv texts (wire_conn w) \<noteq> 0\<rparr>, Inr ())"
proof (induction texts arbitrary: w)
  case Nil
  have "run server (handle_packets parse []) w = run server (return ()) (set_flowing True w)" by (simp add: run_def)
  then show ?case by (simp add: set_flowing_def)
next
  case (Cons t texts)
  show ?case
  proof (cases "parse t")
    case None
    then show ?thesis by simp
  next
    case (Some p)
    have "case p of SrvEvent ev \<Rightarrow> False | _ \<Rightarrow> True" using Cons.prems by (auto simp: event_free_def Some)
    note recv = run_onRecv [OF this, of server w]
    have free: "event_free parse texts" using Cons.prems by (simp add: event_free_def)
    have again: "run server (\<lambda>w. handle_packets parse texts (w\<lparr>resumed := True\<rparr>)) v =
        run server (handle_packets parse texts) (v\<lparr>resumed := True\<rparr>)" for v
      by (simp add: run_def)
    show ?thesis
    proof (cases "onLinkRecv p (wire_conn w)")
      case (Inl e)
      then show ?thesis using recv by (simp add: Some conn_recv_def)
    next
      case (Inr c)
      then show ?thesis using recv
        by (simp add: Some conn_recv_def again Cons.IH [OF free] set_flowing_def split: if_splits)
    qed
  qed
qed

section \<open>Properties\<close>

text \<open>C8: the handler of a chunk without events implements the packet loop.  Left to run to its end, whatever the
  state of the wire, it asks the server nothing and does exactly this: the unfinished rest of the
  chunk is buffered; the packets before the first one that cannot be read, or that makes the
  connection's handler throw, go to the connection in their order in the chunk, and no other does; the
  session is not touched; and the stream ends up paused exactly when the very first packet was such a
  one, resumed otherwise.  While the first packet is being handled the stream is paused.\<close>

theorem chunk_handler_in_order:
  assumes "split_chunk chunk (recvBuffer w) = (buffer, texts)" "event_free parse texts"
    and "n = accepted parse conn_recv texts (wire_conn w)"
  shows "run server (wire_onStreamData parse chunk) w =
      (w\<lparr>recvBuffer := buffer,
         wire_conn := fold conn_step (map (\<lambda>t. EvRecv (the (parse t))) (take n texts)) (wire_conn w),
         resumed := (texts = [] \<or> n \<noteq> 0)\<rparr>, Inr ())
    \<and> (flowing (fst (wire_onStreamData parse chunk w)) \<longleftrightarrow> texts = [] \<and> \<not> stream_destroyed w)"
proof -
  let ?w = "w\<lparr>recvBuffer := buffer, resumed := False\<rparr>"
  have start: "wire_onStreamData parse chunk w = handle_packets parse texts ?w"
    using assms(1) by (simp add: wire_onStreamData_def)
  then have "run server (wire_onStreamData parse chunk) w = run server (handle_packets parse texts) ?w"
    by (simp add: run_def)
  moreover have "flowing (fst (handle_packets parse texts ?w)) \<longleftrightarrow> texts = [] \<and> \<not> stream_destroyed w"
  proof (cases texts)
    case Nil
    then show ?thesis by (simp add: return_def set_flowing_def)
  next
    case (Cons t ts)
    have "resumed (fst (wire_onRecv p ?w)) = False" if "parse t = Some p" for p
      using that assms(2)
      by (cases p; cases "conn_state (wire_conn w)")
        (simp_all add: wire_onRecv_def event_free_def Cons Let_def return_def throw_def await_def split: sum.split)
    then show ?thesis using Cons
      by (cases "parse t") (simp_all add: return_def await_def attempt_def split_beta)
  qed
  ultimately show ?thesis
    using run_handle_packets [OF assms(2), of server ?w] start by (simp add: assms(3) fold_map comp_def)
qed

text \<open>C10: an event at the head of a chunk blocks the session for ever.  The stream is paused while the chunk is
  handled, the handler of the event awaits the reply to a status query of its own, and a paused
  stream delivers nothing: when no other chunk is in the middle of being handled, then in every
  continuation, whatever the user does and the server sends, the stream stays paused, no command is
  answered any more, and the handler stays where it is.\<close>

theorem event_first_wedges:
  assumes "wire_reachable parse (w, ts)" and "conn_state (wire_conn w) = Connected"
    and "list_all (\<lambda>(n, t). keeps quiet t) ts"
    and "split_chunk chunk (recvBuffer w) = (buffer, t # texts)" and "parse t = Some (SrvEvent ev)"
    and "q = wire_onStreamData parse chunk w"
    and "rtranclp (wire_step parse) (fst q, ts @ [numbered q]) (w2, ts2)"
  shows "\<not> flowing w2 \<and> settled (wire_conn w2) = settled (wire_conn w) \<and>
    length ts < length ts2 \<and> ts2 ! length ts = numbered q \<and> waiting (snd q)"
proof -
  let ?c = "wire_conn w\<lparr>notified := notified (wire_conn w) @ [NotifyEvent ev]\<rparr>"
  let ?w = "w\<lparr>recvBuffer := buffer, resumed := False, wire_conn := ?c\<rparr>"
  let ?s = "post get_status_command (clear_timeout (wire_session w))"
  have sent: "sent (clear_timeout (wire_session w)) = sent (wire_session w)"
    by (simp add: clear_timeout_def split: option.split)
  have q: "fst q = commit ?s ?w \<and> waiting (snd q)"
    using assms(2,4,5,6)
    by (cases ev; simp add: wire_onStreamData_def wire_onRecv_def onLinkRecv_def traceRecv_def receive_def
        attempt_def await_def in_session_pair onEvent_def querySimulationStatus_def request_def waiting_def)
  have "conn_follows start_wire w" using conn_follows.wire_reachable_keeps [OF assms(1)] by blast
  then have "conn_inv (wire_conn w)" using inv_run [OF inv_new_Connection] by (auto simp: conn_follows_def start_wire_def)
  then have "mset (accounted (wire_conn w)) = mset [0..<next_command (wire_conn w)]" by (simp add: conn_inv_def)
  then have "set (accounted (wire_conn w)) = {0..<next_command (wire_conn w)}"
    by (metis set_mset_mset set_upt)
  then have fresh: "next_command (wire_conn w) \<notin> fst ` set (settled (wire_conn w))"
    by (auto simp: accounted_def)
  have conn: "wire_conn (fst q) = perform_start get_status_command ?c"
    by (simp add: q commit_def post_def sent)
  then have conn': "conn_state (wire_conn (fst q)) = Connected" "settled (wire_conn (fst q)) = settled (wire_conn w)"
    "next_command (wire_conn (fst q)) = Suc (next_command (wire_conn w))"
    using assms(2) by (simp_all add: perform_start_def conn_send_def traceSend_def Let_def)
  have others: "\<forall>i < length ts. keeps quiet (snd (ts ! i))"
    using assms(3) by (simp add: list_all_length split_beta)
  have paused: "\<not> flowing (fst q)" by (simp add: q commit_def)
  have "wedged (length ts) (fst q, ts @ [numbered q])"
    using others paused q conn' fresh by (auto simp: wedged_def numbered_def nth_append less_Suc_eq)
  from wedged_run [OF this assms(7)] q conn' show ?thesis by (auto simp: wedged_def)
qed

text \<open>The greeting handled, on a wire whose packets are single letters.\<close>

definition example_event :: any_event where
  "example_event = EvSimulationPaused (EventSimulationPaused ''0.0'' UntilTime)"

definition example_parse :: "string \<Rightarrow> server_packet option" where
  "example_parse t =
     (if t = ''g'' then Some (SrvGreeting (ServerGreeting 0 [] [] (Features [])))
      else if t = ''e'' then Some (SrvEvent example_event)
      else if t = ''r'' then Some (SrvResponse (ResRunSimulation ResponseRunSimulation))
      else if t = ''s'' then Some (SrvResponse (ResGetSimulationStatus (StatusRunning ''0.0'')))
      else None)"

lemma last_turn:
  "rtranclp (wire_step parse) (w, ts @ [numbered (v, Turn k)]) (fst (k w), ts @ [numbered (k w)])"
proof -
  have "wire_step parse (w, ts @ [numbered (v, Turn k)]) (fst (k w), (ts @ [numbered (v, Turn k)])[length ts := numbered (k w)])"
    by (rule wire_turn [where n = "fst (numbered (v, Turn k))" and k = k]) (simp_all add: numbered_def)
  then show ?thesis by simp
qed

lemma data_step:
  "flowing w \<Longrightarrow> rtranclp (wire_step parse) (w, ts)
     (fst (wire_onStreamData parse chunk w), ts @ [numbered (wire_onStreamData parse chunk w)])"
  by (rule r_into_rtranclp) (rule wire_data, simp_all)

lemma greeting_handled:
  assumes "flowing w" "conn_state (wire_conn w) = Initializing" "recvBuffer w = []"
  shows "\<exists>w' n m. rtranclp (wire_step example_parse) (w, ts) (w', ts @ [(n, Done m)]) \<and>
    conn_state (wire_conn w') = Connected \<and> recvBuffer w' = [''''] \<and> flowing w' \<and> wire_session w' = wire_session w"
proof -
  let ?q = "wire_onStreamData example_parse (''g'' @ [NUL]) w"
  let ?c = "(wire_conn w)\<lparr>conn_commands := [], conn_events := [], conn_itemValuesEncodings := [], conn_state := Connected,
    notified := notified (wire_conn w) @ [NotifyConnected]\<rparr>"
  have q: "?q = (w\<lparr>recvBuffer := [''''], resumed := False, wire_conn := ?c\<rparr>,
      Turn (\<lambda>w. (w, Turn (\<lambda>w. return () (set_flowing True w)))))"
    using assms
    by (simp add: wire_onStreamData_def split_chunk_def NUL_def example_parse_def wire_onRecv_def onLinkRecv_def
        traceRecv_def receive_def await_def attempt_def return_def)
  let ?w = "w\<lparr>recvBuffer := [''''], resumed := False, wire_conn := ?c\<rparr>"
  let ?k = "\<lambda>w. return () (set_flowing True w) :: wire \<times> (wire, unit) outcome"
  note data = data_step [OF assms(1), of example_parse ts "''g'' @ [NUL]", unfolded q fst_conv]
  note turn = last_turn [of example_parse ?w ts ?w "\<lambda>w. (w, Turn ?k)", unfolded fst_conv]
  note last = last_turn [of example_parse ?w ts ?w ?k]
  have "fst (?k ?w) = set_flowing True ?w" "\<exists>n. numbered (?k ?w) = (n, Done (Inr ()))"
    by (simp_all add: return_def numbered_def)
  then obtain n where n: "rtranclp (wire_step example_parse) (w, ts) (set_flowing True ?w, ts @ [(n, Done (Inr ()))])"
    using rtranclp_trans [OF rtranclp_trans [OF data turn] last] by auto
  then show ?thesis using assms(1) by (intro exI [of _ "set_flowing True ?w"]) (auto simp: set_flowing_def)
qed

lemma example_greeted:
  "\<exists>w n m. wire_reachable example_parse (w, snd new_wire @ [(n, Done m)]) \<and> flowing w \<and>
     conn_state (wire_conn w) = Connected \<and> recvBuffer w = ['''']"
proof -
  have "flowing (fst new_wire)" "conn_state (wire_conn (fst new_wire)) = Initializing" "recvBuffer (fst new_wire) = []"
    by (simp_all add: new_wire_def start_wire_def in_session_pair commit_def querySimulationStatus_def clear_timeout_def
        blank_session_def await_def request_def post_def new_Connection_def conn_send_def traceSend_def
        blank_connection_def perform_start_def Let_def)
  from greeting_handled [OF this, of "snd new_wire"] show ?thesis by (auto simp: wire_reachable_def)
qed

lemma new_wire_task: "snd new_wire = [numbered (in_session querySimulationStatus start_wire)]"
  by (simp add: new_wire_def Let_def)

lemma example_connected:
  "\<exists>w ts. wire_reachable example_parse (w, ts) \<and> flowing w \<and> conn_state (wire_conn w) = Connected \<and>
     list_all (\<lambda>(n, t). keeps quiet t) ts \<and> recvBuffer w = ['''']"
proof -
  obtain w n m where "wire_reachable example_parse (w, snd new_wire @ [(n, Done m)])" "flowing w"
    "conn_state (wire_conn w) = Connected" "recvBuffer w = ['''']"
    using example_greeted by blast
  moreover have "keeps quiet (snd (numbered (in_session querySimulationStatus start_wire)))"
    using quiet_in_session [of querySimulationStatus] by (simp add: numbered_def keeps_async_def)
  ultimately show ?thesis
    by (intro exI [of _ w] exI [of _ "snd new_wire @ [(n, Done m)]"]) (simp add: new_wire_task split_beta)
qed

theorem event_first_wedges_witness:
  "\<exists>w ts. wire_reachable example_parse (w, ts) \<and>
     (\<forall>w2 ts2. rtranclp (wire_step example_parse)
          (fst (wire_onStreamData example_parse (''e'' @ [NUL]) w),
           ts @ [numbered (wire_onStreamData example_parse (''e'' @ [NUL]) w)]) (w2, ts2) \<longrightarrow>
        \<not> flowing w2 \<and> settled (wire_conn w2) = settled (wire_conn w))"
proof -
  obtain w ts where w: "wire_reachable example_parse (w, ts)" "conn_state (wire_conn w) = Connected"
    "list_all (\<lambda>(n, t). keeps quiet t) ts" "recvBuffer w = ['''']"
    using example_connected by blast
  have "split_chunk (''e'' @ [NUL]) (recvBuffer w) = ([''''], [''e''])" "example_parse ''e'' = Some (SrvEvent example_event)"
    by (simp_all add: w(4) split_chunk_def NUL_def example_parse_def)
  note event_first_wedges [OF w(1-3) this refl]
  with w(1) show ?thesis by blast
qed

theorem chunk_handler_in_order_witness:
  "\<forall>server. run server (wire_onStreamData example_parse (''g'' @ [NUL] @ ''x'' @ [NUL])) start_wire =
     (start_wire\<lparr>recvBuffer := [[]], wire_conn := conn_step (EvRecv (SrvGreeting (ServerGreeting 0 [] [] (Features [])))) new_Connection,
        resumed := True\<rparr>, Inr ())"
proof
  fix server
  have cut: "split_chunk (''g'' @ [NUL] @ ''x'' @ [NUL]) (recvBuffer start_wire) = ([[]], [''g'', ''x''])"
    by (simp add: split_chunk_def NUL_def start_wire_def)
  have "event_free example_parse [''g'', ''x'']" by (simp add: event_free_def example_parse_def)
  moreover have "accepted example_parse conn_recv [''g'', ''x''] (wire_conn start_wire) = 1"
    by (simp add: example_parse_def conn_recv_def onLinkRecv_def traceRecv_def)
  ultimately show "run server (wire_onStreamData example_parse (''g'' @ [NUL] @ ''x'' @ [NUL])) start_wire =
     (start_wire\<lparr>recvBuffer := [[]], wire_conn := conn_step (EvRecv (SrvGreeting (ServerGreeting 0 [] [] (Features [])))) new_Connection,
        resumed := True\<rparr>, Inr ())"
    using chunk_handler_in_order [OF cut, of example_parse 1 server] by (simp add: example_parse_def start_wire_def)
qed

text \<open>C11: an event in the middle of a chunk lets later replies overtake earlier ones.  While the handler of the
  chunk awaits the handler of the event, the stream is flowing again, so the next chunk is handled at
  once, and its replies are handed to the waiting commands before those left in the first chunk:
  although the server has answered in order, the second command gets the third reply.\<close>

theorem event_lets_replies_overtake:
  assumes "flowing w" "in_step (wire_conn w)" "promises (wire_conn w) = i # j # rest"
    and "split_chunk chunk (recvBuffer w) = (b, [t1, t2, t3])" "split_chunk chunk' b = (b', [t4])"
    and "parse t1 = Some (SrvResponse r1)" "parse t2 = Some (SrvEvent ev)" "parse t3 = Some (SrvResponse r2)"
    and "parse t4 = Some (SrvResponse r3)"
  shows "\<exists>w' ts'. rtranclp (wire_step parse) (w, ts) (w', ts') \<and>
    settled (wire_conn w') = settled (wire_conn w) @ [(i, Inr r1), (j, Inr r3)]"
proof -
  let ?c = "wire_conn w"
  let ?c1 = "?c\<lparr>timestamps := timestamps ?c - 1, recvIndex := Suc (recvIndex ?c), promises := j # rest,
    settled := settled ?c @ [(i, Inr r1)]\<rparr>"
  let ?w1 = "w\<lparr>recvBuffer := b, resumed := False, wire_conn := ?c1\<rparr>"
  let ?k = "\<lambda>w. handle_packets parse [t2, t3] (set_flowing True w)"
  have counts: "conn_state ?c = Connected" "1 < timestamps ?c" using assms(2,3) by (auto simp: in_step_def)
  have q1: "wire_onStreamData parse chunk w = (?w1, Turn ?k)"
    using assms(3,4,6) counts
    by (simp add: wire_onStreamData_def wire_onRecv_def onLinkRecv_def traceRecv_def receive_def settle_next_def
        await_def attempt_def return_def)
  have event: "conn_state (wire_conn (fst (?k ?w1))) = Connected \<and> 0 < timestamps (wire_conn (fst (?k ?w1))) \<and>
      promises (wire_conn (fst (?k ?w1))) = j # rest \<and> flowing (fst (?k ?w1)) \<and> recvBuffer (fst (?k ?w1)) = b \<and>
      settled (wire_conn (fst (?k ?w1))) = settled ?c @ [(i, Inr r1)]"
    using assms(1,7) counts
    by (cases ev; cases "simulationStatusTimeout (wire_session w)";
        simp add: wire_onRecv_def onLinkRecv_def traceRecv_def receive_def await_def attempt_def in_session_pair commit_def
          onEvent_def querySimulationStatus_def request_def post_def clear_timeout_def set_flowing_def perform_start_def
          conn_send_def traceSend_def Let_def)
  let ?w2 = "fst (?k ?w1)"
  have last: "settled (wire_conn (fst (wire_onStreamData parse chunk' ?w2))) = settled ?c @ [(i, Inr r1), (j, Inr r3)]"
    using event assms(5,9)
    by (simp add: wire_onStreamData_def wire_onRecv_def onLinkRecv_def traceRecv_def receive_def settle_next_def
        await_def attempt_def return_def del: handle_packets.simps(1))
  note data = data_step [OF assms(1), of parse ts chunk, unfolded q1 fst_conv]
  note turn = last_turn [of parse ?w1 ts ?w1 ?k]
  have "rtranclp (wire_step parse) (w, ts)
      (fst (wire_onStreamData parse chunk' ?w2),
       (ts @ [numbered (?k ?w1)]) @ [numbered (wire_onStreamData parse chunk' ?w2)])"
    by (rule rtranclp_trans [OF rtranclp_trans [OF data turn] data_step]) (use event in blast)
  with last show ?thesis by blast
qed

definition busy_wire :: wire where
  "busy_wire = start_wire\<lparr>wire_conn := fold conn_step
     [EvSend (CmdRunSimulation (CommandRunSimulation None [] True)), EvSend get_status_command, EvRegister, EvRegister]
     (greeted (ServerGreeting 0 [] [] (Features [])))\<rparr>"

theorem event_lets_replies_overtake_witness:
  "\<exists>w' ts'. rtranclp (wire_step example_parse) (busy_wire, []) (w', ts') \<and>
     settled (wire_conn w') =
       [(0, Inr (ResRunSimulation ResponseRunSimulation)), (1, Inr (ResRunSimulation ResponseRunSimulation))]"
proof -
  have c: "in_step (wire_conn busy_wire)" "promises (wire_conn busy_wire) = [0, 1]" "settled (wire_conn busy_wire) = []"
    "flowing busy_wire" "recvBuffer busy_wire = []"
    by (simp_all add: busy_wire_def start_wire_def greeted_def new_Connection_def conn_send_def traceSend_def
        blank_connection_def onLinkRecv_def traceRecv_def receive_def perform_start_def perform_register_def in_step_def Let_def)
  have split: "split_chunk (''r'' @ NUL # ''e'' @ NUL # ''s'' @ [NUL]) (recvBuffer busy_wire) = ([''''], [''r'', ''e'', ''s''])"
    "split_chunk (''r'' @ [NUL]) [''''] = ([''''], [''r''])"
    by (simp_all add: c(5) split_chunk_def NUL_def)
  have parse: "example_parse ''r'' = Some (SrvResponse (ResRunSimulation ResponseRunSimulation))"
    "example_parse ''e'' = Some (SrvEvent example_event)"
    "example_parse ''s'' = Some (SrvResponse (ResGetSimulationStatus (StatusRunning ''0.0'')))"
    by (simp_all add: example_parse_def)
  show ?thesis
    using event_lets_replies_overtake [OF c(4,1,2) split parse parse(1)] by (simp only: c(3) append_Nil)
qed

lemma disconnected_run: "conn_state c = Disconnected \<Longrightarrow> conn_state (fold conn_step es c) = Disconnected"
proof (induction es arbitrary: c)
  case (Cons e es)
  then have "conn_state (conn_step e c) = Disconnected"
    using receive_frame traceRecv_frame
    by (cases e) (auto simp: perform_start_def conn_send_def traceSend_def perform_register_def onLinkRecv_def
        onLinkDone_def Let_def split: list.split sum.split)
  then show ?case by (simp add: Cons.IH)
qed simp

lemma connected_never_done:
  "conn_state (fold conn_step es c) \<noteq> Disconnected \<Longrightarrow> EvDone \<notin> set es"
proof
  assume "EvDone \<in> set es"
  then obtain as bs where "es = as @ EvDone # bs" by (auto simp: in_set_conv_decomp)
  then have "fold conn_step es c = fold conn_step bs (onLinkDone (fold conn_step as c))" by simp
  moreover have "conn_state (onLinkDone (fold conn_step as c)) = Disconnected" by (simp add: onLinkDone_def Let_def)
  moreover assume "conn_state (fold conn_step es c) \<noteq> Disconnected"
  ultimately show False using disconnected_run by metis
qed

text \<open>C20: until the link is done, what the socket carries to the server is exactly the greeting and the commands
  the session has issued, in order: however the written text is cut into chunks, cutting it at the
  separators gives the JSON texts of these packets, with nothing left over.\<close>

theorem server_receives_commands:
  assumes "wire_reachable parse (w, ts)" and "conn_state (wire_conn w) \<noteq> Disconnected"
    and "concat chunks = concat (fold link_send (outbox (wire_conn w)) [])"
  shows "snd (absorb_all split_chunk chunks []) =
      map (stringify \<circ> json_client_packet) (PktGreeting (ClientGreeting 0) # map PktCommand (sent (wire_session w)))
    \<and> concat (fst (absorb_all split_chunk chunks [])) = ''''"
proof -
  have "conn_follows start_wire w" using conn_follows.wire_reachable_keeps [OF assms(1)] by blast
  then obtain es where es: "wire_conn w = fold conn_step es new_Connection" "issued es = wire_sent w"
    by (auto simp: conn_follows_def start_wire_def blank_session_def)
  have "EvDone \<notin> set es" using connected_never_done assms(2) unfolding es(1) by blast
  then have "outbox (wire_conn w) = PktGreeting (ClientGreeting 0) # map PktCommand (wire_sent w)"
    using outbox_order [of es] by (simp add: es)
  with send_framing_roundtrip [OF assms(3)] show ?thesis by simp
qed

theorem server_receives_commands_witness:
  "\<exists>w ts. wire_reachable example_parse (w, ts) \<and>
     snd (absorb_all split_chunk [concat (fold link_send (outbox (wire_conn w)) [])] []) =
       map (stringify \<circ> json_client_packet) (PktGreeting (ClientGreeting 0) # map PktCommand (sent (wire_session w)))"
proof -
  obtain w ts where w: "wire_reachable example_parse (w, ts)" "conn_state (wire_conn w) = Connected"
    using example_connected by blast
  have "conn_state (wire_conn w) \<noteq> Disconnected" by (simp add: w(2))
  from server_receives_commands [OF w(1) this, of "[concat (fold link_send (outbox (wire_conn w)) [])]"] w(1)
  show ?thesis by auto
qed

text \<open>The invariant of the cursor, the status and their events holds over the real connection, too, whatever
  the server sends.\<close>

theorem wire_session_inv:
  assumes "wire_reachable parse (w, ts)"
  shows "session_inv (wire_session w)"
proof -
  have "session_inv blank_session"
    by (simp add: session_inv_def blank_session_def replay_def initial_view_def reported_times_def)
  then show ?thesis using invariant.on_wire.wire_reachable_keeps [OF assms] by (simp add: start_wire_def)
qed

end
