(* ===== verification/Disposal.thy ===== *)
theory Disposal
  imports Wire
begin

text \<open>
  The end of a session.  \<open>Session.dispose\<close> (\<open>src/src/debug/session.ts\<close>) disposes of its connection, that
  of its link (\<open>src/src/cxxrtl/client.ts\<close>), and that destroys the stream (\<open>src/src/cxxrtl/link.ts\<close>).  A
  destroyed stream emits neither data nor its end, whatever is resumed later, and swallows what is
  written to it; nothing else of the session is undone: its tasks and its timer are left, and what
  happens after the disposal are the ordinary steps of the wire.
\<close>

section \<open>Disposing of the session\<close>

definition link_dispose :: "wire \<Rightarrow> wire" where
  "link_dispose w = w\<lparr>stream_destroyed := True\<rparr>"

definition conn_dispose :: "wire \<Rightarrow> wire" where
  "conn_dispose w = link_dispose w"

definition session_dispose :: "wire \<Rightarrow> wire" where
  "session_dispose w = conn_dispose w"

section \<open>Tasks that settle nothing\<close>

text \<open>
  A segment that settles no command of a connected connection; it may pause or resume the stream.  The
  tasks of the session have only such segments, and the handler of a chunk has when no packet of the
  chunk is left.
\<close>

definition calm :: "wire \<Rightarrow> wire \<Rightarrow> bool" where
  "calm w w' \<longleftrightarrow>
     stream_destroyed w' = stream_destroyed w \<and>
     (conn_state (wire_conn w) = Connected \<longrightarrow>
        conn_state (wire_conn w') = Connected \<and> settled (wire_conn w') = settled (wire_conn w))"

interpretation calm: segment_relation calm
  by unfold_locales (auto simp: calm_def)

lemma calm_commit: "calm w (commit s w)"
  using quiet_commit [of w s] by (simp add: calm_def quiet_def) (simp add: commit_def)

lemma calm_lift: "keeps calm (lift_outcome o')"
  by (rule lift_commits) (rule calm_commit)

lemma calm_in_session: "keeps_async calm (in_session m)"
  by (simp add: keeps_async_def in_session_pair calm_commit calm_lift)

lemma calm_resume: "keeps calm (Turn (\<lambda>w. return () (set_flowing b w)))"
  by (simp add: return_def calm_def set_flowing_def)

section \<open>Nothing is settled any more\<close>

definition cut_off :: "wire_pool \<Rightarrow> bool" where
  "cut_off q \<longleftrightarrow> stream_destroyed (fst q) \<and> conn_state (wire_conn (fst q)) = Connected \<and>
     list_all (\<lambda>(n, t). keeps calm t) (snd q)"

definition stranded :: "connection \<Rightarrow> nat \<times> (wire, unit) outcome \<Rightarrow> bool" where
  "stranded c nt \<longleftrightarrow> waiting (snd nt) \<and> fst nt \<notin> fst ` set (settled c)"

definition keeps_stranded :: "wire_pool \<Rightarrow> wire_pool \<Rightarrow> bool" where
  "keeps_stranded q q' \<longleftrightarrow>
     settled (wire_conn (fst q')) = settled (wire_conn (fst q)) \<and> length (snd q) \<le> length (snd q') \<and>
     (\<forall>i < length (snd q). stranded (wire_conn (fst q)) (snd q ! i) \<longrightarrow> snd q' ! i = snd q ! i)"

lemma cut_off_step:
  assumes "cut_off (w, ts)" "wire_step parse (w, ts) (w', ts')"
  shows "cut_off (w', ts') \<and> keeps_stranded (w, ts) (w', ts')"
proof -
  have nth: "i < length ts \<Longrightarrow> ts ! i = (n, t) \<Longrightarrow> keeps calm t" for i n t
    using assms(1) by (auto simp: cut_off_def list_all_length split: prod.splits)
  have added: "cut_off (w', ts @ [numbered q]) \<and> keeps_stranded (w, ts) (w', ts @ [numbered q])"
    if "calm w w'" "keeps calm (snd q)" for q
    using that assms(1) by (auto simp: cut_off_def keeps_stranded_def calm_def numbered_def nth_append)
  have moved: "cut_off (w', ts[i := numbered q]) \<and> keeps_stranded (w, ts) (w', ts[i := numbered q])"
    if "calm w w'" "keeps calm (snd q)" "i < length ts" "\<not> stranded (wire_conn w) (ts ! i)" for i q
    using that assms(1)
    by (auto simp: cut_off_def keeps_stranded_def calm_def numbered_def nth_list_update list_all_length split: prod.splits)
  show ?thesis
    using assms(2)
  proof (cases rule: wire_step.cases)
    case (wire_call m q)
    then have "calm w w' \<and> keeps calm (snd q)" using calm_in_session [of m] by (simp add: keeps_async_def)
    then show ?thesis using added wire_call by simp
  next
    case wire_register
    then show ?thesis using assms(1)
      by (auto simp: cut_off_def keeps_stranded_def perform_register_def split: list.splits)
  next
    case (wire_turn i m k q)
    then have "calm w w' \<and> keeps calm (snd q)" using nth [of i m "Turn k"] by simp
    moreover have "\<not> stranded (wire_conn w) (ts ! i)" using wire_turn by (simp add: stranded_def waiting_def)
    ultimately show ?thesis using moved wire_turn by simp
  next
    case (wire_settled i m c h r q)
    then have "calm w w' \<and> keeps calm (snd q)" using nth [of i m "Await c h"] by simp
    moreover have "\<not> stranded (wire_conn w) (ts ! i)" using wire_settled by (force simp: stranded_def)
    ultimately show ?thesis using moved wire_settled by simp
  qed (use assms(1) in \<open>simp_all add: cut_off_def\<close>)
qed

lemma cut_off_run:
  assumes "cut_off (w, ts)" "rtranclp (wire_step parse) (w, ts) (w', ts')"
  shows "cut_off (w', ts') \<and> keeps_stranded (w, ts) (w', ts')"
  using assms(2)
proof (induction rule: rtranclp_induct2)
  case refl
  then show ?case using assms(1) by (simp add: keeps_stranded_def)
next
  case (step w1 ts1 w2 ts2)
  then have "cut_off (w2, ts2)" "keeps_stranded (w1, ts1) (w2, ts2)"
    using cut_off_step [of w1 ts1 parse w2 ts2] by simp_all
  with step.IH show ?case by (auto simp: keeps_stranded_def stranded_def)
qed

section \<open>Properties\<close>

text \<open>C39: disposing of a session leaves its commands in the air.  The stream is destroyed, and that the link is
  done, which would reject the commands in flight, is never reported: when no chunk with packets left
  is in the middle of being handled, then whatever the server sends afterwards and whatever tasks,
  timers and calls go on to do, a resumed stream included, no command is ever settled, those issued
  later included, the tasks that wait for a reply wait for ever, and the connection still counts as
  connected.\<close>

theorem disposed_never_settles:
  assumes "conn_state (wire_conn w) = Connected" and "list_all (\<lambda>(n, t). keeps calm t) ts"
    and "rtranclp (wire_step parse) (session_dispose w, ts) (w2, ts2)"
  shows "settled (wire_conn w2) = settled (wire_conn w) \<and> conn_state (wire_conn w2) = Connected \<and> \<not> flowing w2 \<and>
    (\<forall>i < length ts. waiting (snd (ts ! i)) \<and> fst (ts ! i) \<notin> fst ` set (settled (wire_conn w)) \<longrightarrow> ts2 ! i = ts ! i)"
proof -
  have start: "wire_conn (session_dispose w) = wire_conn w" "stream_destroyed (session_dispose w)"
    by (simp_all add: session_dispose_def conn_dispose_def link_dispose_def)
  then have "cut_off (session_dispose w, ts)" using assms(1,2) by (simp add: cut_off_def)
  from cut_off_run [OF this assms(3)] start show ?thesis
    by (auto simp: cut_off_def keeps_stranded_def stranded_def)
qed

theorem disposed_never_settles_witness:
  "\<exists>w ts. wire_reachable example_parse (w, ts) \<and> flowing w \<and>
     (\<forall>w2 ts2. rtranclp (wire_step example_parse) (session_dispose w, ts) (w2, ts2) \<longrightarrow>
        settled (wire_conn w2) = settled (wire_conn w) \<and> \<not> flowing w2)"
proof -
  obtain w n m where w: "wire_reachable example_parse (w, snd new_wire @ [(n, Done m)])" "flowing w"
    "conn_state (wire_conn w) = Connected"
    using example_greeted by blast
  have "keeps calm (snd (numbered (in_session querySimulationStatus start_wire)))"
    using calm_in_session [of querySimulationStatus] by (simp add: numbered_def keeps_async_def)
  then have "list_all (\<lambda>(n, t). keeps calm t) (snd new_wire @ [(n, Done m)])"
    by (simp add: new_wire_task split_beta)
  from disposed_never_settles [OF w(3) this] w(1,2) show ?thesis by blast
qed

end
