(* ===== verification/Observer.thy ===== *)
theory Observer
  imports Session_Invariants
begin

text \<open>
  \<open>src/src/debug/observer.ts\<close>: the observer keeps the values of the observed designations up to
  date with the time cursor.  An \<open>observable\<close> is a designation with its last value and its
  callbacks; \<open>observer\<close> has the fields of the class and the session it works on.

  The asynchronous loop \<open>refresh\<close> is a state machine: \<open>Idle\<close> when \<open>samplePromise\<close> is undefined,
  \<open>Querying\<close> with the query it awaits, and \<open>Failed\<close> when it has thrown, which leaves
  \<open>samplePromise\<close> set.  The code between two \<open>await\<close>s is one step.  Callbacks are numbers;
  \<open>retain\<close> says whether a callback answers that it wants to stay registered.
\<close>

section \<open>Observables\<close>

record observable =
  obs_designation :: designation
  obs_value :: "desig_value option"
  obs_callbacks :: "nat list"

definition new_Observable :: "designation \<Rightarrow> observable" where
  "new_Observable d = \<lparr>obs_designation = d, obs_value = None, obs_callbacks = []\<rparr>"

definition observable_register :: "nat \<Rightarrow> observable \<Rightarrow> observable" where
  "observable_register cb ob = ob\<lparr>obs_callbacks := obs_callbacks ob @ [cb]\<rparr>"

text \<open>The disposable that \<open>register\<close> returns.\<close>

definition observable_unregister :: "nat \<Rightarrow> observable \<Rightarrow> observable" where
  "observable_unregister cb ob =
     ob\<lparr>obs_callbacks := splice1 (indexOf (obs_callbacks ob) cb) (obs_callbacks ob)\<rparr>"

text \<open>The rows of a memory come as a fresh generator, which is never \<open>===\<close> the previous one.\<close>

definition value_differs :: "desig_value option \<Rightarrow> desig_value \<Rightarrow> bool" where
  "value_differs old new = (case new of Bits n \<Rightarrow> old \<noteq> Some new | Rows ns \<Rightarrow> True)"

definition observable_update :: "(nat \<Rightarrow> desig_value \<Rightarrow> bool) \<Rightarrow> desig_value \<Rightarrow> observable \<Rightarrow> observable" where
  "observable_update retain new ob =
     (if value_differs (obs_value ob) new
      then ob\<lparr>obs_value := Some new, obs_callbacks := filter (\<lambda>cb. retain cb new) (obs_callbacks ob)\<rparr>
      else ob)"

definition observable_calls :: "desig_value \<Rightarrow> observable \<Rightarrow> nat list" where
  "observable_calls new ob = (if value_differs (obs_value ob) new then obs_callbacks ob else [])"

section \<open>The observer\<close>

datatype refresh_phase =
    Idle
  | Querying reference "(session, sample list) outcome"
  | Failed js_error

record observer =
  observables :: "(string \<times> observable) list"
  obs_reference :: "reference option"
  refreshing :: refresh_phase
  refreshNeeded :: bool
  obs_session :: session
  referenceName :: string
  subscribed :: bool
  next_reference :: nat
  called :: "(nat \<times> desig_value) list"

definition new_Observer :: "string \<Rightarrow> session \<Rightarrow> observer" where
  "new_Observer name s =
     \<lparr>observables = [], obs_reference = None, refreshing = Idle, refreshNeeded = False, obs_session = s,
      referenceName = name, subscribed = True, next_reference = 0, called = []\<rparr>"

definition observer_query :: "designation \<Rightarrow> observer \<Rightarrow> desig_value option" where
  "observer_query d ob =
     (case map_of (observables ob) (canonicalKey d) of None \<Rightarrow> None | Some x \<Rightarrow> obs_value x)"

definition observer_dispose :: "observer \<Rightarrow> observer" where
  "observer_dispose ob = ob\<lparr>observables := [], subscribed := False\<rparr>"

text \<open>The reference is rebuilt from all observables when it has been invalidated.\<close>

definition collect_reference :: "observer \<Rightarrow> unbound_reference" where
  "collect_reference ob =
     (case add_all (map (\<lambda>(k, x). obs_designation x) (observables ob)) (new_UnboundReference (next_reference ob)) of
        Inl e \<Rightarrow> new_UnboundReference (next_reference ob)
      | Inr u \<Rightarrow> u)"

definition ensure_reference :: "observer \<Rightarrow> reference \<times> observer" where
  "ensure_reference ob =
     (case obs_reference ob of
        Some r \<Rightarrow> (r, ob)
      | None \<Rightarrow>
          (let (r, s) = bindReference (referenceName ob) (collect_reference ob) (obs_session ob)
           in (r, ob\<lparr>obs_reference := Some r, obs_session := s, next_reference := Suc (next_reference ob)\<rparr>)))"

text \<open>From the head of the loop to the \<open>await\<close>, or out of it.\<close>

definition refresh_head :: "observer \<Rightarrow> observer" where
  "refresh_head ob =
     (if refreshNeeded ob
      then (let (r, ob) = ensure_reference (ob\<lparr>refreshNeeded := False\<rparr>);
                cursor = timeCursor (obs_session ob);
                (s, o') = queryInterval (TimeInterval cursor cursor) r None (obs_session ob)
            in ob\<lparr>obs_session := s, refreshing := Querying r o'\<rparr>)
      else ob\<lparr>refreshing := Idle\<rparr>)"

definition invalidate :: "observer \<Rightarrow> observer" where
  "invalidate ob =
     (let ob = ob\<lparr>refreshNeeded := True\<rparr>
      in case refreshing ob of Idle \<Rightarrow> refresh_head ob | _ \<Rightarrow> ob)"

definition map_observable :: "string \<Rightarrow> (observable \<Rightarrow> observable) \<Rightarrow> (string \<times> observable) list \<Rightarrow> (string \<times> observable) list" where
  "map_observable k f xs = map (\<lambda>(j, x). (j, if j = k then f x else x)) xs"

definition observe :: "designation \<Rightarrow> nat \<Rightarrow> observer \<Rightarrow> observer" where
  "observe d cb ob =
     (let k = canonicalKey d;
          ob = (case map_of (observables ob) k of
                  Some x \<Rightarrow> ob
                | None \<Rightarrow>
                    invalidate (ob\<lparr>observables := observables ob @ [(k, new_Observable d)], obs_reference := None\<rparr>))
      in ob\<lparr>observables := map_observable k (observable_register cb) (observables ob)\<rparr>)"

definition unobserve :: "string \<Rightarrow> nat \<Rightarrow> observer \<Rightarrow> observer" where
  "unobserve k cb ob = ob\<lparr>observables := map_observable k (observable_unregister cb) (observables ob)\<rparr>"

section \<open>The body of the loop after the query\<close>

text \<open>An error ends the loop over the handles; the updates before it stay.\<close>

fun update_handles ::
  "(nat \<Rightarrow> desig_value \<Rightarrow> bool) \<Rightarrow> sample option \<Rightarrow> (designation \<times> handle) list \<Rightarrow> observer \<Rightarrow> observer \<times> js_error option" where
  "update_handles retain smp [] ob = (ob, None)"
| "update_handles retain smp ((d, h) # rest) ob =
     (case (map_of (observables ob) (canonicalKey d), smp) of
        (Some x, Some sm) \<Rightarrow>
          (case sample_extract sm h of
             Inl e \<Rightarrow> (ob, Some e)
           | Inr v \<Rightarrow>
               update_handles retain smp rest
                 (ob\<lparr>observables := map_observable (canonicalKey d) (observable_update retain v) (observables ob),
                     called := called ob @ map (\<lambda>cb. (cb, v)) (observable_calls v x)\<rparr>))
      | _ \<Rightarrow> (ob, Some (TypeError ''undefined'')))"

definition refresh_result :: "(nat \<Rightarrow> desig_value \<Rightarrow> bool) \<Rightarrow> reference \<Rightarrow> js_error + sample list \<Rightarrow> observer \<Rightarrow> observer" where
  "refresh_result retain r result ob =
     (case result of
        Inl e \<Rightarrow> ob\<lparr>refreshing := Failed e\<rparr>
      | Inr samples \<Rightarrow>
          (case update_handles retain (if samples = [] then None else Some (hd samples)) (allHandles (ref_unbound r)) ob of
             (ob', Some e) \<Rightarrow> ob'\<lparr>refreshing := Failed e\<rparr>
           | (ob', None) \<Rightarrow> refresh_head ob'))"

text \<open>One turn of the refresh, and the arrival of the reply it waits for.\<close>

definition refresh_turn :: "(nat \<Rightarrow> desig_value \<Rightarrow> bool) \<Rightarrow> observer \<Rightarrow> observer" where
  "refresh_turn retain ob =
     (case refreshing ob of
        Querying r (Done result) \<Rightarrow> refresh_result retain r result ob
      | Querying r (Turn k) \<Rightarrow>
          (let (s, o') = k (obs_session ob) in ob\<lparr>obs_session := s, refreshing := Querying r o'\<rparr>)
      | _ \<Rightarrow> ob)"

definition refresh_reply :: "js_error + any_response \<Rightarrow> observer \<Rightarrow> observer" where
  "refresh_reply reply ob =
     (case refreshing ob of
        Querying r (Await c h) \<Rightarrow>
          (let (s, o') = h reply (obs_session ob) in ob\<lparr>obs_session := s, refreshing := Querying r o'\<rparr>)
      | _ \<Rightarrow> ob)"

text \<open>The subscription to the session's time cursor.\<close>

definition cursor_moved :: "observer \<Rightarrow> observer" where
  "cursor_moved ob = (if subscribed ob then invalidate ob else ob)"

inductive observer_step :: "observer \<Rightarrow> observer \<Rightarrow> bool" where
  "observer_step ob (observe d cb ob)"
| "observer_step ob (unobserve k cb ob)"
| "observer_step ob (cursor_moved ob)"
| "observer_step ob (refresh_turn retain ob)"
| "observer_step ob (refresh_reply reply ob)"
| "observer_step ob (observer_dispose ob)"
| "observer_step ob (ob\<lparr>obs_session := s\<rparr>)"

definition observer_run :: "observer \<Rightarrow> observer \<Rightarrow> bool" where
  "observer_run = rtranclp observer_step"

section \<open>The invariant\<close>

definition handle_key :: "handle \<Rightarrow> string" where
  "handle_key h = canonicalKey (handle_designation h)"

definition covers :: "reference \<Rightarrow> observer \<Rightarrow> bool" where
  "covers r ob \<longleftrightarrow>
     wf_reference (ref_unbound r) \<and> frozen (ref_unbound r) \<and>
     map handle_designation (handles (ref_unbound r)) = map (\<lambda>(k, x). obs_designation x) (observables ob)"

definition observer_inv :: "observer \<Rightarrow> bool" where
  "observer_inv ob \<longleftrightarrow>
     distinct (map fst (observables ob)) \<and>
     list_all (\<lambda>(k, x). k = canonicalKey (obs_designation x)) (observables ob) \<and>
     (case obs_reference ob of
        Some r \<Rightarrow> covers r ob
      | None \<Rightarrow> refreshNeeded ob \<or> observables ob = []) \<and>
     (refreshNeeded ob \<longrightarrow> refreshing ob \<noteq> Idle) \<and>
     (case refreshing ob of
        Querying r o' \<Rightarrow> list_all (\<lambda>h. handle_key h \<in> set (map fst (observables ob))) (handles (ref_unbound r))
      | _ \<Rightarrow> True)"

lemma map_observable_keys [simp]: "map fst (map_observable k f xs) = map fst xs"
  by (induction xs) (auto simp: map_observable_def)

lemma map_observable_designations [simp]:
  "(\<And>x. obs_designation (f x) = obs_designation x) \<Longrightarrow>
     map (\<lambda>(k, x). obs_designation x) (map_observable j f xs) = map (\<lambda>(k, x). obs_designation x) xs"
  by (induction xs) (auto simp: map_observable_def)

lemma map_observable_keyed:
  "(\<And>x. obs_designation (f x) = obs_designation x) \<Longrightarrow>
     list_all (\<lambda>(k, x). k = canonicalKey (obs_designation x)) (map_observable j f xs) =
     list_all (\<lambda>(k, x). k = canonicalKey (obs_designation x)) xs"
proof (induction xs)
  case (Cons kx xs)
  then show ?case by (cases kx) (simp add: map_observable_def)
qed (simp add: map_observable_def)

lemma map_of_map_observable:
  "map_of (map_observable k f xs) j = (if j = k then map_option f (map_of xs j) else map_of xs j)"
  by (induction xs) (auto simp: map_observable_def)

lemma designation_kept [simp]:
  "obs_designation (observable_register cb x) = obs_designation x"
  "obs_designation (observable_unregister cb x) = obs_designation x"
  "obs_designation (observable_update retain v x) = obs_designation x"
  by (simp_all add: observable_register_def observable_unregister_def observable_update_def)

lemma value_kept [simp]:
  "obs_value (observable_register cb x) = obs_value x"
  "obs_value (observable_unregister cb x) = obs_value x"
  "obs_value (observable_update retain v x) = Some v"
  by (auto simp: observable_register_def observable_unregister_def observable_update_def value_differs_def
      split: desig_value.splits)

lemma inv_map_observable:
  assumes "\<And>x. obs_designation (f x) = obs_designation x"
  shows "observer_inv (ob\<lparr>observables := map_observable k f (observables ob)\<rparr>) = observer_inv ob"
proof -
  have "map_observable k f xs = [] \<longleftrightarrow> xs = []" for xs by (simp add: map_observable_def)
  then show ?thesis
    using assms by (simp add: observer_inv_def covers_def map_observable_keyed split: option.split refresh_phase.split)
qed

text \<open>What holds before the head of the loop.\<close>

definition refresh_ready :: "observer \<Rightarrow> bool" where
  "refresh_ready ob \<longleftrightarrow>
     distinct (map fst (observables ob)) \<and>
     list_all (\<lambda>(k, x). k = canonicalKey (obs_designation x)) (observables ob) \<and>
     (case obs_reference ob of
        Some r \<Rightarrow> covers r ob
      | None \<Rightarrow> refreshNeeded ob \<or> observables ob = [])"

lemma collect_covers:
  "wf_reference (collect_reference ob) \<and>
   map handle_designation (handles (collect_reference ob)) = map (\<lambda>(k, x). obs_designation x) (observables ob)"
  using add_all_result [of "new_UnboundReference (next_reference ob)" "map (\<lambda>(k, x). obs_designation x) (observables ob)"]
  by (auto simp: collect_reference_def)

lemma ensure_covers:
  assumes "ensure_reference ob = (r, ob')" "case obs_reference ob of Some r \<Rightarrow> covers r ob | None \<Rightarrow> True"
  shows "covers r ob' \<and> obs_reference ob' = Some r \<and> observables ob' = observables ob \<and>
    refreshNeeded ob' = refreshNeeded ob"
  using assms collect_covers [of ob]
  by (auto simp: ensure_reference_def covers_def bindReference_def new_Reference_def Let_def freeze_def wf_reference_def
      split: option.splits prod.splits)

lemma covers_keys:
  assumes "covers r ob" "list_all (\<lambda>(k, x). k = canonicalKey (obs_designation x)) (observables ob)"
  shows "map handle_key (handles (ref_unbound r)) = map fst (observables ob)"
proof -
  have "map handle_key (handles (ref_unbound r)) =
      map canonicalKey (map handle_designation (handles (ref_unbound r)))"
    by (simp add: handle_key_def)
  also have "\<dots> = map canonicalKey (map (\<lambda>(k, x). obs_designation x) (observables ob))"
    using assms(1) by (simp add: covers_def)
  also have "\<dots> = map fst (observables ob)" using assms(2) by (auto simp: list_all_iff)
  finally show ?thesis .
qed

lemma inv_refresh_head: "refresh_ready ob \<Longrightarrow> observer_inv (refresh_head ob)"
proof (cases "refreshNeeded ob")
  case False
  then show "refresh_ready ob \<Longrightarrow> ?thesis"
    by (auto simp: refresh_ready_def refresh_head_def observer_inv_def covers_def split: option.splits)
next
  case True
  assume ready: "refresh_ready ob"
  obtain r ob1 where r: "ensure_reference (ob\<lparr>refreshNeeded := False\<rparr>) = (r, ob1)" by fastforce
  obtain s o' where q: "queryInterval (TimeInterval (timeCursor (obs_session ob1)) (timeCursor (obs_session ob1))) r None
      (obs_session ob1) = (s, o')" by fastforce
  have c: "covers r ob1 \<and> obs_reference ob1 = Some r \<and> observables ob1 = observables ob \<and> \<not> refreshNeeded ob1"
    using ensure_covers [OF r] ready by (auto simp: refresh_ready_def covers_def split: option.splits)
  have "map handle_key (handles (ref_unbound r)) = map fst (observables ob1)"
    using covers_keys [of r ob1] c ready by (simp add: refresh_ready_def)
  then have "list_all (\<lambda>h. handle_key h \<in> set (map fst (observables ob1))) (handles (ref_unbound r))"
    by (metis (mono_tags, lifting) image_eqI list.pred_set list.set_map)
  with c ready True show ?thesis
    by (simp add: refresh_head_def r q Let_def observer_inv_def refresh_ready_def covers_def)
qed

lemma inv_invalidate: "refresh_ready (ob\<lparr>refreshNeeded := True\<rparr>) \<Longrightarrow>
    (case refreshing ob of
        Querying r o' \<Rightarrow> list_all (\<lambda>h. handle_key h \<in> set (map fst (observables ob))) (handles (ref_unbound r))
      | _ \<Rightarrow> True) \<Longrightarrow> observer_inv (invalidate ob)"
  using inv_refresh_head [of "ob\<lparr>refreshNeeded := True\<rparr>"]
  by (auto simp: invalidate_def observer_inv_def refresh_ready_def covers_def split: refresh_phase.splits option.splits)

lemma inv_ready: "observer_inv ob \<Longrightarrow> refresh_ready ob"
  by (simp add: observer_inv_def refresh_ready_def)

lemma inv_invalidated: "observer_inv ob \<Longrightarrow> observer_inv (invalidate ob)"
proof -
  assume inv: "observer_inv ob"
  then have "refresh_ready (ob\<lparr>refreshNeeded := True\<rparr>)"
    by (auto simp: observer_inv_def refresh_ready_def covers_def split: option.splits)
  with inv show ?thesis using inv_invalidate [of ob] by (simp add: observer_inv_def)
qed

lemma inv_cursor_moved: "observer_inv ob \<Longrightarrow> observer_inv (cursor_moved ob)"
  by (simp add: cursor_moved_def inv_invalidated)

lemma inv_observe: "observer_inv ob \<Longrightarrow> observer_inv (observe d cb ob)"
proof -
  assume inv: "observer_inv ob"
  let ?k = "canonicalKey d"
  let ?new = "ob\<lparr>observables := observables ob @ [(?k, new_Observable d)], obs_reference := None\<rparr>"
  have "observer_inv (invalidate ?new)" if "map_of (observables ob) ?k = None"
  proof (rule inv_invalidate)
    show "refresh_ready (?new\<lparr>refreshNeeded := True\<rparr>)"
      using inv that by (simp add: observer_inv_def refresh_ready_def new_Observable_def map_of_eq_None_iff)
    show "case refreshing ?new of
        Querying r o' \<Rightarrow> list_all (\<lambda>h. handle_key h \<in> set (map fst (observables ?new))) (handles (ref_unbound r))
      | _ \<Rightarrow> True"
      using inv by (auto simp: observer_inv_def list_all_iff split: refresh_phase.splits)
  qed
  with inv show ?thesis by (simp add: observe_def Let_def inv_map_observable split: option.split)
qed

lemma inv_unobserve: "observer_inv ob \<Longrightarrow> observer_inv (unobserve k cb ob)"
  by (simp add: unobserve_def inv_map_observable)

lemma ready_update_handles:
  "refresh_ready ob \<Longrightarrow> update_handles retain smp hs ob = (ob', r) \<Longrightarrow>
     refresh_ready ob' \<and> refreshNeeded ob' = refreshNeeded ob \<and> refreshing ob' = refreshing ob \<and>
     obs_reference ob' = obs_reference ob \<and> map fst (observables ob') = map fst (observables ob)"
proof (induction retain smp hs ob arbitrary: ob' r rule: update_handles.induct)
  case (1 retain smp ob)
  then show ?case by simp
next
  case (2 retain smp d h rest ob)
  show ?case
  proof (cases "\<exists>x sm v. map_of (observables ob) (canonicalKey d) = Some x \<and> smp = Some sm \<and> sample_extract sm h = Inr v")
    case True
    then obtain x sm v where x: "map_of (observables ob) (canonicalKey d) = Some x" "smp = Some sm" "sample_extract sm h = Inr v"
      by blast
    let ?ob = "ob\<lparr>observables := map_observable (canonicalKey d) (observable_update retain v) (observables ob),
                  called := called ob @ map (\<lambda>cb. (cb, v)) (observable_calls v x)\<rparr>"
    have "map_observable k f xs = [] \<longleftrightarrow> xs = []" for k f xs by (simp add: map_observable_def)
    then have "refresh_ready ?ob"
      using 2(2) by (simp add: refresh_ready_def covers_def map_observable_keyed split: option.splits)
    then show ?thesis using 2(1) [OF refl x(1) x(2) x(3)] 2(3) x by simp
  next
    case False
    then show ?thesis using 2(2,3) by (auto split: option.splits sum.splits)
  qed
qed

lemma inv_refresh_turn: "observer_inv ob \<Longrightarrow> observer_inv (refresh_turn retain ob)"
proof (cases "refreshing ob")
  case (Querying r o')
  assume inv: "observer_inv ob"
  show ?thesis
  proof (cases o')
    case (Done result)
    show ?thesis
    proof (cases result)
      case (Inl e)
      then show ?thesis using inv Querying Done
        by (auto simp: refresh_turn_def refresh_result_def observer_inv_def covers_def split: option.splits)
    next
      case (Inr samples)
      obtain ob1 e where u: "update_handles retain (if samples = [] then None else Some (hd samples))
          (allHandles (ref_unbound r)) ob = (ob1, e)" by fastforce
      note ready = ready_update_handles [OF inv_ready [OF inv] u]
      then have "observer_inv (ob1\<lparr>refreshing := Failed err\<rparr>)" for err
        by (auto simp: refresh_ready_def observer_inv_def covers_def split: option.splits)
      moreover have "observer_inv (refresh_head ob1)" using ready inv_refresh_head by blast
      ultimately show ?thesis using Querying Done Inr u
        by (simp add: refresh_turn_def refresh_result_def split: option.split)
    qed
  next
    case (Turn k)
    then show ?thesis using inv Querying
      by (auto simp: refresh_turn_def observer_inv_def covers_def Let_def split: prod.split option.splits)
  next
    case (Await c h)
    then show ?thesis using inv Querying by (simp add: refresh_turn_def)
  qed
qed (simp_all add: refresh_turn_def)

lemma inv_refresh_reply: "observer_inv ob \<Longrightarrow> observer_inv (refresh_reply reply ob)"
  by (auto simp: refresh_reply_def observer_inv_def covers_def Let_def
      split: prod.split option.splits refresh_phase.splits outcome.splits)

lemma subscribed_update_handles:
  "update_handles retain smp hs ob = (ob', r) \<Longrightarrow> subscribed ob' = subscribed ob"
  by (induction retain smp hs ob arbitrary: ob' r rule: update_handles.induct)
    (auto split: option.splits sum.splits)

lemma subscribed_head [simp]: "subscribed (refresh_head ob) = subscribed ob"
  by (simp add: refresh_head_def ensure_reference_def Let_def split: option.split prod.split)

lemma subscribed_turn: "subscribed (refresh_turn retain ob) = subscribed ob"
  by (auto simp: refresh_turn_def refresh_result_def Let_def subscribed_update_handles
      split: refresh_phase.split outcome.split sum.split option.split prod.split)

lemma subscribed_invalidate: "subscribed (invalidate ob) = subscribed ob"
  by (simp add: invalidate_def Let_def split: refresh_phase.split)

text \<open>
  An observer that has been disposed of is left with the reference to the observables it had, and has
  none.  It can still be given new ones, for which the reference is then rebuilt.
\<close>

definition disposed_inv :: "observer \<Rightarrow> bool" where
  "disposed_inv ob \<longleftrightarrow>
     distinct (map fst (observables ob)) \<and>
     list_all (\<lambda>(k, x). k = canonicalKey (obs_designation x)) (observables ob) \<and>
     (case obs_reference ob of
        Some r \<Rightarrow> observables ob = [] \<or> covers r ob
      | None \<Rightarrow> refreshNeeded ob \<or> observables ob = []) \<and>
     (refreshNeeded ob \<longrightarrow> refreshing ob \<noteq> Idle)"

text \<open>The invariant of every history: the full one until the observer is disposed of.\<close>

definition lifetime_inv :: "observer \<Rightarrow> bool" where
  "lifetime_inv ob \<longleftrightarrow> (if subscribed ob then observer_inv ob else disposed_inv ob)"

lemma disposed_map_observable:
  assumes "\<And>x. obs_designation (f x) = obs_designation x"
  shows "disposed_inv (ob\<lparr>observables := map_observable k f (observables ob)\<rparr>) = disposed_inv ob"
proof -
  have "map_observable k f xs = [] \<longleftrightarrow> xs = []" for xs by (simp add: map_observable_def)
  then show ?thesis
    using assms by (simp add: disposed_inv_def covers_def map_observable_keyed split: option.split)
qed

lemma disposed_head:
  assumes "distinct (map fst (observables ob))" "list_all (\<lambda>(k, x). k = canonicalKey (obs_designation x)) (observables ob)"
    and "case obs_reference ob of Some r \<Rightarrow> observables ob = [] \<or> covers r ob | None \<Rightarrow> refreshNeeded ob \<or> observables ob = []"
  shows "disposed_inv (refresh_head ob)"
proof (cases "refreshNeeded ob")
  case True
  obtain r ob1 where r: "ensure_reference (ob\<lparr>refreshNeeded := False\<rparr>) = (r, ob1)" by fastforce
  obtain s o' where q: "queryInterval (TimeInterval (timeCursor (obs_session ob1)) (timeCursor (obs_session ob1))) r None
      (obs_session ob1) = (s, o')" by fastforce
  have "obs_reference ob1 = Some r \<and> observables ob1 = observables ob \<and> \<not> refreshNeeded ob1 \<and>
      (observables ob = [] \<or> covers r ob1)"
  proof (cases "obs_reference ob")
    case None
    then show ?thesis using ensure_covers [OF r] by simp
  next
    case (Some r')
    then show ?thesis using r assms(3) by (auto simp: ensure_reference_def covers_def)
  qed
  then show ?thesis using True assms(1,2)
    by (auto simp: refresh_head_def r q Let_def disposed_inv_def covers_def)
qed (use assms in \<open>auto simp: refresh_head_def disposed_inv_def covers_def split: option.splits\<close>)

lemma disposed_observe: "disposed_inv ob \<Longrightarrow> disposed_inv (observe d cb ob)"
proof -
  assume inv: "disposed_inv ob"
  let ?k = "canonicalKey d"
  let ?new = "ob\<lparr>observables := observables ob @ [(?k, new_Observable d)], obs_reference := None\<rparr>"
  have "disposed_inv (invalidate ?new)" if new: "map_of (observables ob) ?k = None"
  proof (cases "refreshing ob")
    case Idle
    have "disposed_inv (refresh_head (?new\<lparr>refreshNeeded := True\<rparr>))"
      using inv new by (intro disposed_head) (simp_all add: disposed_inv_def new_Observable_def map_of_eq_None_iff)
    then show ?thesis using Idle by (simp add: invalidate_def)
  qed (use inv new in \<open>simp_all add: invalidate_def disposed_inv_def new_Observable_def map_of_eq_None_iff\<close>)
  with inv show ?thesis by (simp add: observe_def Let_def disposed_map_observable split: option.split)
qed

lemma disposed_update_handles:
  "disposed_inv ob \<Longrightarrow> update_handles retain smp hs ob = (ob', r) \<Longrightarrow> disposed_inv ob'"
proof (induction retain smp hs ob arbitrary: ob' r rule: update_handles.induct)
  case (1 retain smp ob)
  then show ?case by simp
next
  case (2 retain smp d h rest ob)
  show ?case
  proof (cases "\<exists>x sm v. map_of (observables ob) (canonicalKey d) = Some x \<and> smp = Some sm \<and> sample_extract sm h = Inr v")
    case True
    then obtain x sm v where x: "map_of (observables ob) (canonicalKey d) = Some x" "smp = Some sm" "sample_extract sm h = Inr v"
      by blast
    have "disposed_inv (ob\<lparr>observables := map_observable (canonicalKey d) (observable_update retain v) (observables ob)\<rparr>)"
      using 2(2) by (simp add: disposed_map_observable)
    then have "disposed_inv (ob\<lparr>observables := map_observable (canonicalKey d) (observable_update retain v) (observables ob),
        called := called ob @ map (\<lambda>cb. (cb, v)) (observable_calls v x)\<rparr>)"
      by (simp add: disposed_inv_def covers_def split: option.splits)
    then show ?thesis using 2(1) [OF refl x(1) x(2) x(3)] 2(3) x by simp
  next
    case False
    then show ?thesis using 2(2,3) by (auto split: option.splits sum.splits)
  qed
qed

lemma disposed_failed: "disposed_inv ob \<Longrightarrow> disposed_inv (ob\<lparr>refreshing := Failed e\<rparr>)"
  by (auto simp: disposed_inv_def covers_def split: option.splits)

lemma disposed_turn: "disposed_inv ob \<Longrightarrow> disposed_inv (refresh_turn retain ob)"
proof (cases "\<exists>r samples. refreshing ob = Querying r (Done (Inr samples))")
  case True
  assume inv: "disposed_inv ob"
  from True obtain r samples where q: "refreshing ob = Querying r (Done (Inr samples))" by blast
  obtain ob1 e where u: "update_handles retain (if samples = [] then None else Some (hd samples))
      (allHandles (ref_unbound r)) ob = (ob1, e)" by fastforce
  have inv1: "disposed_inv ob1" by (rule disposed_update_handles [OF inv u])
  then have "disposed_inv (refresh_head ob1)" by (intro disposed_head) (simp_all add: disposed_inv_def)
  then show ?thesis using q u disposed_failed [OF inv1]
    by (simp add: refresh_turn_def refresh_result_def split: option.split)
next
  case False
  then show "disposed_inv ob \<Longrightarrow> ?thesis"
    by (auto simp: refresh_turn_def refresh_result_def disposed_inv_def covers_def Let_def
        split: refresh_phase.splits outcome.splits sum.splits prod.splits option.splits)
qed

lemma disposed_reply: "disposed_inv ob \<Longrightarrow> disposed_inv (refresh_reply reply ob)"
  by (auto simp: refresh_reply_def disposed_inv_def covers_def Let_def
      split: prod.split option.splits refresh_phase.splits outcome.splits)

lemma subscribed_steps [simp]:
  "subscribed (observe d cb ob) = subscribed ob" "subscribed (unobserve k cb ob) = subscribed ob"
  "subscribed (cursor_moved ob) = subscribed ob" "subscribed (refresh_reply reply ob) = subscribed ob"
  by (auto simp: observe_def unobserve_def cursor_moved_def refresh_reply_def subscribed_invalidate Let_def
      split: option.split refresh_phase.split outcome.split prod.split)

lemma unsubscribed_cursor: "\<not> subscribed ob \<Longrightarrow> cursor_moved ob = ob"
  by (simp add: cursor_moved_def)

lemma lifetime_dispose: "lifetime_inv ob \<Longrightarrow> lifetime_inv (observer_dispose ob)"
proof -
  assume "lifetime_inv ob"
  then have "refreshNeeded ob \<longrightarrow> refreshing ob \<noteq> Idle"
    by (cases "subscribed ob") (simp_all add: lifetime_inv_def observer_inv_def disposed_inv_def)
  then show ?thesis by (simp add: lifetime_inv_def observer_dispose_def disposed_inv_def split: option.split)
qed

lemma lifetime_step: "observer_step ob ob' \<Longrightarrow> lifetime_inv ob \<Longrightarrow> lifetime_inv ob'"
proof (induction rule: observer_step.induct)
  case (6 ob)
  then show ?case by (rule lifetime_dispose)
next
  case (7 ob s)
  then show ?case
    by (cases "subscribed ob")
      (auto simp: lifetime_inv_def observer_inv_def disposed_inv_def covers_def split: option.splits refresh_phase.splits)
qed (simp_all add: lifetime_inv_def inv_observe inv_unobserve inv_cursor_moved inv_refresh_turn inv_refresh_reply
    disposed_observe disposed_turn disposed_reply subscribed_turn unsubscribed_cursor,
   simp_all add: unobserve_def disposed_map_observable split: if_splits)

lemma lifetime_run: "observer_run ob ob' \<Longrightarrow> lifetime_inv ob \<Longrightarrow> lifetime_inv ob'"
  unfolding observer_run_def by (induction rule: rtranclp_induct) (auto intro: lifetime_step)

lemma inv_new_Observer: "observer_inv (new_Observer name s)"
  by (simp add: observer_inv_def new_Observer_def)

section \<open>A refresh from end to end\<close>

lemma update_handles_all:
  assumes "list_all2 (\<lambda>h v. sample_extract sm h = Inr v) hs vs"
  shows "distinct (map handle_key hs) \<Longrightarrow>
    set (map handle_key hs) \<subseteq> set (map fst (observables ob)) \<Longrightarrow>
    \<exists>ob'. update_handles retain (Some sm) (map (\<lambda>h. (handle_designation h, h)) hs) ob = (ob', None) \<and>
      refreshNeeded ob' = refreshNeeded ob \<and> obs_session ob' = obs_session ob \<and>
      (\<forall>k. map_of (observables ob') k =
         (case map_of (zip (map handle_key hs) vs) k of
            None \<Rightarrow> map_of (observables ob) k
          | Some v \<Rightarrow> map_option (observable_update retain v) (map_of (observables ob) k)))"
  using assms
proof (induction hs vs arbitrary: ob rule: list_all2_induct)
  case Nil
  then show ?case by simp
next
  case (Cons h hs v vs)
  let ?k = "handle_key h"
  have "?k \<in> set (map fst (observables ob))" using Cons.prems by simp
  then obtain x where x: "map_of (observables ob) ?k = Some x" by (metis map_of_eq_None_iff option.exhaust set_map)
  let ?ob = "ob\<lparr>observables := map_observable ?k (observable_update retain v) (observables ob),
                called := called ob @ map (\<lambda>cb. (cb, v)) (observable_calls v x)\<rparr>"
  have "distinct (map handle_key hs)"
    "set (map handle_key hs) \<subseteq> set (map fst (observables ?ob))"
    using Cons.prems by simp_all
  from Cons.IH [OF this] obtain ob' where ob': "update_handles retain (Some sm) (map (\<lambda>h. (handle_designation h, h)) hs) ?ob = (ob', None)"
      "refreshNeeded ob' = refreshNeeded ob" "obs_session ob' = obs_session ob"
      "\<And>k. map_of (observables ob') k =
         (case map_of (zip (map handle_key hs) vs) k of
            None \<Rightarrow> map_of (observables ?ob) k
          | Some v \<Rightarrow> map_option (observable_update retain v) (map_of (observables ?ob) k))"
    by (auto simp del: split_paired_Ex)
  have "map_of (zip (map handle_key hs) vs) ?k = None"
    using Cons.prems(1) by (auto simp: map_of_eq_None_iff dest: set_zip_leftD)
  then have "\<forall>k. map_of (observables ob') k =
      (case map_of (zip (map handle_key (h # hs)) (v # vs)) k of
         None \<Rightarrow> map_of (observables ob) k
       | Some w \<Rightarrow> map_option (observable_update retain w) (map_of (observables ob) k))"
    by (simp add: ob'(4) map_of_map_observable split: option.split)
  moreover have "update_handles retain (Some sm) (map (\<lambda>h. (handle_designation h, h)) (h # hs)) ob = (ob', None)"
    using ob'(1) x Cons.hyps(1) by (simp add: handle_key_def)
  ultimately show ?case using ob'(2,3) by blast
qed

lemma covered_update:
  fixes t :: time_point
  assumes "observer_inv ob" "covers r ob" "list_all2 valid_value (map handle_designation (handles (ref_unbound r))) vs"
  defines "sm \<equiv> Sample t (reference_id (ref_unbound r))
    (concat (map2 encode_designation (map handle_designation (handles (ref_unbound r))) vs))"
  obtains ob' where "update_handles retain (Some sm) (allHandles (ref_unbound r)) ob = (ob', None)"
    "refreshNeeded ob' = refreshNeeded ob" "obs_session ob' = obs_session ob"
    "list_all2 (\<lambda>h v. observer_query (handle_designation h) ob' = Some v) (handles (ref_unbound r)) vs"
proof -
  let ?hs = "handles (ref_unbound r)"
  let ?keys = "map handle_key ?hs"
  have wf: "wf_reference (ref_unbound r)" using assms(2) by (simp add: covers_def)
  have len: "length ?hs = length vs" using list_all2_lengthD [OF assms(3)] by simp
  have keys: "?keys = map fst (observables ob)"
    using assms(1,2) covers_keys [of r ob] by (simp add: observer_inv_def)
  then have distinct: "distinct ?keys" using assms(1) by (simp add: observer_inv_def)
  have extracted: "list_all2 (\<lambda>h v. sample_extract sm h = Inr v) ?hs vs"
    unfolding list_all2_conv_all_nth sm_def using reference_layout [OF wf assms(3)] len by auto
  have "set ?keys \<subseteq> set (map fst (observables ob))" by (simp only: keys order_refl)
  from update_handles_all [OF extracted distinct this, of retain]
  obtain ob' where ob': "update_handles retain (Some sm) (map (\<lambda>h. (handle_designation h, h)) ?hs) ob = (ob', None)"
      "refreshNeeded ob' = refreshNeeded ob" "obs_session ob' = obs_session ob"
      "\<And>k. map_of (observables ob') k =
         (case map_of (zip ?keys vs) k of
            None \<Rightarrow> map_of (observables ob) k
          | Some v \<Rightarrow> map_option (observable_update retain v) (map_of (observables ob) k))"
    by blast
  have "observer_query (handle_designation (?hs ! i)) ob' = Some (vs ! i)" if i: "i < length ?hs" for i
  proof -
    let ?k = "handle_key (?hs ! i)"
    have "map_of (zip ?keys vs) (?keys ! i) = Some (vs ! i)"
      using i len distinct by (intro map_of_zip_nth) simp_all
    moreover have "?keys ! i = ?k" using i by simp
    moreover have "?k \<in> set ?keys" using i by simp
    then have "?k \<in> set (map fst (observables ob))" by (simp only: keys)
    then obtain x where "map_of (observables ob) ?k = Some x" by (metis map_of_eq_None_iff option.exhaust set_map)
    ultimately show ?thesis by (simp add: observer_query_def ob'(4) flip: handle_key_def)
  qed
  then show ?thesis using that ob' len by (simp add: allHandles_def list_all2_conv_all_nth)
qed

section \<open>Properties\<close>

text \<open>C23: in every history of observing, disposing of registrations and of the observer, cursor moves and
  refresh steps, no invalidation is lost and the reference is never stale: an observer at rest has no
  refresh outstanding, and the reference it would query lists exactly the observed designations, in
  order, under distinct keys; but an observer that has been disposed of keeps the reference to the
  observables it had until a new one is observed.\<close>

theorem observer_at_rest:
  assumes "observer_run (new_Observer name s) ob"
  shows "distinct (map fst (observables ob)) \<and>
    list_all (\<lambda>(k, x). k = canonicalKey (obs_designation x)) (observables ob) \<and>
    (if refreshing ob = Idle
     then \<not> refreshNeeded ob \<and>
       (case obs_reference ob of
          None \<Rightarrow> observables ob = []
        | Some r \<Rightarrow>
            map handle_designation (handles (ref_unbound r)) = map (\<lambda>(k, x). obs_designation x) (observables ob) \<or>
            \<not> subscribed ob \<and> observables ob = [])
     else True)"
proof -
  have "lifetime_inv (new_Observer name s)"
    using inv_new_Observer [of name s] by (simp add: lifetime_inv_def) (simp add: new_Observer_def)
  from lifetime_run [OF assms this] show ?thesis
    by (auto simp: lifetime_inv_def observer_inv_def disposed_inv_def covers_def split: option.splits if_splits)
qed

theorem observer_at_rest_witness:
  "\<forall>d cb. distinct (map fst (observables (observe d cb (new_Observer ''view'' blank_session))))"
proof (intro allI)
  fix d cb
  show "distinct (map fst (observables (observe d cb (new_Observer ''view'' blank_session))))"
    using observer_at_rest [of "''view''" blank_session "observe d cb (new_Observer ''view'' blank_session)"]
    by (auto simp: observer_run_def intro: observer_step.intros)
qed

text \<open>C5: a refresh shows the server's values.  When an observer at rest is invalidated, its query is answered
  by one sample that carries a value for every observed designation in the layout of the protocol,
  and nothing is invalidated meanwhile, then after the reply and two turns it is at rest again and
  \<open>query\<close> returns the value of each designation the reference lists, which are all the observed ones.\<close>

theorem refresh_shows_server_values:
  assumes "observer_inv ob" "refreshing ob = Idle"
    and "case obs_reference ob of
           None \<Rightarrow> True
         | Some r \<Rightarrow> checkReferenceEpoch (ref_name r) (ref_epoch r) (obs_session ob) = Inr ()"
    and "0 \<le> raw t" "list_all2 valid_value (map (\<lambda>(k, x). obs_designation x) (observables ob)) vs"
    and "reply = Inr (ResQueryInterval (ResponseQueryInterval
           [ProtoSample (toCXXRTL t) (Some (encode_item_values
              (concat (map2 encode_designation (map (\<lambda>(k, x). obs_designation x) (observables ob)) vs)))) None]))"
  shows "\<exists>ob'. refresh_turn retain (refresh_turn retain (refresh_reply reply (invalidate ob))) = ob' \<and>
    refreshing ob' = Idle \<and>
    list_all2 (\<lambda>d v. observer_query d ob' = Some v) (map (\<lambda>(k, x). obs_designation x) (observables ob)) vs"
proof -
  obtain r ob1 where r: "ensure_reference (ob\<lparr>refreshNeeded := False\<rparr>) = (r, ob1)" by fastforce
  have c: "covers r ob1 \<and> obs_reference ob1 = Some r \<and> observables ob1 = observables ob \<and> \<not> refreshNeeded ob1"
    using ensure_covers [OF r] assms(1) by (auto simp: observer_inv_def covers_def split: option.splits)
  have epoch: "checkReferenceEpoch (ref_name r) (ref_epoch r) (obs_session ob1) = Inr ()"
    using r assms(3) by (auto simp: ensure_reference_def checkReferenceEpoch_def bindReference_def advanceReferenceEpoch_def
        new_Reference_def post_def Let_def split: option.splits prod.splits)
  let ?c = "query_interval_command (TimeInterval (timeCursor (obs_session ob1)) (timeCursor (obs_session ob1))) True r"
  let ?h = "\<lambda>rp s. (s, Turn (\<lambda>s. case rp of Inl e \<Rightarrow> throw e s | Inr a \<Rightarrow> of_result (case response_samples a of
                Inl e \<Rightarrow> Inl e
              | Inr samples \<Rightarrow> sum_map (decode_sample r) samples) s))"
  let ?ob2 = "ob1\<lparr>obs_session := post ?c (obs_session ob1), refreshing := Querying r (Await ?c ?h)\<rparr>"
  let ?data = "concat (map2 encode_designation (map handle_designation (handles (ref_unbound r))) vs)"
  let ?sm = "Sample t (reference_id (ref_unbound r)) ?data"
  let ?ob3 = "ob1\<lparr>obs_session := post ?c (obs_session ob1), refreshing := Querying r (Done (Inr [?sm]))\<rparr>"
  have desigs: "map handle_designation (handles (ref_unbound r)) = map (\<lambda>(k, x). obs_designation x) (observables ob)"
    using c by (simp add: covers_def)
  have "invalidate ob = ?ob2"
    using assms(2) r epoch
    by (simp add: invalidate_def refresh_head_def Let_def queryInterval_def await_def request_def)
  moreover have "decode_sample r (ProtoSample (toCXXRTL t) (Some (encode_item_values ?data)) None) = Inr ?sm"
    by (simp add: decode_sample_def time_wire.dec_enc assms(4) decode_encode_item_values)
  ultimately have turn: "refresh_turn retain (refresh_reply reply (invalidate ob)) = ?ob3"
    by (simp add: refresh_reply_def refresh_turn_def assms(6) desigs [symmetric] response_samples_def of_result_def Let_def)
  have inv3: "observer_inv ?ob3"
    unfolding turn [symmetric] by (intro inv_refresh_turn inv_refresh_reply inv_invalidated assms(1))
  have "covers r ?ob3" using c by (simp add: covers_def)
  then obtain ob' where ob': "update_handles retain (Some ?sm) (allHandles (ref_unbound r)) ?ob3 = (ob', None)"
      "refreshNeeded ob' = refreshNeeded ?ob3"
      "list_all2 (\<lambda>h v. observer_query (handle_designation h) ob' = Some v) (handles (ref_unbound r)) vs"
    using assms(5) by (auto simp: desigs intro: covered_update [OF inv3, of r vs retain t])
  have "refresh_turn retain ?ob3 = refresh_head ob'"
    by (simp add: refresh_turn_def refresh_result_def ob'(1))
  moreover have "refresh_head ob' = ob'\<lparr>refreshing := Idle\<rparr>" using c ob'(2) by (simp add: refresh_head_def)
  moreover have "list_all2 (\<lambda>d v. observer_query d (ob'\<lparr>refreshing := Idle\<rparr>) = Some v)
      (map handle_designation (handles (ref_unbound r))) vs"
    using ob'(3) by (simp add: list_all2_map1 observer_query_def)
  ultimately show ?thesis by (simp add: turn desigs)
qed

theorem refresh_shows_server_values_witness:
  "\<exists>ob'. refreshing ob' = Idle \<and>
     observer_query (ScalarDesignation (ScalarVariable [''a''] None 0 40)) ob' = Some (Bits 7)"
proof -
  let ?d = "ScalarDesignation (ScalarVariable [''a''] None 0 40)"
  let ?ob = "(new_Observer ''view'' blank_session)\<lparr>observables := [(canonicalKey ?d, new_Observable ?d)], obs_reference :=
    Some (new_Reference ''view'' 1 (collect_reference ((new_Observer ''view'' blank_session)\<lparr>observables := [(canonicalKey ?d, new_Observable ?d)]\<rparr>))),
    obs_session := blank_session\<lparr>referenceEpochs := [''view'' \<mapsto> 1]\<rparr>\<rparr>"
  have inv: "observer_inv ?ob"
    using collect_covers [of "(new_Observer ''view'' blank_session)\<lparr>observables := [(canonicalKey ?d, new_Observable ?d)]\<rparr>"]
    by (simp add: observer_inv_def new_Observer_def new_Observable_def covers_def new_Reference_def wf_freeze)
      (simp add: freeze_def)
  show ?thesis
    using refresh_shows_server_values [OF inv, of ZERO "[Bits 7]" _ "\<lambda>_ _. False"]
    by (simp add: new_Observer_def new_Observable_def checkReferenceEpoch_def new_Reference_def valid_value_def
        narrow_def chunk_count_def) blast
qed

lemma map_of_append_none: "map_of xs k = None \<Longrightarrow> map_of (xs @ ys) k = map_of ys k"
  by (induction xs) auto

lemma failed_step:
  assumes "observer_step ob ob'" "refreshing ob = Failed e"
  shows "refreshing ob' = Failed e \<and> (observer_query d ob' = observer_query d ob \<or> observer_query d ob' = None)"
  using assms
proof (induction rule: observer_step.induct)
  case (1 ob d' cb)
  then show ?case
    by (cases "map_of (observables ob) (canonicalKey d)")
      (auto simp: observe_def invalidate_def observer_query_def map_of_map_observable new_Observable_def Let_def
        map_of_append_none map_add_def split: option.split)
qed (auto simp: unobserve_def cursor_moved_def invalidate_def refresh_turn_def refresh_reply_def observer_query_def
    observer_dispose_def map_of_map_observable split: option.split)

text \<open>One failed query ends the observer: after a query that fails, no history of observing, cursor moves or
  further turns starts another refresh, and \<open>query\<close> keeps returning the values it had, for every
  designation, or none once the observer has been disposed of.\<close>

theorem failed_query_is_final:
  assumes "refreshing ob = Querying r (Done (Inl e))" and "observer_run (refresh_turn retain ob) ob'"
  shows "refreshing ob' = Failed e \<and> (observer_query d ob' = observer_query d ob \<or> observer_query d ob' = None)"
  using assms(2) unfolding observer_run_def
proof (induction rule: rtranclp_induct)
  case base
  then show ?case using assms(1) by (simp add: refresh_turn_def refresh_result_def observer_query_def)
next
  case (step y z)
  then show ?case using failed_step [of y z e d] by auto
qed

theorem failed_query_is_final_witness:
  "refreshing (cursor_moved (refresh_turn (\<lambda>_ _. True)
     ((new_Observer ''view'' blank_session)\<lparr>refreshing := Querying (Reference ''view'' 1 (new_UnboundReference 0)) (Done (Inl (CommandError ''x'')))\<rparr>))) =
   Failed (CommandError ''x'')"
  using failed_query_is_final [of "(new_Observer ''view'' blank_session)\<lparr>refreshing := Querying (Reference ''view'' 1 (new_UnboundReference 0)) (Done (Inl (CommandError ''x'')))\<rparr>"
      "Reference ''view'' 1 (new_UnboundReference 0)" "CommandError ''x''" "\<lambda>_ _. True"]
  by (simp add: observer_run_def observer_step.intros(3) r_into_rtranclp)

text \<open>Disposing of the observer does not end a refresh that waits for its samples: the observables are gone
  when they arrive, and the refresh fails on the first handle.\<close>

theorem dispose_during_refresh:
  assumes "refreshing ob = Querying r (Done (Inr samples))" and "handles (ref_unbound r) \<noteq> []"
  shows "refreshing (refresh_turn retain (observer_dispose ob)) = Failed (TypeError ''undefined'')"
  using assms
  by (cases "handles (ref_unbound r)")
    (auto simp: observer_dispose_def refresh_turn_def refresh_result_def allHandles_def)

text \<open>Disposing of a registration removes the callback, its first occurrence, while it is registered; when it
  is not, because it was one-shot or was disposed of before, the last callback of the observable,
  somebody else's, is removed instead.\<close>

theorem unregister_exact:
  "obs_callbacks (observable_unregister cb x) =
     (if cb \<in> set (obs_callbacks x) then remove1 cb (obs_callbacks x) else butlast (obs_callbacks x))"
proof (cases "cb \<in> set (obs_callbacks x)")
  case False
  then have "indexOf (obs_callbacks x) cb = -1"
    using indexOf_neg [of "obs_callbacks x" cb] indexOf_range [of "obs_callbacks x" cb] by linarith
  then show ?thesis using False by (simp add: observable_unregister_def splice1_minus_one)
qed (simp add: observable_unregister_def splice1_indexOf)

end
