(* ===== verification/Settings.thy ===== *)
theory Settings
  imports Prelude "HOL-Library.AList"
begin

text \<open>
  \<open>src/src/debug/options.ts\<close> and \<open>src/src/debug/watch.ts\<close>: the two stores kept in the
  editor's configuration, the display options per variable and the watch list.

  The configuration itself belongs to the editor.  \<open>configuration\<close> is the value its getters
  return (\<open>None\<close> for a setting never written), and a store operation yields the
  configuration with the update it requested applied.
\<close>

section \<open>Stored values\<close>

datatype variable_options = VariableOptions (radix: "nat option")

datatype watch_item = WatchItem (watch_id: string) (watch_row: "int option") (watch_bit: "int option")

datatype display_style = Python | Verilog | VHDL

record configuration =
  cfg_variableOptions :: "(string \<times> variable_options) list option"
  cfg_watchList :: "watch_item list option"
  cfg_displayStyle :: display_style

section \<open>Variable options\<close>

text \<open>
  A key that the object does not own may be inherited from \<open>Object.prototype\<close>; the inherited
  value has no \<open>radix\<close> and no own entries, so it reads like the empty options.
\<close>

definition options_get :: "string \<Rightarrow> configuration \<Rightarrow> variable_options" where
  "options_get i c =
     (case map_of (case cfg_variableOptions c of None \<Rightarrow> [] | Some st \<Rightarrow> st) i of
        None \<Rightarrow> VariableOptions None
      | Some opts \<Rightarrow> opts)"

text \<open>Assigning to \<open>__proto__\<close> sets the prototype and creates no entry.\<close>

definition options_set :: "string \<Rightarrow> variable_options \<Rightarrow> configuration \<Rightarrow> configuration" where
  "options_set i opts c =
     (let st = (case cfg_variableOptions c of None \<Rightarrow> [] | Some st \<Rightarrow> st)
      in c\<lparr>cfg_variableOptions := Some (if i = ''__proto__'' then st else AList.update i opts st)\<rparr>)"

definition assign_options :: "variable_options \<Rightarrow> variable_options \<Rightarrow> variable_options" where
  "assign_options opts added =
     VariableOptions (case radix added of Some r \<Rightarrow> Some r | None \<Rightarrow> radix opts)"

definition options_update :: "string \<Rightarrow> variable_options \<Rightarrow> configuration \<Rightarrow> configuration" where
  "options_update i added c = options_set i (assign_options (options_get i c) added) c"

section \<open>Watch list\<close>

definition watch_get :: "configuration \<Rightarrow> watch_item list" where
  "watch_get c = (case cfg_watchList c of None \<Rightarrow> [] | Some items \<Rightarrow> items)"

definition watch_set :: "watch_item list \<Rightarrow> configuration \<Rightarrow> configuration" where
  "watch_set items c = c\<lparr>cfg_watchList := Some items\<rparr>"

definition watch_append :: "watch_item \<Rightarrow> configuration \<Rightarrow> configuration" where
  "watch_append item c = watch_set (watch_get c @ [item]) c"

definition watch_remove :: "int \<Rightarrow> configuration \<Rightarrow> configuration" where
  "watch_remove index c = watch_set (splice1 index (watch_get c)) c"

text \<open>\<open>affects\<close> is the editor's predicate on the changed section.\<close>

definition watch_onDidChange ::
  "(string \<Rightarrow> bool) \<Rightarrow> (watch_item list \<Rightarrow> 'a) \<Rightarrow> configuration \<Rightarrow> 'a option" where
  "watch_onDidChange affects callback c =
     (if affects ''rtlDebugger.watchList'' then Some (callback (watch_get c)) else None)"

section \<open>The store contracts\<close>

text \<open>
  The contract of \<open>IVariableOptionStore\<close> on the identifiers it can hold.
\<close>

locale option_store =
  fixes lookup :: "'k \<Rightarrow> 'c \<Rightarrow> 'o"
    and put :: "'k \<Rightarrow> 'o \<Rightarrow> 'c \<Rightarrow> 'c"
    and merge :: "'o \<Rightarrow> 'o \<Rightarrow> 'o"
    and holds :: "'k \<Rightarrow> bool"
  assumes lookup_put: "holds k \<Longrightarrow> lookup k (put k v c) = v"
    and lookup_put_other: "k \<noteq> j \<Longrightarrow> lookup j (put k v c) = lookup j c"
    and merge_merge: "merge (merge u v) w = merge u (merge v w)"
begin

definition amend :: "'k \<Rightarrow> 'o \<Rightarrow> 'c \<Rightarrow> 'c" where
  "amend k v c = put k (merge (lookup k c) v) c"

lemma lookup_amend: "holds k \<Longrightarrow> lookup k (amend k v c) = merge (lookup k c) v"
  by (simp add: amend_def lookup_put)

lemma lookup_amend_other: "k \<noteq> j \<Longrightarrow> lookup j (amend k v c) = lookup j c"
  by (simp add: amend_def lookup_put_other)

lemma lookup_amend_list:
  "holds k \<Longrightarrow> lookup k (fold (\<lambda>(j, v) c. amend j v c) us c) =
     fold (\<lambda>v u. merge u v) (map snd (filter (\<lambda>u. fst u = k) us)) (lookup k c)"
proof (induction us arbitrary: c)
  case Nil
  then show ?case by simp
next
  case (Cons u us)
  then show ?case
    by (cases u; cases "fst u = k") (auto simp: lookup_amend lookup_amend_other)
qed

end

text \<open>
  The contract of \<open>IWatchList\<close>: a list that is appended to at the end and shortened by index.
\<close>

locale watch_store =
  fixes items :: "'c \<Rightarrow> 'i list"
    and push :: "'i \<Rightarrow> 'c \<Rightarrow> 'c"
    and drop_at :: "int \<Rightarrow> 'c \<Rightarrow> 'c"
  assumes items_push: "items (push x c) = items c @ [x]"
    and items_drop_at: "items (drop_at (int k) c) = take k (items c) @ drop (Suc k) (items c)"
begin

lemma drop_pushed: "items (drop_at (int (length (items c))) (push x c)) = items c"
  by (simp add: items_push items_drop_at)

lemma drop_keeps_others:
  "k < length (items c) \<Longrightarrow> items c = take k (items (drop_at (int k) c)) @ (items c ! k) #
     drop k (items (drop_at (int k) c))"
  by (simp add: items_drop_at min_def id_take_nth_drop)

lemma drop_beyond: "length (items c) \<le> k \<Longrightarrow> items (drop_at (int k) c) = items c"
  by (simp add: items_drop_at)

end

lemma map_of_store: "map_of (AList.update i opts st) j = (if j = i then Some opts else map_of st j)"
  by (simp add: update_conv)

interpretation options: option_store options_get options_set assign_options "\<lambda>i. i \<noteq> ''__proto__''"
  by unfold_locales
    (auto simp: options_get_def options_set_def assign_options_def map_of_store Let_def split: option.splits)

interpretation watch: watch_store watch_get watch_append watch_remove
  by unfold_locales
    (simp_all add: watch_append_def watch_remove_def watch_set_def splice1_nat, simp_all add: watch_get_def)

lemma options_update_amend: "options_update = options.amend"
  by (intro ext) (simp add: options_update_def options.amend_def)

section \<open>Properties\<close>

text \<open>After any sequence of option updates a variable shows with the radix of the last update that
  set one for it, whatever was done to other variables.\<close>

theorem options_last_update:
  assumes "i \<noteq> ''__proto__''"
  shows "options_get i (fold (\<lambda>(j, v). options_update j v) us c) =
    fold (\<lambda>v u. assign_options u v) (map snd (filter (\<lambda>u. fst u = i) us)) (options_get i c)"
  using options.lookup_amend_list [OF assms] by (simp add: options_update_amend)

theorem options_last_update_witness:
  "radix (options_get ''a'' (fold (\<lambda>(j, v). options_update j v)
      [(''a'', VariableOptions (Some 2)), (''b'', VariableOptions (Some 8)), (''a'', VariableOptions (Some 16))]
      \<lparr>cfg_variableOptions = None, cfg_watchList = None, cfg_displayStyle = Verilog\<rparr>)) = Some 16"
  using options_last_update [of "''a''"
      "[(''a'', VariableOptions (Some 2)), (''b'', VariableOptions (Some 8)), (''a'', VariableOptions (Some 16))]"]
  by (simp add: assign_options_def)

text \<open>Removing a watch entry by its index takes out exactly that entry and keeps the order of the
  others; an index past the end changes nothing, and a fresh entry can be taken back.\<close>

theorem watch_remove_exact:
  assumes "k < length (watch_get c)"
  shows "watch_get (watch_remove (int k) c) = take k (watch_get c) @ drop (Suc k) (watch_get c)
    \<and> watch_get (watch_remove (int (length (watch_get c))) (watch_append x c)) = watch_get c
    \<and> watch_get (watch_remove (int (length (watch_get c) + j)) c) = watch_get c"
  using assms watch.items_drop_at watch.drop_pushed watch.drop_beyond by (simp del: of_nat_add)

theorem watch_remove_exact_witness:
  "watch_get (watch_remove 1
      \<lparr>cfg_variableOptions = None, cfg_watchList = Some [WatchItem ''a'' None None, WatchItem ''b'' None (Some 3)],
        cfg_displayStyle = Verilog\<rparr>) = [WatchItem ''a'' None None]"
  using watch_remove_exact [of 1 "\<lparr>cfg_variableOptions = None,
      cfg_watchList = Some [WatchItem ''a'' None None, WatchItem ''b'' None (Some 3)], cfg_displayStyle = Verilog\<rparr>"]
  by (simp add: watch_get_def)

end
