(* ===== verification/Styling.thy ===== *)
theory Styling
  imports Variables Settings
begin

text \<open>
  \<open>src/src/model/styling.ts\<close>: how variables and their values are written in the three display
  styles.  A \<open>switch\<close> whose inner \<open>switch\<close> matches no radix falls through to the next
  style; the function then returns \<open>undefined\<close>, which is \<open>None\<close> here.
\<close>

section \<open>Descriptions\<close>

definition bracket :: "string \<Rightarrow> string" where
  "bracket s = ''['' @ s @ '']''"

definition range_text :: "int \<Rightarrow> int \<Rightarrow> string" where
  "range_text a b = int_str a @ '':'' @ int_str b"

definition is_memory :: "variable \<Rightarrow> bool" where
  "is_memory v = (case v of MemoryVariable _ _ _ _ _ _ \<Rightarrow> True | ScalarVariable _ _ _ _ \<Rightarrow> False)"

definition python_description :: "variable \<Rightarrow> bool \<Rightarrow> string" where
  "python_description v scalar =
     (if is_memory v \<and> \<not> scalar then
        (if zeroAt v = 0 then bracket (nat_str 10 (depth v)) @ '' ''
         else bracket (range_text (zeroAt v) (zeroAt v + int (depth v))) @ '' '')
      else '''') @
     (if lsbAt v = 0 then bracket (nat_str 10 (width v))
      else bracket (range_text (lsbAt v) (lsbAt v + int (width v))) @ '' '')"

definition hdl_description :: "variable \<Rightarrow> bool \<Rightarrow> string" where
  "hdl_description v scalar =
     bracket (range_text (lsbAt v + int (width v) - 1) (lsbAt v)) @
     (if is_memory v \<and> \<not> scalar
      then '' '' @ bracket (range_text (zeroAt v) (zeroAt v + int (depth v) - 1)) @ '' ''
      else '''')"

definition variableDescription :: "display_style \<Rightarrow> variable \<Rightarrow> bool \<Rightarrow> string" where
  "variableDescription style v scalar =
     (if \<not> is_memory v \<and> lsbAt v = 0 \<and> width v = 1 then ''''
      else (case style of
              Python \<Rightarrow> python_description v scalar
            | Verilog \<Rightarrow> hdl_description v scalar
            | VHDL \<Rightarrow> hdl_description v scalar))"

section \<open>Indices\<close>

definition variableBitIndices :: "display_style \<Rightarrow> variable \<Rightarrow> int list" where
  "variableBitIndices style v =
     (case style of
        Python \<Rightarrow> map (\<lambda>index. lsbAt v + int index) [0..<width v]
      | _ \<Rightarrow> map (\<lambda>index. lsbAt v + int index) (rev [0..<width v]))"

definition memoryRowIndices :: "variable \<Rightarrow> int list" where
  "memoryRowIndices v = map (\<lambda>index. zeroAt v + int index) [0..<depth v]"

section \<open>Values\<close>

definition vhdl_value :: "nat \<Rightarrow> nat \<Rightarrow> string option" where
  "vhdl_value r n =
     (if r = 2 then Some (''B'' @ [CHR 0x22] @ nat_str 2 n @ [CHR 0x22])
      else if r = 8 then Some (''O'' @ [CHR 0x22] @ nat_str 8 n @ [CHR 0x22])
      else if r = 10 then Some (nat_str 10 n)
      else if r = 16 then Some (''X'' @ [CHR 0x22] @ nat_str 16 n @ [CHR 0x22])
      else None)"

definition verilog_value :: "nat \<Rightarrow> nat \<Rightarrow> nat \<Rightarrow> string option" where
  "verilog_value w r n =
     (if r = 2 then Some (nat_str 10 w @ [CHR 0x27] @ ''b'' @ nat_str 2 n)
      else if r = 8 then Some (nat_str 10 w @ [CHR 0x27] @ ''o'' @ nat_str 8 n)
      else if r = 10 then Some (nat_str 10 w @ [CHR 0x27] @ ''d'' @ nat_str 10 n)
      else if r = 16 then Some (nat_str 10 w @ [CHR 0x27] @ ''h'' @ nat_str 16 n)
      else vhdl_value r n)"

definition python_value :: "nat \<Rightarrow> nat \<Rightarrow> nat \<Rightarrow> string option" where
  "python_value w r n =
     (if r = 2 then Some (''0b'' @ nat_str 2 n)
      else if r = 8 then Some (''0o'' @ nat_str 8 n)
      else if r = 10 then Some (nat_str 10 n)
      else if r = 16 then Some (''0x'' @ nat_str 16 n)
      else verilog_value w r n)"

text \<open>\<open>opts\<close> is \<open>globalVariableOptions.get\<close>; \<open>r ?? 10\<close> is the case on the radix.\<close>

definition variableValue ::
  "(string \<Rightarrow> variable_options) \<Rightarrow> display_style \<Rightarrow> variable \<Rightarrow> nat option \<Rightarrow> nat option \<Rightarrow> string option" where
  "variableValue opts style v value r =
     (case value of
        None \<Rightarrow> Some ''...''
      | Some x \<Rightarrow>
          (let n = x mod 2 ^ width v in
           if width v = 1 then Some (nat_str 10 n)
           else (let rdx = (case r of Some q \<Rightarrow> q
                            | None \<Rightarrow> (case radix (opts (cxxrtlIdentifier v)) of Some q \<Rightarrow> q | None \<Rightarrow> 10))
                 in case style of
                      Python \<Rightarrow> python_value (width v) rdx n
                    | Verilog \<Rightarrow> verilog_value (width v) rdx n
                    | VHDL \<Rightarrow> vhdl_value rdx n)))"

section \<open>Tooltips\<close>

datatype tooltip = Tooltip (tip_text: string) (isTrusted: bool)

definition variableTooltip :: "(location \<Rightarrow> string) \<Rightarrow> variable \<Rightarrow> tooltip" where
  "variableTooltip markdown_link v =
     Tooltip (join ''.'' (fullName v) @
       (case var_location v of None \<Rightarrow> '''' | Some l \<Rightarrow> [CHR 0x0A, CHR 0x0A] @ ''- '' @ markdown_link l)) True"

section \<open>What a rendered value consists of\<close>

definition value_prefix :: "display_style \<Rightarrow> nat \<Rightarrow> nat \<Rightarrow> string" where
  "value_prefix style w r =
     (if w = 1 then ''''
      else case style of
        Python \<Rightarrow> (if r = 2 then ''0b'' else if r = 8 then ''0o'' else if r = 16 then ''0x'' else '''')
      | Verilog \<Rightarrow> nat_str 10 w @ [CHR 0x27] @
          (if r = 2 then ''b'' else if r = 8 then ''o'' else if r = 16 then ''h'' else ''d'')
      | VHDL \<Rightarrow> (if r = 2 then ''B'' @ [CHR 0x22] else if r = 8 then ''O'' @ [CHR 0x22]
          else if r = 16 then ''X'' @ [CHR 0x22] else ''''))"

definition value_suffix :: "display_style \<Rightarrow> nat \<Rightarrow> nat \<Rightarrow> string" where
  "value_suffix style w r = (if style = VHDL \<and> w \<noteq> 1 \<and> r \<noteq> 10 then [CHR 0x22] else '''')"

definition known_radix :: "nat \<Rightarrow> bool" where
  "known_radix r \<longleftrightarrow> r = 2 \<or> r = 8 \<or> r = 10 \<or> r = 16"

definition digit_base :: "nat \<Rightarrow> nat \<Rightarrow> nat" where
  "digit_base w r = (if w = 1 then 10 else r)"

lemma variableValue_text:
  assumes "known_radix r"
  shows "variableValue opts style v (Some x) (Some r) =
    Some (value_prefix style (width v) r @ nat_str (digit_base (width v) r) (x mod 2 ^ width v) @
      value_suffix style (width v) r)"
  using assms
  by (cases style)
    (auto simp: variableValue_def python_value_def verilog_value_def vhdl_value_def value_prefix_def
      value_suffix_def known_radix_def digit_base_def Let_def)

lemma digit_base_known: "known_radix r \<Longrightarrow> 2 \<le> digit_base w r \<and> digit_base w r \<le> 36"
  by (auto simp: known_radix_def digit_base_def)

section \<open>Properties\<close>

text \<open>C38: in every style and radix the digits shown denote the value cut to the variable's width, so
  stray bits beyond the width are never shown and two different values of one variable never look
  the same.\<close>

theorem variableValue_faithful:
  assumes "known_radix r"
  shows "(\<exists>ds. variableValue opts style v (Some x) (Some r) =
        Some (value_prefix style (width v) r @ ds @ value_suffix style (width v) r)
      \<and> str_nat (digit_base (width v) r) ds = x mod 2 ^ width v)
    \<and> (variableValue opts style v (Some x) (Some r) = variableValue opts style v (Some y) (Some r)
        \<longleftrightarrow> x mod 2 ^ width v = y mod 2 ^ width v)"
  using digit_base_known [OF assms, of "width v"]
  by (auto simp: variableValue_text [OF assms] str_nat_nat_str dest: nat_str_inj)

theorem variableValue_faithful_witness:
  "variableValue (\<lambda>_. VariableOptions None) Verilog (ScalarVariable [''a''] None 0 4) (Some 16) (Some 16) =
   variableValue (\<lambda>_. VariableOptions None) Verilog (ScalarVariable [''a''] None 0 4) (Some 0) (Some 16)"
  using variableValue_faithful [of 16 "\<lambda>_. VariableOptions None" Verilog "ScalarVariable [''a''] None 0 4" 16 0]
  by (simp add: known_radix_def)

text \<open>With no radix argument the radix stored for the variable's identifier is used, and 10 when
  none is stored; a stored radix other than 2, 8, 10 and 16 falls through every style and no text at
  all is returned for a variable wider than one bit.\<close>

theorem variableValue_default_radix:
  "variableValue opts style v value None =
     variableValue opts style v value
       (Some (case radix (opts (cxxrtlIdentifier v)) of Some q \<Rightarrow> q | None \<Rightarrow> 10))
   \<and> (known_radix r \<or> width v = 1 \<or> variableValue opts style v (Some x) (Some r) = None)"
  by (cases style)
    (auto simp: variableValue_def python_value_def verilog_value_def vhdl_value_def known_radix_def
      Let_def split: option.splits)

text \<open>The bit indices listed for a variable are exactly those from its least significant index
  upwards, each once, ascending in the Python style and descending in the HDL styles; the row indices
  of a memory likewise start at its first address.\<close>

theorem bit_indices_exact:
  "set (variableBitIndices style v) = {lsbAt v ..< lsbAt v + int (width v)}
   \<and> distinct (variableBitIndices style v) \<and> length (variableBitIndices style v) = width v
   \<and> sorted (variableBitIndices Python v)
   \<and> variableBitIndices Verilog v = rev (variableBitIndices Python v)
   \<and> variableBitIndices VHDL v = variableBitIndices Verilog v
   \<and> set (memoryRowIndices v) = {zeroAt v ..< zeroAt v + int (depth v)} \<and> sorted (memoryRowIndices v)"
proof -
  have shift: "(\<lambda>i. a + int i) ` {0..<n} = {a ..< a + int n}" for a n
  proof
    show "{a ..< a + int n} \<subseteq> (\<lambda>i. a + int i) ` {0..<n}"
    proof
      fix z
      assume "z \<in> {a ..< a + int n}"
      then have "nat (z - a) \<in> {0..<n}" "z = a + int (nat (z - a))" by auto
      then show "z \<in> (\<lambda>i. a + int i) ` {0..<n}" by blast
    qed
  qed auto
  have "distinct (map (\<lambda>i. a + int i) [0..<n])" "sorted (map (\<lambda>i. a + int i) [0..<n])" for a n
    by (simp add: distinct_map inj_on_def) (induction n, auto simp: sorted_append)
  then show ?thesis
    using shift by (cases style) (auto simp: variableBitIndices_def memoryRowIndices_def simp flip: rev_map)
qed

text \<open>Only the plain one-bit scalar has an empty description; a description never hides the
  width: in the Python style a zero-based variable shows its width, and the HDL styles show its
  most and least significant index.\<close>

theorem description_shows_range:
  "(variableDescription style v scalar = '''' \<longleftrightarrow> \<not> is_memory v \<and> lsbAt v = 0 \<and> width v = 1)
   \<and> variableDescription VHDL v scalar = variableDescription Verilog v scalar
   \<and> variableDescription Verilog (MemoryVariable p l a w z dp) True =
       bracket (range_text (a + int w - 1) a)
   \<and> variableDescription Python (MemoryVariable p l a w 0 dp) False =
       bracket (nat_str 10 dp) @ '' '' @ variableDescription Python (MemoryVariable p l a w 0 dp) True"
  by (cases style)
    (auto simp: variableDescription_def python_description_def hdl_description_def bracket_def is_memory_def)

end
