(* ===== verification/Sidebar.thy ===== *)
theory Sidebar
  imports Observer Session_Design Styling
begin

text \<open>
  \<open>src/src/ui/sidebar.ts\<close>: the tree of the side bar.  \<open>tree_item\<close> has one constructor per class
  of tree items, with the fields of the class; \<open>metadata.index\<close> of a watched item is paired with
  it.  \<open>tree_view\<close> is what \<open>getTreeItem\<close> hands to the editor.

  \<open>ui_env\<close> holds what the items read from elsewhere: the display style, the stored variable options
  and the editor's own rendering of locations and URIs.  The values come from the observer through
  \<open>getValue\<close>; the children of scopes and of the watch list come from the session.
\<close>

section \<open>Items\<close>

datatype tree_item =
    BitTreeItem (item_designation_of: designation) (bitIndex: int) (contextValue: string)
  | ScalarTreeItem (item_designation_of: designation) (contextValue: string)
  | ArrayTreeItem (item_designation_of: designation) (contextValue: string)
  | ScopeTreeItem scope
  | WatchTreeItem

datatype tree_label = LabelText string | HierarchyHeading | WatchHeading bool

datatype collapsible = NoChildren | Collapsed | Expanded

record tree_view =
  view_label :: tree_label
  view_icon :: "string option"
  view_description :: "string option"
  view_tooltip :: "tooltip option"
  view_collapsible :: collapsible
  view_command :: "string editor_command option"
  view_context :: "string option"

record ui_env =
  env_style :: display_style
  env_options :: "string \<Rightarrow> variable_options"
  env_link :: "location \<Rightarrow> string"
  env_uri :: "string \<Rightarrow> string"

definition plain_view :: "tree_label \<Rightarrow> collapsible \<Rightarrow> tree_view" where
  "plain_view label col =
     \<lparr>view_label = label, view_icon = None, view_description = None, view_tooltip = None,
      view_collapsible = col, view_command = None, view_context = None\<rparr>"

section \<open>Rendering\<close>

definition label_name :: "variable \<Rightarrow> string" where
  "label_name v = (case variable_name v of Some n \<Rightarrow> n | None \<Rightarrow> ''undefined'')"

definition row_label :: "designation \<Rightarrow> string" where
  "row_label d = (case d of MemoryRowDesignation v i \<Rightarrow> ''['' @ int_str i @ '']'' | _ \<Rightarrow> '''')"

definition bits_value :: "desig_value option \<Rightarrow> nat option" where
  "bits_value x = (case x of Some (Bits n) \<Rightarrow> Some n | _ \<Rightarrow> None)"

text \<open>\<open>value & (1n << BigInt(bitIndex))\<close>; a shift by a negative number is a shift to the right.\<close>

definition bit_set :: "nat \<Rightarrow> int \<Rightarrow> bool" where
  "bit_set n i = (if i < 0 then False else bit n (nat i))"

definition bit_description :: "desig_value option \<Rightarrow> int \<Rightarrow> string" where
  "bit_description x i =
     (case bits_value x of
        None \<Rightarrow> ''= ...''
      | Some n \<Rightarrow> if bit_set n i then ''= 1'' else ''= 0'')"

definition bit_view :: "ui_env \<Rightarrow> desig_value option \<Rightarrow> designation \<Rightarrow> int \<Rightarrow> string \<Rightarrow> tree_view" where
  "bit_view env x d i ctx =
     (plain_view (LabelText (label_name (desig_variable d) @ row_label d @ ''['' @ int_str i @ '']'')) NoChildren)
       \<lparr>view_icon := Some ''symbol-boolean'', view_description := Some (bit_description x i),
        view_tooltip := Some (variableTooltip (env_link env) (desig_variable d)), view_context := Some ctx\<rparr>"

definition scalar_description :: "ui_env \<Rightarrow> desig_value option \<Rightarrow> variable \<Rightarrow> string" where
  "scalar_description env x v =
     (let d = variableDescription (env_style env) v True
      in d @ (if d \<noteq> '''' then '' = '' else ''= '') @
         (case variableValue (env_options env) (env_style env) v (bits_value x) None of
            Some t \<Rightarrow> t | None \<Rightarrow> ''undefined''))"

definition scalar_view :: "ui_env \<Rightarrow> desig_value option \<Rightarrow> designation \<Rightarrow> string \<Rightarrow> tree_view" where
  "scalar_view env x d ctx =
     (let v = desig_variable d
      in (plain_view (LabelText (label_name v @ row_label d)) (if 1 < width v then Collapsed else NoChildren))
           \<lparr>view_icon := Some (if width v = 1 then ''symbol-boolean'' else ''symbol-variable''),
            view_description := Some (scalar_description env x v),
            view_tooltip := Some (variableTooltip (env_link env) v),
            view_command := map_option (asOpenCommand (env_uri env)) (var_location v),
            view_context := Some ctx\<rparr>)"

definition array_view :: "ui_env \<Rightarrow> designation \<Rightarrow> string \<Rightarrow> tree_view" where
  "array_view env d ctx =
     (let v = desig_variable d
      in (plain_view (LabelText (label_name v)) Collapsed)
           \<lparr>view_icon := Some ''symbol-array'',
            view_description := Some (variableDescription (env_style env) v False),
            view_tooltip := Some (variableTooltip (env_link env) v),
            view_command := map_option (asOpenCommand (env_uri env)) (var_location v),
            view_context := Some ctx\<rparr>)"

definition scope_tooltip :: "ui_env \<Rightarrow> scope \<Rightarrow> tooltip" where
  "scope_tooltip env sc =
     Tooltip (join ''.'' (scope_fullName sc) @
       (case scope_location sc of
          None \<Rightarrow> ''''
        | Some l \<Rightarrow> [CHR 0x0A, CHR 0x0A] @ ''- '' @ env_link env l @
            (case moduleLocation sc of None \<Rightarrow> '''' | Some m \<Rightarrow> [CHR 0x0A] @ ''- '' @ env_link env m))) True"

text \<open>The variables are asked for only when there are no scopes.\<close>

definition scope_view :: "ui_env \<Rightarrow> scope \<Rightarrow> (session, tree_view) async" where
  "scope_view env sc =
     (if scope_name sc = '''' then return (plain_view HierarchyHeading Expanded)
      else (let shown = (\<lambda>col. (plain_view (LabelText (scope_name sc)) col)
                  \<lparr>view_icon := Some ''symbol-module'', view_description := Some (join ''.'' (moduleFullName sc)),
                   view_tooltip := Some (scope_tooltip env sc),
                   view_command := map_option (asOpenCommand (env_uri env)) (scope_location sc)\<rparr>)
            in await (scope_scopes sc) (\<lambda>ss.
                 if 0 < length ss then return (shown Collapsed)
                 else await (scope_variables sc) (\<lambda>vs.
                   return (shown (if 0 < length vs then Collapsed else NoChildren))))))"

definition watch_view :: "configuration \<Rightarrow> tree_view" where
  "watch_view cfg =
     (if 0 < length (watch_get cfg) then plain_view (WatchHeading True) Expanded
      else plain_view (WatchHeading False) NoChildren)"

section \<open>Children\<close>

definition scalar_children :: "ui_env \<Rightarrow> designation \<Rightarrow> tree_item list" where
  "scalar_children env d =
     map (\<lambda>i. BitTreeItem d i ''canWatch'') (variableBitIndices (env_style env) (desig_variable d))"

definition array_children :: "designation \<Rightarrow> tree_item list" where
  "array_children d =
     map (\<lambda>i. ScalarTreeItem (designation_of_memory (desig_variable d) (Some i) None) ''canWatch'')
       (memoryRowIndices (desig_variable d))"

definition variable_item :: "variable \<Rightarrow> tree_item" where
  "variable_item v =
     (case v of
        ScalarVariable _ _ _ w \<Rightarrow>
          ScalarTreeItem (designation_of_scalar v) (if 1 < w then ''canWatch|canSetRadix'' else ''canWatch'')
      | MemoryVariable _ _ _ _ _ _ \<Rightarrow>
          ArrayTreeItem (designation_of_memory v None None) ''canWatch|canSetRadix'')"

definition scope_children :: "scope \<Rightarrow> (session, tree_item list) async" where
  "scope_children sc =
     await (scope_scopes sc) (\<lambda>ss. await (scope_variables sc) (\<lambda>vs.
       return (map ScopeTreeItem ss @ map variable_item vs)))"

section \<open>The watch list\<close>

text \<open>The row is \<open>undefined\<close> unless the designation is that of a row.\<close>

definition designated_row :: "designation \<Rightarrow> int option" where
  "designated_row d = (case d of MemoryRowDesignation v i \<Rightarrow> Some i | _ \<Rightarrow> None)"

definition bit_getWatchItem :: "designation \<Rightarrow> int \<Rightarrow> watch_item" where
  "bit_getWatchItem d i = WatchItem (cxxrtlIdentifier (desig_variable d)) (designated_row d) (Some i)"

definition scalar_getWatchItem :: "designation \<Rightarrow> watch_item" where
  "scalar_getWatchItem d = WatchItem (cxxrtlIdentifier (desig_variable d)) (designated_row d) None"

definition array_getWatchItem :: "designation \<Rightarrow> watch_item" where
  "array_getWatchItem d = WatchItem (cxxrtlIdentifier (desig_variable d)) None None"

lemmas watch_item_defs = designated_row_def bit_getWatchItem_def scalar_getWatchItem_def array_getWatchItem_def

text \<open>The dispatch; the other two classes do not have the method.\<close>

definition getWatchItem :: "tree_item \<Rightarrow> watch_item option" where
  "getWatchItem t =
     (case t of
        BitTreeItem d i ctx \<Rightarrow> Some (bit_getWatchItem d i)
      | ScalarTreeItem d ctx \<Rightarrow> Some (scalar_getWatchItem d)
      | ArrayTreeItem d ctx \<Rightarrow> Some (array_getWatchItem d)
      | _ \<Rightarrow> None)"

definition watch_designation :: "watch_item \<Rightarrow> variable \<Rightarrow> designation" where
  "watch_designation w v =
     (case v of
        ScalarVariable _ _ _ _ \<Rightarrow> designation_of_scalar v
      | MemoryVariable _ _ _ _ _ _ \<Rightarrow>
          (case watch_row w of
             None \<Rightarrow> designation_of_memory v None None
           | Some i \<Rightarrow> designation_of_memory v (Some i) None))"

definition watch_item_for :: "watch_item \<Rightarrow> variable \<Rightarrow> tree_item" where
  "watch_item_for w v =
     (let d = watch_designation w v
      in case d of
           MemoryRangeDesignation _ _ _ \<Rightarrow> ArrayTreeItem d ''inWatchList|canSetRadix''
         | _ \<Rightarrow>
             (case watch_bit w of
                None \<Rightarrow> ScalarTreeItem d (if 1 < width (desig_variable d) then ''inWatchList|canSetRadix'' else ''inWatchList'')
              | Some i \<Rightarrow> BitTreeItem d i ''inWatchList''))"

section \<open>The provider\<close>

text \<open>
  \<open>awaited\<close> are the sessions whose root scope has been asked for and has not arrived;
  \<open>refreshes\<close> counts the calls of \<open>_onDidChangeTreeData.fire(null)\<close>, \<open>watch_refreshes\<close> those for the
  watch item.  Sessions are numbered.
\<close>

record tree_provider =
  provider_session :: "nat option"
  provider_observer :: "observer option"
  watchTreeItem :: bool
  scopeTreeItem :: "scope option"
  awaited :: "nat list"
  refreshes :: nat
  watch_refreshes :: nat

text \<open>\<open>this.session!.getVariable(identifier)\<close>; \<open>this.session\<close> is the session the tasks run on.\<close>

definition provider_getVariable :: "tree_provider \<Rightarrow> string \<Rightarrow> (session, variable option) async" where
  "provider_getVariable p identifier =
     (case provider_session p of
        None \<Rightarrow> throw (TypeError ''Cannot read properties of null'')
      | Some i \<Rightarrow> getVariable identifier)"

text \<open>An entry whose variable is not in the design is passed over; the others keep their index.\<close>

fun watch_children_from :: "tree_provider \<Rightarrow> nat \<Rightarrow> watch_item list \<Rightarrow> (session, (tree_item \<times> nat) list) async" where
  "watch_children_from p index [] = return []"
| "watch_children_from p index (w # ws) =
     await (provider_getVariable p (watch_id w)) (\<lambda>found.
       await (watch_children_from p (Suc index) ws) (\<lambda>rest.
         return (case found of None \<Rightarrow> rest | Some v \<Rightarrow> (watch_item_for w v, index) # rest)))"

definition watch_children :: "tree_provider \<Rightarrow> configuration \<Rightarrow> (session, (tree_item \<times> nat) list) async" where
  "watch_children p cfg = watch_children_from p 0 (watch_get cfg)"

definition session_changed :: "(nat \<times> session) option \<Rightarrow> tree_provider \<Rightarrow> tree_provider" where
  "session_changed new p =
     (case new of
        Some (i, s) \<Rightarrow>
          p\<lparr>provider_session := Some i, provider_observer := Some (new_Observer ''sidebar'' s), watchTreeItem := True,
            awaited := awaited p @ [i]\<rparr>
      | None \<Rightarrow>
          p\<lparr>provider_session := None, provider_observer := None, watchTreeItem := False, scopeTreeItem := None,
            refreshes := Suc (refreshes p)\<rparr>)"

definition root_arrived :: "nat \<Rightarrow> scope \<Rightarrow> tree_provider \<Rightarrow> tree_provider" where
  "root_arrived i sc p =
     (if i \<in> set (awaited p)
      then p\<lparr>awaited := removeAll i (awaited p), scopeTreeItem := Some sc, refreshes := Suc (refreshes p)\<rparr>
      else p)"

text \<open>The listeners on the editor's configuration; \<open>affects\<close> is the editor's predicate on its sections.\<close>

definition configuration_changed :: "(string \<Rightarrow> bool) \<Rightarrow> tree_provider \<Rightarrow> tree_provider" where
  "configuration_changed affects p =
     (if affects ''rtlDebugger.displayStyle'' \<or> affects ''rtlDebugger.variableOptions''
      then p\<lparr>refreshes := Suc (refreshes p)\<rparr> else p)"

definition watch_list_changed :: "(string \<Rightarrow> bool) \<Rightarrow> configuration \<Rightarrow> tree_provider \<Rightarrow> tree_provider" where
  "watch_list_changed affects cfg p =
     (case watch_onDidChange affects
             (\<lambda>items. if watchTreeItem p then p\<lparr>watch_refreshes := Suc (watch_refreshes p)\<rparr> else p) cfg of
        Some p' \<Rightarrow> p'
      | None \<Rightarrow> p)"

definition provider_children :: "tree_provider \<Rightarrow> tree_item list" where
  "provider_children p =
     (if watchTreeItem p then [WatchTreeItem] else []) @
     (case scopeTreeItem p of None \<Rightarrow> [] | Some sc \<Rightarrow> [ScopeTreeItem sc])"

text \<open>The one-shot callback is registered before the value is read.\<close>

definition getValue :: "designation \<Rightarrow> nat \<Rightarrow> tree_provider \<Rightarrow> desig_value option \<times> tree_provider" where
  "getValue d cb p =
     (case provider_observer p of
        None \<Rightarrow> (None, p)
      | Some ob \<Rightarrow> (let ob' = observe d cb ob in (observer_query d ob', p\<lparr>provider_observer := Some ob'\<rparr>)))"

definition no_provider :: tree_provider where
  "no_provider =
     \<lparr>provider_session = None, provider_observer = None, watchTreeItem = False, scopeTreeItem = None,
      awaited = [], refreshes = 0, watch_refreshes = 0\<rparr>"

section \<open>Watching what the tree shows\<close>

text \<open>All items the tree has for a variable: itself, its rows and its bits.\<close>

definition design_items :: "ui_env \<Rightarrow> variable \<Rightarrow> tree_item list" where
  "design_items env v =
     variable_item v #
     (case v of
        ScalarVariable _ _ _ _ \<Rightarrow> scalar_children env (designation_of_scalar v)
      | MemoryVariable _ _ _ _ _ _ \<Rightarrow>
          concat (map (\<lambda>t. t # scalar_children env (item_designation_of t))
            (array_children (designation_of_memory v None None))))"

definition same_item :: "tree_item \<Rightarrow> tree_item \<Rightarrow> bool" where
  "same_item t u =
     (case (t, u) of
        (BitTreeItem d i _, BitTreeItem e j _) \<Rightarrow> d = e \<and> i = j
      | (ScalarTreeItem d _, ScalarTreeItem e _) \<Rightarrow> d = e
      | (ArrayTreeItem d _, ArrayTreeItem e _) \<Rightarrow> d = e
      | _ \<Rightarrow> False)"

text \<open>Items of a single value: a scalar or one row.\<close>

definition single_of :: "variable \<Rightarrow> designation \<Rightarrow> bool" where
  "single_of v d \<longleftrightarrow>
     (case d of
        ScalarDesignation u \<Rightarrow> u = v \<and> \<not> is_memory v
      | MemoryRowDesignation u i \<Rightarrow> u = v \<and> is_memory v
      | MemoryRangeDesignation u a b \<Rightarrow> False)"

definition rewatched :: "variable \<Rightarrow> tree_item \<Rightarrow> bool" where
  "rewatched v t \<longleftrightarrow>
     (case getWatchItem t of
        None \<Rightarrow> False
      | Some w \<Rightarrow> watch_id w = cxxrtlIdentifier v \<and> same_item t (watch_item_for w v))"

lemma rewatched_single:
  "single_of v d \<Longrightarrow> rewatched v (ScalarTreeItem d ctx)" "single_of v d \<Longrightarrow> rewatched v (BitTreeItem d i ctx)"
  by (cases v; cases d; simp add: single_of_def rewatched_def getWatchItem_def watch_item_defs watch_item_for_def
      watch_designation_def same_item_def is_memory_def designation_of_scalar_def designation_of_memory_def)+

lemma rewatched_bits: "single_of v d \<Longrightarrow> list_all (rewatched v) (scalar_children env d)"
  by (simp add: scalar_children_def list_all_iff rewatched_single)

lemma rewatched_variable: "rewatched v (variable_item v)"
  by (cases v) (simp_all add: variable_item_def rewatched_single single_of_def is_memory_def designation_of_scalar_def
      rewatched_def getWatchItem_def watch_item_defs watch_item_for_def watch_designation_def designation_of_memory_def same_item_def)

lemma getVariable_identifier:
  assumes "run server (getVariable n) s = (s', Inr (Some v))"
  shows "cxxrtlIdentifier v = n"
  using assms identifier_fromCXXRTL
  by (auto simp: getVariable_def find_variable_def split: prod.splits sum.splits if_splits)
    (auto simp: map_sum_def split: sum.splits)

lemma provider_getVariable_run:
  "run server (provider_getVariable p n) s = (s', Inr found) \<Longrightarrow> run server (getVariable n) s = (s', Inr found)"
  by (cases "provider_session p") (simp_all add: provider_getVariable_def)

lemma watch_item_for_id: "\<exists>w'. getWatchItem (watch_item_for w v) = Some w' \<and> watch_id w' = cxxrtlIdentifier v"
  by (cases v)
    (auto simp: watch_item_for_def watch_designation_def designation_of_scalar_def designation_of_memory_def
      getWatchItem_def watch_item_defs Let_def split: option.split)

lemma watch_children_from_indices:
  "run server (watch_children_from p k ws) s = (s', Inr nodes) \<Longrightarrow>
     sorted_wrt (<) (map snd nodes) \<and>
     list_all (\<lambda>(t, i). k \<le> i \<and> i < k + length ws \<and>
       (\<exists>w. getWatchItem t = Some w \<and> watch_id w = watch_id (ws ! (i - k)))) nodes"
proof (induction ws arbitrary: k s s' nodes)
  case Nil
  then show ?case by simp
next
  case (Cons w ws)
  obtain s1 found where found: "run server (provider_getVariable p (watch_id w)) s = (s1, Inr found)"
    using Cons.prems by (auto split: prod.splits sum.splits)
  obtain s2 rest where rest: "run server (watch_children_from p (Suc k) ws) s1 = (s2, Inr rest)"
    using Cons.prems found by (auto split: prod.splits sum.splits)
  have nodes: "nodes = (case found of None \<Rightarrow> rest | Some v \<Rightarrow> (watch_item_for w v, k) # rest)"
    using Cons.prems found rest by simp
  have later: "sorted_wrt (<) (map snd rest)"
    "list_all (\<lambda>(t, i). k \<le> i \<and> i < k + length (w # ws) \<and>
       (\<exists>u. getWatchItem t = Some u \<and> watch_id u = watch_id ((w # ws) ! (i - k)))) rest"
    "list_all (\<lambda>(t, i). k < i) rest"
    using Cons.IH [OF rest] by (auto simp: list_all_iff nth_Cons' Suc_diff_le)
  show ?case
  proof (cases found)
    case None
    then show ?thesis using later nodes by simp
  next
    case (Some v)
    then show ?thesis
      using later nodes watch_item_for_id [of w v] getVariable_identifier [of server "watch_id w" s s1 v]
        provider_getVariable_run [OF found]
      by (auto simp: list_all_iff)
  qed
qed

section \<open>Properties\<close>

text \<open>C35: watching an item of the tree brings the same item back: for every item the tree has for a variable, the
  variable itself, any row of a memory and any bit, its watch item names the variable, and the watch
  list shows for it an item of the same kind with the same designation and bit.\<close>

theorem watch_roundtrip:
  "list_all (rewatched v) (design_items env v)"
proof (cases v)
  case (ScalarVariable p l a w)
  then have "single_of v (designation_of_scalar v)"
    by (simp add: single_of_def designation_of_scalar_def is_memory_def)
  with ScalarVariable show ?thesis
    by (simp add: design_items_def rewatched_variable rewatched_bits)
next
  case (MemoryVariable p l a w z dp)
  then have row: "single_of v (designation_of_memory v (Some i) None)" for i :: int
    by (simp add: single_of_def designation_of_memory_def is_memory_def)
  have "rewatched v t \<and> list_all (rewatched v) (scalar_children env (item_designation_of t))"
    if t: "t \<in> set (array_children (designation_of_memory v None None))" for t
  proof -
    obtain i where "t = ScalarTreeItem (designation_of_memory v (Some i) None) ''canWatch''"
      using t by (auto simp: array_children_def designation_of_memory_def)
    then show ?thesis using rewatched_single(1) [OF row] rewatched_bits [OF row] by simp
  qed
  then have "list_all (rewatched v) (concat (map (\<lambda>t. t # scalar_children env (item_designation_of t))
      (array_children (designation_of_memory v None None))))"
    by (auto simp: list_all_iff)
  with MemoryVariable show ?thesis by (simp add: design_items_def rewatched_variable)
qed

text \<open>C36: every entry the watch list shows carries the index of its own setting, even when entries before it are
  passed over because their variable is gone: the indices are increasing and in range, the entry is
  for the variable its setting names, and removing by the index removes exactly that setting.\<close>

theorem watch_entries_indexed:
  assumes "run server (watch_children p cfg) s = (s', Inr nodes)"
  shows "sorted_wrt (<) (map snd nodes) \<and>
    list_all (\<lambda>(t, i). i < length (watch_get cfg) \<and>
      (\<exists>w. getWatchItem t = Some w \<and> watch_id w = watch_id (watch_get cfg ! i)) \<and>
      watch_get (watch_remove (int i) cfg) = take i (watch_get cfg) @ drop (Suc i) (watch_get cfg)) nodes"
proof -
  have "watch_get (watch_remove (int i) cfg) = take i (watch_get cfg) @ drop (Suc i) (watch_get cfg)" for i
    by (simp add: watch_remove_def watch_set_def watch_get_def splice1_nat)
  then show ?thesis
    using watch_children_from_indices [OF assms [unfolded watch_children_def]] by (simp add: list_all_iff)
qed

definition watch_example :: configuration where
  "watch_example =
     \<lparr>cfg_variableOptions = None, cfg_watchList = Some [WatchItem ''gone'' None None, WatchItem ''a'' None (Some 3)],
      cfg_displayStyle = Python\<rparr>"

definition watch_session :: session where
  "watch_session = blank_session\<lparr>itemCache :=
     [ '''' \<mapsto> [(''a'', ItemDescriptionNode None 0 8 True False False (AttributeMap []))]]\<rparr>"

theorem watch_entries_indexed_witness:
  "watch_get (watch_remove 1 watch_example) = [WatchItem ''gone'' None None]"
proof -
  have lookup: "run server (getVariable n) watch_session =
      (watch_session, if n = ''a'' then Inr (Some (ScalarVariable [''a''] None 0 8)) else Inr None)"
    if "n = ''a'' \<or> n = ''gone''" for server n
    using that
    by (auto simp: getVariable_def scope_of_identifier_def items_memo.run_hit watch_session_def find_variable_def
        object_prototype_keys_def variable_fromCXXRTL_def location_fromCXXRTL_def)
  have "run (\<lambda>_. missing) (watch_children (no_provider\<lparr>provider_session := Some 0\<rparr>) watch_example) watch_session =
      (watch_session, Inr [(watch_item_for (WatchItem ''a'' None (Some 3)) (ScalarVariable [''a''] None 0 8), 1)])"
    by (simp add: watch_children_def watch_get_def watch_example_def provider_getVariable_def lookup)
  from watch_entries_indexed [OF this] show ?thesis
    by (simp add: watch_example_def watch_get_def)
qed

text \<open>C37: the bit items of a variable whose lowest bit has no negative number, in the order of the display
  style (from the lowest bit in the Python style, from the highest in the others), show the bits of its
  value exactly when the variable is numbered from zero or the value is zero: otherwise the item
  labelled with bit \<open>lsbAt + k\<close> tests that bit of the value instead of bit \<open>k\<close>.\<close>

theorem bit_items_offset:
  assumes "n < 2 ^ width v" "0 \<le> lsbAt v" "desig_variable d = v"
  shows "map (\<lambda>t. bit_description (Some (Bits n)) (bitIndex t)) (scalar_children env d) =
      map (\<lambda>k. if bit n k then ''= 1'' else ''= 0'')
        (if env_style env = Python then [0..<width v] else rev [0..<width v]) \<longleftrightarrow> lsbAt v = 0 \<or> n = 0"
proof -
  define l where "l = nat (lsbAt v)"
  have l: "lsbAt v = int l" using assms(2) by (simp add: l_def)
  have high: "\<not> bit n k" if "width v \<le> k" for k
    using that assms(1) by (metis bit_take_bit_iff not_le take_bit_nat_eq_self)
  have items: "map (\<lambda>t. bit_description (Some (Bits n)) (bitIndex t)) (scalar_children env d) =
      map (\<lambda>k. if bit n (l + k) then ''= 1'' else ''= 0'')
        (if env_style env = Python then [0..<width v] else rev [0..<width v])"
    using assms(3) by (cases "env_style env")
      (auto simp: scalar_children_def variableBitIndices_def bit_description_def bits_value_def
        bit_set_def l nat_add_distrib)
  have "?thesis \<longleftrightarrow> ((\<forall>k < width v. bit n (l + k) = bit n k) \<longleftrightarrow> l = 0 \<or> n = 0)"
    unfolding items using l by auto
  moreover have "n = 0" if shifted: "\<forall>k < width v. bit n (l + k) = bit n k" and "0 < l"
  proof (rule bit_eqI)
    fix k
    have "\<not> bit n k"
    proof (induction "width v - k" arbitrary: k rule: less_induct)
      case less
      show ?case
      proof (cases "k < width v")
        case True
        then have "\<not> bit n (l + k)" using less [of "l + k"] \<open>0 < l\<close> by simp
        then show ?thesis using shifted True by simp
      qed (use high in auto)
    qed
    then show "bit n k = bit 0 k" by simp
  qed
  ultimately show ?thesis by auto
qed

theorem bit_items_offset_witness:
  "map (\<lambda>t. bit_description (Some (Bits 3)) (bitIndex t))
     (scalar_children \<lparr>env_style = Verilog, env_options = \<lambda>_. VariableOptions None, env_link = \<lambda>_. '''', env_uri = id\<rparr>
        (ScalarDesignation (ScalarVariable [''a''] None 4 4))) \<noteq>
   map (\<lambda>k. if bit (3 :: nat) k then ''= 1'' else ''= 0'') (rev [0..<4])"
  using bit_items_offset [of 3 "ScalarVariable [''a''] None 4 4"
      "ScalarDesignation (ScalarVariable [''a''] None 4 4)"
      "\<lparr>env_style = Verilog, env_options = \<lambda>_. VariableOptions None, env_link = \<lambda>_. '''', env_uri = id\<rparr>"]
  by simp

text \<open>The root scope of a session that has ended can come back: when the session is stopped before the answer
  to its root-scope query is handled, the answer still puts the scope into the tree, where the watch
  list is gone, and it stays there without a session to answer for its children.\<close>

theorem root_scope_outlives_session:
  "provider_children (session_changed None p) = [] \<and>
   provider_children (root_arrived i sc (session_changed None (session_changed (Some (i, s)) p))) = [ScopeTreeItem sc] \<and>
   provider_session (root_arrived i sc (session_changed None (session_changed (Some (i, s)) p))) = None"
  by (simp add: session_changed_def root_arrived_def provider_children_def)

end
