(* ===== verification/Debugger.thy ===== *)
theory Debugger
  imports Session
begin

text \<open>
  \<open>src/src/debugger.ts\<close>: starting and stopping a debug session.  Starting takes three asynchronous
  stages: the process of the terminal is awaited, a delay passes, and a socket connects.  Nothing
  ties the later stages to the session still being wanted, so the model keeps them as separate lists
  of launches that can proceed at any moment.

  Launches are numbered in the order of \<open>createTerminal\<close>; the socket and the session of a
  launch have its number.  \<open>destroyed\<close> are the sockets whose session has been disposed of;
  \<open>dbg_fired\<close> logs the calls of the three event emitters and \<open>shown\<close> the messages shown;
  \<open>configure_prompts\<close> counts the messages about a missing launch command that are not yet answered,
  \<open>settings_opened\<close> the openings of the settings.
\<close>

section \<open>State\<close>

datatype session_status = SessionAbsent | SessionStarting | SessionRunning

datatype debugger_event =
    DidChangeSession "nat option"
  | DidChangeSessionStatus session_status
  | DidChangeDebuggerStatus sim_status

datatype message =
    AlreadyStarting | ConfigureCommand | ConnectedToServer | DisconnectedFromServer
  | ConnectionRefused | ConnectionFailed string

record debugger =
  dbg_terminal :: "nat option"
  dbg_session :: "nat option"
  dbg_sessionStatus :: session_status
  dbg_simulationStatus :: sim_status
  launches :: nat
  resolving :: "nat list"
  delayed :: "nat list"
  connecting :: "nat list"
  connected_sockets :: "nat list"
  destroyed :: "nat list"
  shown :: "message list"
  configure_prompts :: nat
  settings_opened :: nat
  dbg_fired :: "debugger_event list"

definition new_Debugger :: debugger where
  "new_Debugger =
     \<lparr>dbg_terminal = None, dbg_session = None, dbg_sessionStatus = SessionAbsent, dbg_simulationStatus = Finished,
      launches = 0, resolving = [], delayed = [], connecting = [], connected_sockets = [], destroyed = [],
      shown = [], configure_prompts = 0, settings_opened = 0, dbg_fired = []\<rparr>"

section \<open>Operations\<close>

definition fire :: "debugger_event \<Rightarrow> debugger \<Rightarrow> debugger" where
  "fire ev d = d\<lparr>dbg_fired := dbg_fired d @ [ev]\<rparr>"

definition show_message :: "message \<Rightarrow> debugger \<Rightarrow> debugger" where
  "show_message m d = d\<lparr>shown := shown d @ [m]\<rparr>"

definition setSessionStatus :: "session_status \<Rightarrow> debugger \<Rightarrow> debugger" where
  "setSessionStatus st d =
     (if dbg_sessionStatus d \<noteq> st then fire (DidChangeSessionStatus st) (d\<lparr>dbg_sessionStatus := st\<rparr>) else d)"

definition setSimulationStatus :: "sim_status \<Rightarrow> debugger \<Rightarrow> debugger" where
  "setSimulationStatus st d =
     (if dbg_simulationStatus d \<noteq> st then fire (DidChangeDebuggerStatus st) (d\<lparr>dbg_simulationStatus := st\<rparr>) else d)"

definition startSession :: "string list \<Rightarrow> debugger \<Rightarrow> debugger" where
  "startSession command d =
     (if dbg_terminal d \<noteq> None then show_message AlreadyStarting d
      else if length command \<noteq> 0
      then (let n = launches d;
                d = setSessionStatus SessionStarting (d\<lparr>dbg_terminal := Some n, launches := Suc n\<rparr>)
            in d\<lparr>resolving := resolving d @ [n]\<rparr>)
      else show_message ConfigureCommand (d\<lparr>configure_prompts := Suc (configure_prompts d)\<rparr>))"

text \<open>The answer to the message about the missing launch command: its button, or a dismissal.\<close>

definition prompt_answered :: "string option \<Rightarrow> debugger \<Rightarrow> debugger" where
  "prompt_answered selection d =
     (case configure_prompts d of
        0 \<Rightarrow> d
      | Suc n \<Rightarrow>
          (let d = d\<lparr>configure_prompts := n\<rparr>
           in if selection = Some ''Open Settings'' then d\<lparr>settings_opened := Suc (settings_opened d)\<rparr> else d))"

definition stopSession :: "debugger \<Rightarrow> debugger" where
  "stopSession d =
     (let d = fire (DidChangeSession None) d;
          d = d\<lparr>dbg_terminal := None\<rparr>;
          d = (case dbg_session d of None \<Rightarrow> d | Some n \<Rightarrow> d\<lparr>destroyed := destroyed d @ [n]\<rparr>);
          d = d\<lparr>dbg_session := None\<rparr>
      in setSimulationStatus Finished (setSessionStatus SessionAbsent d))"

text \<open>The stages of a launch after \<open>createTerminal\<close>.\<close>

definition process_resolved :: "nat \<Rightarrow> debugger \<Rightarrow> debugger" where
  "process_resolved n d =
     (if n \<in> set (resolving d) then d\<lparr>resolving := remove1 n (resolving d), delayed := delayed d @ [n]\<rparr> else d)"

definition delay_over :: "nat \<Rightarrow> debugger \<Rightarrow> debugger" where
  "delay_over n d =
     (if n \<in> set (delayed d) then d\<lparr>delayed := remove1 n (delayed d), connecting := connecting d @ [n]\<rparr> else d)"

definition socket_connected :: "nat \<Rightarrow> debugger \<Rightarrow> debugger" where
  "socket_connected n d =
     (if n \<in> set (connecting d)
      then (let d = show_message ConnectedToServer
                  (d\<lparr>connecting := remove1 n (connecting d), connected_sockets := connected_sockets d @ [n]\<rparr>);
                d = d\<lparr>dbg_session := Some n\<rparr>;
                d = setSessionStatus SessionRunning d;
                d = fire (DidChangeSession (Some n)) d
            in setSimulationStatus Paused d)
      else d)"

text \<open>The handlers of the socket; an error other than a refusal is named by its code.\<close>

definition socket_error :: "nat \<Rightarrow> string \<Rightarrow> debugger \<Rightarrow> debugger" where
  "socket_error n code d =
     (if n \<in> set (connecting d) \<union> set (connected_sockets d)
      then stopSession (show_message (if code = ''ECONNREFUSED'' then ConnectionRefused else ConnectionFailed code) d)
      else d)"

definition socket_close :: "nat \<Rightarrow> bool \<Rightarrow> debugger \<Rightarrow> debugger" where
  "socket_close n hadError d =
     (if n \<in> set (connecting d) \<union> set (connected_sockets d)
      then stopSession ((if hadError then d else show_message DisconnectedFromServer d)
             \<lparr>connecting := remove1 n (connecting d), connected_sockets := remove1 n (connected_sockets d)\<rparr>)
      else d)"

text \<open>The listener on the status of the session of a socket.\<close>

definition session_status_changed :: "nat \<Rightarrow> sim_status \<Rightarrow> debugger \<Rightarrow> debugger" where
  "session_status_changed n st d =
     (if n \<in> set (connected_sockets d) \<and> n \<notin> set (destroyed d) then setSimulationStatus st d else d)"

section \<open>Histories\<close>

inductive debugger_step :: "debugger \<Rightarrow> debugger \<Rightarrow> bool" where
  "debugger_step d (startSession command d)"
| "debugger_step d (prompt_answered selection d)"
| "debugger_step d (stopSession d)"
| "debugger_step d (process_resolved n d)"
| "debugger_step d (delay_over n d)"
| "debugger_step d (socket_connected n d)"
| "debugger_step d (socket_error n code d)"
| "debugger_step d (socket_close n hadError d)"
| "debugger_step d (session_status_changed n st d)"

definition debugger_reachable :: "debugger \<Rightarrow> bool" where
  "debugger_reachable d \<longleftrightarrow> rtranclp debugger_step new_Debugger d"

text \<open>What a listener to the events knows: the session and the two statuses.\<close>

fun follow :: "debugger_event \<Rightarrow> nat option \<times> session_status \<times> sim_status \<Rightarrow> nat option \<times> session_status \<times> sim_status" where
  "follow (DidChangeSession s) (_, a, b) = (s, a, b)"
| "follow (DidChangeSessionStatus a) (s, _, b) = (s, a, b)"
| "follow (DidChangeDebuggerStatus b) (s, a, _) = (s, a, b)"

definition follow_all :: "debugger_event list \<Rightarrow> nat option \<times> session_status \<times> sim_status" where
  "follow_all evs = fold follow evs (None, SessionAbsent, Finished)"

definition debugger_inv :: "debugger \<Rightarrow> bool" where
  "debugger_inv d \<longleftrightarrow>
     follow_all (dbg_fired d) = (dbg_session d, dbg_sessionStatus d, dbg_simulationStatus d) \<and>
     (dbg_sessionStatus d = SessionAbsent \<longleftrightarrow> dbg_terminal d = None \<and> dbg_session d = None) \<and>
     (dbg_sessionStatus d = SessionRunning \<longrightarrow> dbg_session d \<noteq> None) \<and>
     (dbg_sessionStatus d = SessionStarting \<longrightarrow> dbg_terminal d \<noteq> None)"

lemma follow_append [simp]: "follow_all (evs @ new) = fold follow new (follow_all evs)"
  by (simp add: follow_all_def)

lemmas debugger_ops =
  fire_def show_message_def setSessionStatus_def setSimulationStatus_def startSession_def stopSession_def
  process_resolved_def delay_over_def socket_connected_def socket_error_def socket_close_def
  session_status_changed_def

lemma inv_show [simp]: "debugger_inv (show_message m d) = debugger_inv d"
  by (simp add: debugger_inv_def show_message_def)

lemma inv_setSimulationStatus: "debugger_inv d \<Longrightarrow> debugger_inv (setSimulationStatus st d)"
  by (auto simp: debugger_inv_def setSimulationStatus_def fire_def)

lemma stop_result:
  "dbg_terminal (stopSession d) = None \<and> dbg_session (stopSession d) = None \<and>
   dbg_sessionStatus (stopSession d) = SessionAbsent \<and> dbg_simulationStatus (stopSession d) = Finished"
  by (simp add: stopSession_def setSessionStatus_def setSimulationStatus_def fire_def Let_def split: option.split)

lemma inv_stopSession: "debugger_inv d \<Longrightarrow> debugger_inv (stopSession d)"
  by (auto simp: debugger_inv_def stopSession_def setSessionStatus_def setSimulationStatus_def fire_def Let_def
      split: option.split)

lemma inv_sockets [simp]:
  "debugger_inv (d\<lparr>connecting := a, connected_sockets := b\<rparr>) = debugger_inv d"
  "debugger_inv (d\<lparr>delayed := a, connecting := b\<rparr>) = debugger_inv d"
  "debugger_inv (d\<lparr>resolving := a, delayed := b\<rparr>) = debugger_inv d"
  by (simp_all add: debugger_inv_def)

lemma inv_prompts [simp]:
  "debugger_inv (d\<lparr>configure_prompts := n\<rparr>) = debugger_inv d" "debugger_inv (d\<lparr>settings_opened := n\<rparr>) = debugger_inv d"
  by (simp_all add: debugger_inv_def)

lemma inv_socket_connected: "debugger_inv d \<Longrightarrow> debugger_inv (socket_connected n d)"
  by (auto simp: debugger_inv_def socket_connected_def setSessionStatus_def setSimulationStatus_def fire_def
      show_message_def Let_def)

lemma inv_startSession: "debugger_inv d \<Longrightarrow> debugger_inv (startSession command d)"
  by (auto simp: debugger_inv_def startSession_def setSessionStatus_def fire_def show_message_def Let_def)

lemma inv_debugger_step: "debugger_step d d' \<Longrightarrow> debugger_inv d \<Longrightarrow> debugger_inv d'"
  by (induction rule: debugger_step.induct)
    (auto simp: inv_startSession inv_stopSession inv_socket_connected inv_setSimulationStatus
      process_resolved_def delay_over_def socket_error_def socket_close_def session_status_changed_def
      prompt_answered_def Let_def split: nat.split intro!: inv_stopSession)

lemma debugger_reachable_inv: "debugger_reachable d \<Longrightarrow> debugger_inv d"
  unfolding debugger_reachable_def
proof (induction rule: rtranclp_induct)
  case base
  then show ?case by (simp add: debugger_inv_def new_Debugger_def follow_all_def)
next
  case (step y z)
  then show ?case by (blast intro: inv_debugger_step)
qed

section \<open>Properties\<close>

text \<open>C29: in every history the session status is consistent and all three values are fully announced: the
  session is absent exactly when there is neither a terminal nor a session, running only with a session
  and starting only with a terminal, and a listener to the three events knows the session, the session
  status and the simulation status exactly.  (The simulation status need not belong to the session:
  see \<open>stop_does_not_cancel_launch\<close>.)\<close>

theorem debugger_statuses_consistent:
  assumes "debugger_reachable d"
  shows "follow_all (dbg_fired d) = (dbg_session d, dbg_sessionStatus d, dbg_simulationStatus d) \<and>
    (dbg_sessionStatus d = SessionAbsent \<longleftrightarrow> dbg_terminal d = None \<and> dbg_session d = None) \<and>
    (case dbg_sessionStatus d of
       SessionAbsent \<Rightarrow> True
     | SessionStarting \<Rightarrow> \<not> Option.is_none (dbg_terminal d)
     | SessionRunning \<Rightarrow> \<not> Option.is_none (dbg_session d))"
  using debugger_reachable_inv [OF assms]
  by (auto simp: debugger_inv_def Option.is_none_def split: session_status.split)

theorem debugger_statuses_consistent_witness:
  "follow_all (dbg_fired (startSession [''sim''] new_Debugger)) = (None, SessionStarting, Finished)"
  using debugger_statuses_consistent [of "startSession [''sim''] new_Debugger"]
  by (simp add: debugger_reachable_def r_into_rtranclp debugger_step.intros(1))
    (simp add: startSession_def new_Debugger_def setSessionStatus_def fire_def Let_def)

definition launch_stages :: "nat \<Rightarrow> debugger \<Rightarrow> debugger" where
  "launch_stages n d = socket_connected n (delay_over n (process_resolved n d))"

text \<open>The session is stopped while launch \<open>n\<close> is under way; then the launch goes on.\<close>

definition late_connection :: "nat \<Rightarrow> debugger \<Rightarrow> debugger" where
  "late_connection n d = launch_stages n (stopSession d)"

definition under_way :: "nat \<Rightarrow> debugger \<Rightarrow> bool" where
  "under_way n d \<longleftrightarrow> n \<in> set (resolving d) \<or> n \<in> set (delayed d) \<or> n \<in> set (connecting d)"

definition launch_inv :: "debugger \<Rightarrow> bool" where
  "launch_inv d \<longleftrightarrow>
     distinct (resolving d @ delayed d @ connecting d) \<and>
     (\<forall>n \<in> set (resolving d @ delayed d @ connecting d). n < launches d \<and> n \<notin> set (destroyed d) \<and>
        n \<notin> set (connected_sockets d) \<and> dbg_session d \<noteq> Some n) \<and>
     (\<forall>n \<in> set (connected_sockets d @ destroyed d). n < launches d) \<and>
     (case dbg_session d of None \<Rightarrow> True | Some n \<Rightarrow> n < launches d)"

lemma setSessionStatus_frame [simp]:
  "resolving (setSessionStatus st d) = resolving d" "delayed (setSessionStatus st d) = delayed d"
  "connecting (setSessionStatus st d) = connecting d" "connected_sockets (setSessionStatus st d) = connected_sockets d"
  "destroyed (setSessionStatus st d) = destroyed d" "launches (setSessionStatus st d) = launches d"
  "dbg_session (setSessionStatus st d) = dbg_session d" "dbg_terminal (setSessionStatus st d) = dbg_terminal d"
  "dbg_sessionStatus (setSessionStatus st d) = st" "dbg_simulationStatus (setSessionStatus st d) = dbg_simulationStatus d"
  by (simp_all add: setSessionStatus_def fire_def)

lemma setSimulationStatus_frame [simp]:
  "resolving (setSimulationStatus st d) = resolving d" "delayed (setSimulationStatus st d) = delayed d"
  "connecting (setSimulationStatus st d) = connecting d"
  "connected_sockets (setSimulationStatus st d) = connected_sockets d"
  "destroyed (setSimulationStatus st d) = destroyed d" "launches (setSimulationStatus st d) = launches d"
  "dbg_session (setSimulationStatus st d) = dbg_session d" "dbg_terminal (setSimulationStatus st d) = dbg_terminal d"
  "dbg_simulationStatus (setSimulationStatus st d) = st"
  "dbg_sessionStatus (setSimulationStatus st d) = dbg_sessionStatus d"
  by (simp_all add: setSimulationStatus_def fire_def)

lemma stopSession_frame [simp]:
  "resolving (stopSession d) = resolving d" "delayed (stopSession d) = delayed d"
  "connecting (stopSession d) = connecting d" "connected_sockets (stopSession d) = connected_sockets d"
  "launches (stopSession d) = launches d" "dbg_session (stopSession d) = None" "dbg_terminal (stopSession d) = None"
  "dbg_sessionStatus (stopSession d) = SessionAbsent" "dbg_simulationStatus (stopSession d) = Finished"
  "destroyed (stopSession d) = destroyed d @ (case dbg_session d of None \<Rightarrow> [] | Some n \<Rightarrow> [n])"
  by (simp_all add: stopSession_def fire_def Let_def split: option.split)

lemma launch_stop: "launch_inv d \<Longrightarrow> launch_inv (stopSession d)"
  by (auto simp: launch_inv_def split: option.splits)

lemma launch_connected: "launch_inv d \<Longrightarrow> launch_inv (socket_connected n d)"
  by (auto simp: launch_inv_def socket_connected_def show_message_def fire_def Let_def dest: subsetD [OF set_remove1_subset]
      split: option.splits)

lemma launch_start: "launch_inv d \<Longrightarrow> launch_inv (startSession command d)"
  by (auto simp: launch_inv_def startSession_def show_message_def Let_def less_Suc_eq split: option.splits)

lemma launch_moves:
  "launch_inv d \<Longrightarrow> launch_inv (process_resolved n d)" "launch_inv d \<Longrightarrow> launch_inv (delay_over n d)"
  by (auto simp: launch_inv_def process_resolved_def delay_over_def dest: subsetD [OF set_remove1_subset] split: option.splits)

lemma launch_frame:
  "launch_inv (show_message m d) = launch_inv d" "launch_inv (setSimulationStatus st d) = launch_inv d"
  "launch_inv (prompt_answered selection d) = launch_inv d"
  by (auto simp: launch_inv_def show_message_def prompt_answered_def Let_def split: nat.split option.splits)

lemma launch_socket_closed:
  "launch_inv d \<Longrightarrow> launch_inv (d\<lparr>connecting := remove1 n (connecting d), connected_sockets := remove1 n (connected_sockets d)\<rparr>)"
  by (auto simp: launch_inv_def dest: subsetD [OF set_remove1_subset] split: option.splits)

lemma launch_step: "debugger_step d d' \<Longrightarrow> launch_inv d \<Longrightarrow> launch_inv d'"
proof (induction rule: debugger_step.induct)
  case (8 d n hadError)
  then have "launch_inv (if hadError then d else show_message DisconnectedFromServer d)" by (simp add: launch_frame)
  from launch_stop [OF launch_socket_closed [OF this, of n]] 8 show ?case
    by (simp add: socket_close_def show_message_def split: if_splits)
qed (simp_all add: launch_start launch_stop launch_moves launch_connected launch_frame socket_error_def session_status_changed_def)

lemma launch_reachable: "debugger_reachable d \<Longrightarrow> launch_inv d"
  unfolding debugger_reachable_def
  by (induction rule: rtranclp_induct)
    (simp add: launch_inv_def new_Debugger_def, blast intro: launch_step)

lemma launch_stages_result:
  assumes "under_way n d"
  shows "dbg_session (launch_stages n d) = Some n" "dbg_terminal (launch_stages n d) = dbg_terminal d"
    "dbg_sessionStatus (launch_stages n d) = SessionRunning" "dbg_simulationStatus (launch_stages n d) = Paused"
    "connected_sockets (launch_stages n d) = connected_sockets d @ [n]" "destroyed (launch_stages n d) = destroyed d"
    "launches (launch_stages n d) = launches d"
proof -
  have "n \<in> set (connecting (delay_over n (process_resolved n d)))"
    using assms by (auto simp: under_way_def process_resolved_def delay_over_def)
  moreover have "dbg_terminal (delay_over n (process_resolved n d)) = dbg_terminal d"
    "connected_sockets (delay_over n (process_resolved n d)) = connected_sockets d"
    "destroyed (delay_over n (process_resolved n d)) = destroyed d"
    "launches (delay_over n (process_resolved n d)) = launches d"
    by (simp_all add: process_resolved_def delay_over_def)
  ultimately show "dbg_session (launch_stages n d) = Some n" "dbg_terminal (launch_stages n d) = dbg_terminal d"
    "dbg_sessionStatus (launch_stages n d) = SessionRunning" "dbg_simulationStatus (launch_stages n d) = Paused"
    "connected_sockets (launch_stages n d) = connected_sockets d @ [n]" "destroyed (launch_stages n d) = destroyed d"
    "launches (launch_stages n d) = launches d"
    by (simp_all add: launch_stages_def socket_connected_def show_message_def fire_def Let_def)
qed

lemma start_result:
  assumes "dbg_terminal d = None" "command \<noteq> []"
  shows "under_way (launches d) (startSession command d)" "destroyed (startSession command d) = destroyed d"
    "connected_sockets (startSession command d) = connected_sockets d"
  using assms by (simp_all add: startSession_def Let_def under_way_def)

text \<open>C30: stopping does not cancel a launch: in any history, a session stopped while a launch awaits its process,
  its delay or its socket comes up all the same, running without a terminal; and starting another one
  then leaves both sockets connected when that one is stopped, which disposes only of the second
  session, while the first still reports the status of its simulation although there is no session.\<close>

theorem stop_does_not_cancel_launch:
  assumes "debugger_reachable d" "under_way n d" "command \<noteq> []"
  shows "dbg_session (late_connection n d) = Some n \<and> dbg_terminal (late_connection n d) = None
    \<and> dbg_sessionStatus (late_connection n d) = SessionRunning
    \<and> dbg_simulationStatus (late_connection n d) = Paused
    \<and> (let d2 = stopSession (launch_stages (launches d) (startSession command (late_connection n d)));
           d3 = session_status_changed n st d2
       in list_all (\<lambda>i. i \<in> set (connected_sockets d2)) [n, launches d]
        \<and> n \<notin> set (destroyed d2) \<and> launches d \<in> set (destroyed d2)
        \<and> dbg_session d3 = None \<and> dbg_sessionStatus d3 = SessionAbsent \<and> dbg_simulationStatus d3 = st)"
proof -
  let ?d1 = "late_connection n d"
  let ?e = "launch_stages (launches d) (startSession command ?d1)"
  have "under_way n (stopSession d)" using assms(2) by (simp add: under_way_def)
  from launch_stages_result [OF this]
  have late: "dbg_session ?d1 = Some n" "dbg_terminal ?d1 = None" "dbg_sessionStatus ?d1 = SessionRunning"
    "dbg_simulationStatus ?d1 = Paused" "connected_sockets ?d1 = connected_sockets d @ [n]"
    "destroyed ?d1 = destroyed (stopSession d)" "launches ?d1 = launches d"
    unfolding late_connection_def by simp_all
  have n: "n < launches d" "n \<notin> set (destroyed d)" "dbg_session d \<noteq> Some n"
    using launch_reachable [OF assms(1)] assms(2) by (auto simp: launch_inv_def under_way_def)
  then have fresh: "n \<notin> set (destroyed ?d1)" "n \<noteq> launches d" by (auto simp: late(6) split: option.splits)
  have start: "under_way (launches d) (startSession command ?d1)"
    using start_result(1) [OF late(2) assms(3)] by (simp add: late(7))
  have e: "dbg_session ?e = Some (launches d)" "connected_sockets ?e = connected_sockets d @ [n, launches d]"
    "destroyed ?e = destroyed ?d1"
    by (simp_all add: launch_stages_result [OF start] start_result(2,3) [OF late(2) assms(3)] late(5))
  show ?thesis
    by (simp add: Let_def late(1-4) e fresh session_status_changed_def)
qed

theorem stop_does_not_cancel_launch_witness:
  "dbg_session (late_connection 0 (startSession [''sim''] new_Debugger)) = Some 0"
proof -
  have "under_way 0 (startSession [''sim''] new_Debugger)"
    using start_result(1) [of new_Debugger "[''sim'']"] by (simp add: new_Debugger_def)
  moreover have "debugger_reachable (startSession [''sim''] new_Debugger)"
    by (simp add: debugger_reachable_def r_into_rtranclp debugger_step.intros(1))
  ultimately show ?thesis using stop_does_not_cancel_launch [of _ 0 "[''sim'']" Paused] by blast
qed

text \<open>The sockets are not told apart when they close: after a session has been stopped and another one has
  come up, the close event of the first socket, which its disposal brings about, stops the second
  session although its own socket is still connected.\<close>

theorem old_socket_close_stops_new_session:
  "(let d = stopSession (launch_stages 0 (startSession [''sim''] new_Debugger));
        d2 = launch_stages 1 (startSession [''sim''] d);
        d3 = socket_close 0 False d2
    in dbg_session d2 = Some 1 \<and> dbg_sessionStatus d2 = SessionRunning \<and> destroyed d2 = [0] \<and>
       dbg_session d3 = None \<and> dbg_sessionStatus d3 = SessionAbsent \<and> connected_sockets d3 = [1])"
  by code_simp

end
