(* ===== verification/Extension.thy ===== *)
theory Extension
  imports Sidebar Debugger
begin

text \<open>
  \<open>src/src/extension.ts\<close>, \<open>src/src/ui/input.ts\<close> and \<open>src/src/ui/status.ts\<close>: the commands of the
  extension, the input of a time and the status bar.  A command on the session is given the session
  the debugger has when the handler looks it up, after the input box has been answered where there is
  one; without one, \<open>rtlDebugger.session!\<close> is null and the command throws.  The input box is a
  parameter: the text it returns, \<open>None\<close> when it is dismissed.
\<close>

section \<open>Input of a time\<close>

text \<open>\<open>Inr None\<close> accepts the text, \<open>Inr (Some m)\<close> shows the message \<open>m\<close>.\<close>

definition validateInput :: "string \<Rightarrow> js_error + string option" where
  "validateInput value =
     (case fromString value of
        Inr t \<Rightarrow> Inr None
      | Inl (SyntaxError m) \<Rightarrow> Inr (Some m)
      | Inl e \<Rightarrow> Inl e)"

definition inputTime :: "string option \<Rightarrow> js_error + time_point option" where
  "inputTime inputValue =
     (case inputValue of
        None \<Rightarrow> Inr None
      | Some v \<Rightarrow> (case fromString v of Inl e \<Rightarrow> Inl e | Inr t \<Rightarrow> Inr (Some t)))"

section \<open>Commands\<close>

definition no_session :: "js_error + 'a" where
  "no_session = Inl (TypeError ''Cannot read properties of null'')"

text \<open>\<open>rtlDebugger.runPauseSimulation\<close>: the task it starts.\<close>

definition runPauseSimulation :: "session \<Rightarrow> (session, unit) async" where
  "runPauseSimulation s = (if isSimulationRunning s then pauseSimulation else runSimulation None)"

definition runSimulationUntil :: "string option \<Rightarrow> js_error + (session, unit) async option" where
  "runSimulationUntil inputValue =
     (case inputTime inputValue of
        Inl e \<Rightarrow> Inl e
      | Inr None \<Rightarrow> Inr None
      | Inr (Some t) \<Rightarrow> Inr (Some (runSimulation (Some t))))"

datatype go_result = Dismissed | NotAdvanced string | Moved session

definition goToTime :: "string option \<Rightarrow> session option \<Rightarrow> js_error + go_result" where
  "goToTime inputValue session =
     (case inputTime inputValue of
        Inl e \<Rightarrow> Inl e
      | Inr None \<Rightarrow> Inr Dismissed
      | Inr (Some t) \<Rightarrow>
          (case session of
             None \<Rightarrow> no_session
           | Some s \<Rightarrow>
               if lessThan (latestTime (simulationStatus s)) t
               then Inr (NotAdvanced (''The simulation has not advanced to '' @ toString t @ '' yet.''))
               else map_sum id Moved (set_timeCursor t s)))"

text \<open>
  The commands on an element of the tree take what they need from it; on an element without it they
  throw.  An element of the watch list carries the index of its entry as metadata.
\<close>

definition not_on_element :: "js_error + 'a" where
  "not_on_element = Inl (TypeError ''Cannot read properties of undefined'')"

definition setRadix :: "nat \<Rightarrow> tree_item \<Rightarrow> configuration \<Rightarrow> js_error + configuration" where
  "setRadix r t cfg =
     (let update = (\<lambda>d. Inr (options_update (cxxrtlIdentifier (desig_variable d)) (VariableOptions (Some r)) cfg))
      in case t of
           BitTreeItem d i ctx \<Rightarrow> update d
         | ScalarTreeItem d ctx \<Rightarrow> update d
         | ArrayTreeItem d ctx \<Rightarrow> update d
         | _ \<Rightarrow> not_on_element)"

definition watchVariable :: "tree_item \<Rightarrow> configuration \<Rightarrow> js_error + configuration" where
  "watchVariable t cfg =
     (case getWatchItem t of
        None \<Rightarrow> Inl (TypeError ''treeItem.getWatchItem is not a function'')
      | Some w \<Rightarrow> Inr (watch_append w cfg))"

definition unWatchVariable :: "tree_item \<times> nat option \<Rightarrow> configuration \<Rightarrow> js_error + configuration" where
  "unWatchVariable node cfg =
     (case snd node of None \<Rightarrow> not_on_element | Some index \<Rightarrow> Inr (watch_remove (int index) cfg))"

section \<open>Status bar\<close>

record status_item =
  item_visible :: bool
  item_text :: string
  item_tooltip :: string

definition status_update :: "session option \<Rightarrow> status_item \<Rightarrow> status_item" where
  "status_update session item =
     (case session of
        None \<Rightarrow> item\<lparr>item_visible := False\<rparr>
      | Some s \<Rightarrow>
          (let item = item\<lparr>item_visible := True\<rparr>;
               item = (case status (simulationStatus s) of
                  Running \<Rightarrow> item\<lparr>item_text := ''$(debug-pause) '', item_tooltip := ''RTL Debugger: Running''\<rparr>
                | Paused \<Rightarrow> item\<lparr>item_text := ''$(debug-continue) '', item_tooltip := ''RTL Debugger: Paused''\<rparr>
                | Finished \<Rightarrow> item\<lparr>item_text := '''', item_tooltip := ''RTL Debugger: Finished''\<rparr>)
           in item\<lparr>item_text := item_text item @ toString (timeCursor s) @ '' / '' @
                     toString (latestTime (simulationStatus s))\<rparr>))"

text \<open>
  The item listens to both events of its session.  \<open>status_bar views\<close> is the item after the update made
  when the session comes up and one update per event; \<open>views\<close> are what the getters of the session
  return at the time of each event.
\<close>

definition session_view :: "time_point \<times> simulation_status \<Rightarrow> session" where
  "session_view v = blank_session\<lparr>timeCursor := fst v, simulationStatus := snd v\<rparr>"

definition status_bar :: "(time_point \<times> simulation_status) list \<Rightarrow> status_item \<Rightarrow> status_item" where
  "status_bar views item =
     fold (\<lambda>v. status_update (Some (session_view v))) (initial_view # views) (status_update None item)"

lemma status_update_twice: "status_update (Some s) (status_update (Some u) item) = status_update (Some s) item"
  by (simp add: status_update_def Let_def split: sim_status.split)

lemma status_bar_last:
  "status_bar views item = status_update (Some (session_view (last (initial_view # views)))) (status_update None item)"
proof -
  have "fold (\<lambda>v. status_update (Some (f v))) vs (status_update (Some (f v)) item) =
      status_update (Some (f (last (v # vs)))) item" for f v vs item
    by (induction vs arbitrary: v) (simp_all add: status_update_twice)
  from this [of session_view views initial_view] show ?thesis by (simp add: status_bar_def)
qed

section \<open>Context keys\<close>

text \<open>
  \<open>activate\<close> sets the two context keys the menus are conditioned on, and sets them again on every event
  of the debugger; the calls of \<open>setContext\<close> are the key and the value.
\<close>

definition session_status_text :: "session_status \<Rightarrow> string" where
  "session_status_text st =
     (case st of SessionAbsent \<Rightarrow> ''absent'' | SessionStarting \<Rightarrow> ''starting'' | SessionRunning \<Rightarrow> ''running'')"

definition simulation_status_text :: "sim_status \<Rightarrow> string" where
  "simulation_status_text st = (case st of Paused \<Rightarrow> ''paused'' | Running \<Rightarrow> ''running'' | Finished \<Rightarrow> ''finished'')"

definition session_key :: string where "session_key = ''rtlDebugger.sessionStatus''"
definition simulation_key :: string where "simulation_key = ''rtlDebugger.simulationStatus''"

definition context_call :: "debugger_event \<Rightarrow> (string \<times> string) list" where
  "context_call ev =
     (case ev of
        DidChangeSession _ \<Rightarrow> []
      | DidChangeSessionStatus st \<Rightarrow> [(session_key, session_status_text st)]
      | DidChangeDebuggerStatus st \<Rightarrow> [(simulation_key, simulation_status_text st)])"

definition context_calls :: "debugger \<Rightarrow> debugger_event list \<Rightarrow> (string \<times> string) list" where
  "context_calls d evs =
     (session_key, session_status_text (dbg_sessionStatus d)) #
     (simulation_key, simulation_status_text (dbg_simulationStatus d)) # concat (map context_call evs)"

text \<open>The value of a key is that of the last call.\<close>

definition context_value :: "(string \<times> string) list \<Rightarrow> string \<Rightarrow> string option" where
  "context_value calls k = map_of (rev calls) k"

lemma context_follows:
  assumes "fold follow evs (i, st, sim) = (i', st', sim')"
  shows "context_value ((session_key, session_status_text st) # (simulation_key, simulation_status_text sim) #
      concat (map context_call evs)) session_key = Some (session_status_text st')
    \<and> context_value ((session_key, session_status_text st) # (simulation_key, simulation_status_text sim) #
      concat (map context_call evs)) simulation_key = Some (simulation_status_text sim')"
  using assms
proof (induction evs arbitrary: i' st' sim' rule: rev_induct)
  case Nil
  then show ?case by (simp add: context_value_def session_key_def simulation_key_def)
next
  case (snoc ev evs)
  obtain i1 st1 sim1 where "fold follow evs (i, st, sim) = (i1, st1, sim1)" by (metis prod_cases3)
  with snoc show ?case
    by (cases ev) (auto simp: context_value_def context_call_def session_key_def simulation_key_def)
qed

lemma fromString_nonneg: "fromString v = Inr t \<Longrightarrow> ZERO \<le> t"
  by (auto simp: fromString_def time_le_raw TimePoint_def RESOLUTION_def Let_def split: option.splits if_splits)

lemma fromString_error: "fromString v = Inl e \<Longrightarrow> \<exists>m. e = SyntaxError m"
proof (cases "match_time v")
  case (Some p)
  then have "snd p \<in> set time_units" by (cases p) (auto simp: match_time_iff)
  moreover assume "fromString v = Inl e"
  ultimately show ?thesis
    using Some by (cases p) (auto simp: fromString_def time_units_def Let_def split: if_splits)
qed (auto simp: fromString_def)

section \<open>Properties\<close>

text \<open>C31: what going to a time does, for every answer of the input box and whether or not there still is a
  session when it is answered.  A dismissed box does nothing.  Validation itself never fails, and a text
  it refuses (the box returns none) would be a \<open>SyntaxError\<close>.  With an accepted text the command
  moves the cursor to exactly the time entered when the simulation has reached it, where the range check
  of the cursor never fires, and otherwise shows that it has not and leaves the cursor; the only error
  left is the \<open>TypeError\<close> of a session that is gone.\<close>

theorem goToTime_exact:
  "goToTime None session = Inr Dismissed \<and>
   (case validateInput v of
      Inl e \<Rightarrow> False
    | Inr (Some m) \<Rightarrow> goToTime (Some v) session = Inl (SyntaxError m)
    | Inr None \<Rightarrow>
        (\<exists>t. fromString v = Inr t \<and> ZERO \<le> t \<and>
          goToTime (Some v) session =
            (case session of
               None \<Rightarrow> Inl (TypeError ''Cannot read properties of null'')
             | Some s \<Rightarrow>
                 if t \<le> latestTime (simulationStatus s)
                 then Inr (Moved (emit (DidChangeTimeCursor t) (s\<lparr>timeCursor := t\<rparr>)))
                 else Inr (NotAdvanced (''The simulation has not advanced to '' @ toString t @ '' yet.'')))))"
proof (cases "fromString v")
  case (Inl e)
  then obtain m where "e = SyntaxError m" using fromString_error by blast
  with Inl show ?thesis by (simp add: validateInput_def goToTime_def inputTime_def)
next
  case (Inr t)
  then have "ZERO \<le> t" by (rule fromString_nonneg)
  then have "set_timeCursor t s = Inr (emit (DidChangeTimeCursor t) (s\<lparr>timeCursor := t\<rparr>))"
    if "t \<le> latestTime (simulationStatus s)" for s :: session
    using that by (simp add: set_timeCursor_Inr)
  with Inr \<open>ZERO \<le> t\<close> show ?thesis
    by (auto simp: validateInput_def goToTime_def inputTime_def no_session_def time_order not_less split: option.split)
qed

text \<open>C34: the status bar is never stale: in every interleaving of the session's methods, whatever the server
  replies, the item updated on the session's events, from what the session's getters return when each
  event is fired, shows exactly what an update from the session's present cursor and status would
  show.\<close>

theorem status_bar_current:
  assumes "session_pool ok (s, ts)"
  shows "status_bar (seen s) item = status_update (Some s) (status_update None item)"
proof -
  have "last (initial_view # seen s) = (timeCursor s, simulationStatus s)"
    using invariant.session_pool_keeps [OF assms] inv_new_Session by (simp add: session_inv_def)
  then show ?thesis
    by (simp add: status_bar_last session_view_def status_update_def Let_def)
qed

theorem status_bar_current_witness:
  "item_text (status_bar [] \<lparr>item_visible = False, item_text = '''', item_tooltip = ''''\<rparr>) =
     item_text (status_update (Some (fst new_Session)) \<lparr>item_visible = False, item_text = '''', item_tooltip = ''''\<rparr>)"
  using status_bar_current [OF pool_start, of "\<lparr>item_visible = False, item_text = '''', item_tooltip = ''''\<rparr>"]
  by (simp add: new_Session_eq post_def blank_session_def status_update_def)

text \<open>The context keys the menus depend on always have the debugger's two statuses as their values.\<close>

theorem context_keys_current:
  assumes "debugger_reachable d"
  shows "context_value (context_calls new_Debugger (dbg_fired d)) session_key = Some (session_status_text (dbg_sessionStatus d))
    \<and> context_value (context_calls new_Debugger (dbg_fired d)) simulation_key = Some (simulation_status_text (dbg_simulationStatus d))"
proof -
  have "fold follow (dbg_fired d) (None, SessionAbsent, Finished) = (dbg_session d, dbg_sessionStatus d, dbg_simulationStatus d)"
    using debugger_reachable_inv [OF assms] by (simp add: debugger_inv_def follow_all_def)
  from context_follows [OF this] show ?thesis by (simp add: context_calls_def new_Debugger_def)
qed

end
