(* ===== verification/Commands.thy ===== *)
theory Commands
  imports Extension
begin

text \<open>
  The commands of \<open>src/src/extension.ts\<close> together with the item of the status bar of
  \<open>src/src/ui/status.ts\<close>: what each command does to the debugger or to its session, and when the user
  can give it.  The palette offers a command by the context keys, as \<open>src/package.json\<close> says;
  \<open>runPauseSimulation\<close> has no entry there and is given by clicking on the item of the status bar,
  while that is shown.  The commands on an item of the tree are in \<open>Extension\<close>.

  Two commands ask for a time.  Their handlers end with the box open (\<open>Prompts\<close>) and go on when it
  is answered, with the session the debugger has then (\<open>answer_prompt\<close>).  A handler that starts a
  task of the session does not await it; what the task does, its failure included, is not part of the
  handler and is modelled in \<open>Session\<close>.
\<close>

section \<open>Handlers\<close>

datatype command =
    StartSession | StopSession | RunSimulation | PauseSimulation | RunPauseSimulation
  | RunSimulationUntil | StepBackward | StepForward | GoToTime

datatype prompt = UntilPrompt | GoToPrompt

datatype handled =
    Debugging debugger
  | Runs "(session, unit) async"
  | StepsForward "(session, time_point option) async"
  | StepsBackward "(session, time_point) async"
  | Prompts prompt
  | Cursor session
  | ShowsError string
  | Nothing

text \<open>The handler of a command that uses \<open>rtlDebugger.session!\<close>.\<close>

definition on_session :: "(session \<Rightarrow> 'a) \<Rightarrow> session option \<Rightarrow> js_error + 'a" where
  "on_session f session = (case session of None \<Rightarrow> no_session | Some s \<Rightarrow> Inr (f s))"

text \<open>
  \<open>sessions\<close> gives the state of the session of each launch, \<open>configured\<close> the launch command of the
  settings, \<open>fuel\<close> bounds the rounds of a forward search.
\<close>

definition handle_command ::
  "nat \<Rightarrow> string list \<Rightarrow> (nat \<Rightarrow> session) \<Rightarrow> command \<Rightarrow> debugger \<Rightarrow> js_error + handled" where
  "handle_command fuel configured sessions c d =
     (let session = map_option sessions (dbg_session d)
      in case c of
           StartSession \<Rightarrow> Inr (Debugging (startSession configured d))
         | StopSession \<Rightarrow> Inr (Debugging (stopSession d))
         | RunSimulation \<Rightarrow> on_session (\<lambda>s. Runs (runSimulation None)) session
         | PauseSimulation \<Rightarrow> on_session (\<lambda>s. Runs pauseSimulation) session
         | RunPauseSimulation \<Rightarrow> on_session (\<lambda>s. Runs (runPauseSimulation s)) session
         | RunSimulationUntil \<Rightarrow> Inr (Prompts UntilPrompt)
         | StepBackward \<Rightarrow> on_session (\<lambda>s. StepsBackward stepBackward) session
         | StepForward \<Rightarrow> on_session (\<lambda>s. StepsForward (stepForward fuel)) session
         | GoToTime \<Rightarrow> Inr (Prompts GoToPrompt))"

text \<open>The rest of the handler, with the answer of the box and the debugger as it is by then.\<close>

definition answer_prompt :: "(nat \<Rightarrow> session) \<Rightarrow> prompt \<Rightarrow> string option \<Rightarrow> debugger \<Rightarrow> js_error + handled" where
  "answer_prompt sessions p inputValue d =
     (let session = map_option sessions (dbg_session d)
      in case p of
           UntilPrompt \<Rightarrow>
             (case runSimulationUntil inputValue of
                Inl e \<Rightarrow> Inl e
              | Inr None \<Rightarrow> Inr Nothing
              | Inr (Some task) \<Rightarrow> on_session (\<lambda>s. Runs task) session)
         | GoToPrompt \<Rightarrow>
             (case goToTime inputValue session of
                Inl e \<Rightarrow> Inl e
              | Inr Dismissed \<Rightarrow> Inr Nothing
              | Inr (NotAdvanced m) \<Rightarrow> Inr (ShowsError m)
              | Inr (Moved s) \<Rightarrow> Inr (Cursor s)))"

section \<open>The status bar\<close>

text \<open>
  The item is created hidden.  It listens to the debugger and, from the moment a session is announced,
  to both events of that session, for good: stopping the session does not end the subscription.
\<close>

record bar =
  bar_item :: status_item
  bar_sessions :: "nat list"

definition new_bar :: bar where
  "new_bar = \<lparr>bar_item = \<lparr>item_visible = False, item_text = '''', item_tooltip = ''RTL Debugger Status''\<rparr>, bar_sessions = []\<rparr>"

definition bar_on_debugger :: "(nat \<Rightarrow> session) \<Rightarrow> debugger_event \<Rightarrow> bar \<Rightarrow> bar" where
  "bar_on_debugger sessions ev b =
     (case ev of
        DidChangeSession session \<Rightarrow>
          (let b = b\<lparr>bar_item := status_update (map_option sessions session) (bar_item b)\<rparr>
           in case session of None \<Rightarrow> b | Some n \<Rightarrow> b\<lparr>bar_sessions := bar_sessions b @ [n]\<rparr>)
      | _ \<Rightarrow> b)"

definition bar_on_session :: "(nat \<Rightarrow> session) \<Rightarrow> nat \<Rightarrow> bar \<Rightarrow> bar" where
  "bar_on_session sessions n b =
     (if n \<in> set (bar_sessions b) then b\<lparr>bar_item := status_update (Some (sessions n)) (bar_item b)\<rparr> else b)"

section \<open>Histories of the workbench\<close>

text \<open>The debugger, the states of the sessions it has started, and the item of the status bar.\<close>

record workbench =
  wb_debugger :: debugger
  wb_sessions :: "nat \<Rightarrow> session"
  wb_bar :: bar

definition new_workbench :: workbench where
  "new_workbench = \<lparr>wb_debugger = new_Debugger, wb_sessions = (\<lambda>_. fst new_Session), wb_bar = new_bar\<rparr>"

text \<open>The debugger moves to \<open>d\<close> and the item hears what it fires.\<close>

definition debugger_moves :: "debugger \<Rightarrow> workbench \<Rightarrow> workbench" where
  "debugger_moves d w =
     w\<lparr>wb_debugger := d,
       wb_bar := fold (bar_on_debugger (wb_sessions w))
         (drop (length (dbg_fired (wb_debugger w))) (dbg_fired d)) (wb_bar w)\<rparr>"

text \<open>The session of launch \<open>n\<close> changes to \<open>s\<close> and fires one of its events.\<close>

definition session_fires :: "nat \<Rightarrow> session \<Rightarrow> workbench \<Rightarrow> workbench" where
  "session_fires n s w =
     (let sessions = (wb_sessions w)(n := s)
      in w\<lparr>wb_sessions := sessions, wb_bar := bar_on_session sessions n (wb_bar w)\<rparr>)"

inductive workbench_step :: "workbench \<Rightarrow> workbench \<Rightarrow> bool" where
  "debugger_step (wb_debugger w) d \<Longrightarrow> workbench_step w (debugger_moves d w)"
| "workbench_step w (session_fires n s w)"

definition workbench_reachable :: "workbench \<Rightarrow> bool" where
  "workbench_reachable w \<longleftrightarrow> rtranclp workbench_step new_workbench w"

section \<open>When a command can be given\<close>

definition offered :: "(string \<Rightarrow> string option) \<Rightarrow> bool \<Rightarrow> command \<Rightarrow> bool" where
  "offered key bar_shown c =
     (case c of
        StartSession \<Rightarrow> key session_key = Some ''absent''
      | RunPauseSimulation \<Rightarrow> bar_shown
      | _ \<Rightarrow>
          key session_key = Some ''running'' \<and>
          (case c of
             RunSimulation \<Rightarrow> key simulation_key = Some ''paused''
           | RunSimulationUntil \<Rightarrow> key simulation_key = Some ''paused''
           | PauseSimulation \<Rightarrow> key simulation_key = Some ''running''
           | _ \<Rightarrow> True))"

definition can_give :: "workbench \<Rightarrow> command \<Rightarrow> bool" where
  "can_give w c =
     offered (context_value (context_calls new_Debugger (dbg_fired (wb_debugger w))))
       (item_visible (bar_item (wb_bar w))) c"

text \<open>The input box returns only a text its validation accepts, or nothing.\<close>

definition answer_accepted :: "string option \<Rightarrow> bool" where
  "answer_accepted inputValue = (case inputValue of None \<Rightarrow> True | Some v \<Rightarrow> validateInput v = Inr None)"

section \<open>Lemmas\<close>

lemma fired_grows: "debugger_step d d' \<Longrightarrow> \<exists>new. dbg_fired d' = dbg_fired d @ new"
  by (induction rule: debugger_step.induct)
    (auto simp: debugger_ops prompt_answered_def Let_def split: nat.split option.split)

lemma workbench_debugger: "workbench_reachable w \<Longrightarrow> debugger_reachable (wb_debugger w)"
  unfolding workbench_reachable_def
proof (induction rule: rtranclp_induct)
  case base
  then show ?case by (simp add: new_workbench_def debugger_reachable_def)
next
  case (step y z)
  from step.hyps(2) step.IH show ?case
    by cases (auto simp: debugger_moves_def session_fires_def Let_def debugger_reachable_def)
qed

lemma workbench_continues: "workbench_reachable w \<Longrightarrow> rtranclp workbench_step w w' \<Longrightarrow> workbench_reachable w'"
  unfolding workbench_reachable_def by (rule rtranclp_trans)

lemma update_shows: "item_visible (status_update session item) \<longleftrightarrow> session \<noteq> None"
  by (simp add: status_update_def Let_def split: option.split sim_status.split)

text \<open>The events of the debugger leave the item shown when the last session announced is one, or when it
  was shown before and none was announced.\<close>

lemma bar_after_debugger:
  "fst (fold follow evs (session, st, sim)) \<noteq> None \<Longrightarrow> (session \<noteq> None \<Longrightarrow> item_visible (bar_item b)) \<Longrightarrow>
     item_visible (bar_item (fold (bar_on_debugger sessions) evs b))"
proof (induction evs arbitrary: session st sim b)
  case Nil
  then show ?case by simp
next
  case (Cons ev evs)
  obtain session' st' sim' where f: "follow ev (session, st, sim) = (session', st', sim')" by (metis prod_cases3)
  have "item_visible (bar_item (bar_on_debugger sessions ev b))" if "session' \<noteq> None"
    using that f Cons.prems(2)
    by (cases ev) (auto simp: bar_on_debugger_def update_shows Let_def split: option.splits)
  with Cons.IH [of session' st' sim' "bar_on_debugger sessions ev b"] Cons.prems(1) f show ?case by simp
qed

lemma bar_shown: "workbench_reachable w \<Longrightarrow> dbg_session (wb_debugger w) \<noteq> None \<Longrightarrow> item_visible (bar_item (wb_bar w))"
proof -
  assume reach: "workbench_reachable w" and "dbg_session (wb_debugger w) \<noteq> None"
  have "dbg_session (wb_debugger w) \<noteq> None \<longrightarrow> item_visible (bar_item (wb_bar w))"
    using reach unfolding workbench_reachable_def
  proof (induction rule: rtranclp_induct)
    case base
    then show ?case by (simp add: new_workbench_def new_Debugger_def)
  next
    case (step y z)
    have inv: "debugger_inv (wb_debugger y)"
      using step.hyps(1) by (intro debugger_reachable_inv workbench_debugger) (simp add: workbench_reachable_def)
    from step.hyps(2) show ?case
    proof cases
      case (1 d)
      then obtain new where new: "dbg_fired d = dbg_fired (wb_debugger y) @ new" using fired_grows by blast
      have "debugger_inv d" by (rule inv_debugger_step [OF 1(2) inv])
      then have after: "fst (fold follow new (follow_all (dbg_fired (wb_debugger y)))) = dbg_session d"
        by (simp add: debugger_inv_def new)
      have before: "follow_all (dbg_fired (wb_debugger y)) = (dbg_session (wb_debugger y),
          dbg_sessionStatus (wb_debugger y), dbg_simulationStatus (wb_debugger y))"
        using inv by (simp add: debugger_inv_def)
      show ?thesis
        using bar_after_debugger [of new "dbg_session (wb_debugger y)" "dbg_sessionStatus (wb_debugger y)"
            "dbg_simulationStatus (wb_debugger y)" "wb_bar y" "wb_sessions y"] after before step.IH
        by (simp add: 1(1) debugger_moves_def new)
    next
      case (2 n s)
      then show ?thesis using step.IH
        by (simp add: session_fires_def bar_on_session_def update_shows Let_def)
    qed
  qed
  with \<open>dbg_session (wb_debugger w) \<noteq> None\<close> show ?thesis by blast
qed

text \<open>What the context keys promise.\<close>

lemma keys_promise:
  assumes "debugger_reachable d"
  shows "context_value (context_calls new_Debugger (dbg_fired d)) session_key = Some ''running'' \<Longrightarrow>
      \<exists>n. dbg_session d = Some n"
    and "context_value (context_calls new_Debugger (dbg_fired d)) session_key = Some ''absent'' \<Longrightarrow>
      dbg_terminal d = None"
  using debugger_reachable_inv [OF assms] context_keys_current [OF assms]
  by (auto simp: debugger_inv_def session_status_text_def split: session_status.splits)

lemma accepted_text: "validateInput v = Inr None \<Longrightarrow> \<exists>t. fromString v = Inr t \<and> ZERO \<le> t"
  by (cases "fromString v") (auto simp: validateInput_def fromString_nonneg split: js_error.splits)

lemma goToTime_accepted:
  assumes "validateInput v = Inr None"
  shows "\<exists>r. goToTime (Some v) (Some s) = Inr r"
proof -
  obtain t where t: "fromString v = Inr t" "ZERO \<le> t" using accepted_text [OF assms] by blast
  show ?thesis
  proof (cases "latestTime (simulationStatus s) < t")
    case True
    then show ?thesis by (simp add: goToTime_def inputTime_def t(1) time_order)
  next
    case False
    then have "set_timeCursor t s = Inr (emit (DidChangeTimeCursor t) (s\<lparr>timeCursor := t\<rparr>))"
      using t(2) by (simp add: set_timeCursor_Inr)
    with False t show ?thesis by (simp add: goToTime_def inputTime_def time_order)
  qed
qed

lemma answer_outcome:
  assumes "answer_accepted inputValue"
  shows "is_ok (answer_prompt sessions p inputValue d) \<longleftrightarrow> inputValue = None \<or> dbg_session d \<noteq> None"
proof (cases inputValue)
  case None
  then show ?thesis
    by (cases p) (simp_all add: answer_prompt_def runSimulationUntil_def goToTime_def inputTime_def)
next
  case (Some v)
  then have v: "validateInput v = Inr None" using assms by (simp add: answer_accepted_def)
  then obtain t where t: "fromString v = Inr t" using accepted_text by blast
  show ?thesis
  proof (cases "dbg_session d")
    case None
    then show ?thesis using \<open>inputValue = Some v\<close> t
      by (cases p) (simp_all add: answer_prompt_def runSimulationUntil_def goToTime_def inputTime_def on_session_def no_session_def)
  next
    case (Some n)
    obtain r where "goToTime inputValue (Some (sessions n)) = Inr r"
      using goToTime_accepted [OF v] \<open>inputValue = Some v\<close> by blast
    then show ?thesis using Some \<open>inputValue = Some v\<close> t
      by (cases p; cases r) (simp_all add: answer_prompt_def runSimulationUntil_def inputTime_def on_session_def)
  qed
qed

section \<open>Properties\<close>

text \<open>C32: in every history of the debugger, its sessions and the status bar, a command given when it is offered
  finds the session its handler uses, with these exceptions exactly.  Every command of the palette
  finds it at once, and a start it offers is not refused because of another one.  When a box for a time
  is answered, with a text it accepts and after any further history, the handler throws exactly when
  the debugger has no session by then; a dismissed box never throws.  The item of the status bar is
  shown whenever there is a session, and a click on it throws exactly when there is none, which happens
  (\<open>bar_shown_without_session\<close>).  What the started task does is not part of this.\<close>

theorem offered_commands_find_session:
  assumes "workbench_reachable w" "can_give w c" "rtranclp workbench_step w later" "answer_accepted inputValue"
  shows "(is_ok (handle_command fuel configured (wb_sessions w) c (wb_debugger w)) \<longleftrightarrow>
      c \<noteq> RunPauseSimulation \<or> \<not> Option.is_none (dbg_session (wb_debugger w)))
    \<and> (is_ok (answer_prompt (wb_sessions later) p inputValue (wb_debugger later)) \<longleftrightarrow>
      Option.is_none inputValue \<or> \<not> Option.is_none (dbg_session (wb_debugger later)))
    \<and> (c = StartSession \<longrightarrow> shown (startSession configured (wb_debugger w)) =
        shown (wb_debugger w) @ (if configured = [] then [ConfigureCommand] else []))
    \<and> (Option.is_none (dbg_session (wb_debugger later)) \<or> can_give later RunPauseSimulation)"
proof -
  have reach: "debugger_reachable (wb_debugger w)" by (rule workbench_debugger [OF assms(1)])
  note keys = keys_promise [OF reach]
  have "can_give later RunPauseSimulation" if "dbg_session (wb_debugger later) \<noteq> None"
    using bar_shown [OF workbench_continues [OF assms(1,3)] that] by (simp add: can_give_def offered_def)
  moreover have "is_ok (answer_prompt (wb_sessions later) p inputValue (wb_debugger later)) \<longleftrightarrow>
      inputValue = None \<or> dbg_session (wb_debugger later) \<noteq> None"
    by (rule answer_outcome [OF assms(4)])
  moreover have "dbg_terminal (wb_debugger w) = None" if "c = StartSession"
    using that assms(2) keys(2) by (simp add: can_give_def offered_def)
  then have "shown (startSession configured (wb_debugger w)) =
      shown (wb_debugger w) @ (if configured = [] then [ConfigureCommand] else [])" if "c = StartSession"
    using that by (simp add: startSession_def setSessionStatus_def fire_def show_message_def Let_def)
  moreover have "\<exists>n. dbg_session (wb_debugger w) = Some n" if "c \<noteq> StartSession" "c \<noteq> RunPauseSimulation"
    using that assms(2) keys(1) by (cases c) (simp_all add: can_give_def offered_def)
  then have "is_ok (handle_command fuel configured (wb_sessions w) c (wb_debugger w)) \<longleftrightarrow>
      c \<noteq> RunPauseSimulation \<or> dbg_session (wb_debugger w) \<noteq> None"
    by (cases c) (auto simp: handle_command_def on_session_def no_session_def split: option.splits)
  ultimately show ?thesis unfolding Option.is_none_def by blast
qed

theorem offered_commands_find_session_witness:
  "is_ok (handle_command 0 [''sim''] (wb_sessions new_workbench) StartSession new_Debugger) \<and>
   \<not> is_ok (answer_prompt (wb_sessions new_workbench) GoToPrompt (Some ''1s'') new_Debugger)"
proof -
  have "workbench_reachable new_workbench" by (simp add: workbench_reachable_def)
  moreover have "can_give new_workbench StartSession"
    by (simp add: can_give_def offered_def new_workbench_def new_Debugger_def context_value_def context_calls_def
        session_key_def simulation_key_def session_status_text_def)
  moreover have "fromString ''1s'' = Inr (TimePoint 1 0)" by code_simp
  then have "answer_accepted (Some ''1s'')" by (simp add: answer_accepted_def validateInput_def)
  ultimately show ?thesis
    using offered_commands_find_session [of new_workbench StartSession new_workbench "Some ''1s''" 0 "[''sim'']" GoToPrompt]
    by (simp add: new_workbench_def new_Debugger_def)
qed

text \<open>The item of the status bar is shown again by a session that was launched, lost to another one and so
  survived its stop (\<open>stop_does_not_cancel_launch\<close>): its next event updates the item although the
  debugger has no session, and a click on it throws.\<close>

theorem bar_shown_without_session:
  assumes "n \<in> set (bar_sessions (wb_bar w))" "dbg_session (wb_debugger w) = None"
  shows "can_give (session_fires n s w) RunPauseSimulation
    \<and> handle_command fuel configured (wb_sessions (session_fires n s w)) RunPauseSimulation
        (wb_debugger (session_fires n s w)) = no_session"
  using assms
  by (simp add: session_fires_def bar_on_session_def can_give_def offered_def update_shows handle_command_def
      on_session_def Let_def)

theorem bar_shown_without_session_witness:
  "can_give (session_fires 0 s (debugger_moves (stopSession (launch_stages 0 (startSession [''sim''] new_Debugger)))
     (debugger_moves (launch_stages 0 (startSession [''sim''] new_Debugger)) new_workbench))) RunPauseSimulation"
proof -
  let ?d = "launch_stages 0 (startSession [''sim''] new_Debugger)"
  have "dbg_fired ?d = [DidChangeSessionStatus SessionStarting, DidChangeSessionStatus SessionRunning,
      DidChangeSession (Some 0), DidChangeDebuggerStatus Paused]"
    by code_simp
  then have "bar_sessions (wb_bar (debugger_moves ?d new_workbench)) = [0]"
    by (simp add: debugger_moves_def new_workbench_def new_bar_def new_Debugger_def bar_on_debugger_def Let_def)
  have keeps: "set (bar_sessions b) \<subseteq> set (bar_sessions (fold (bar_on_debugger sessions) evs b))" for b sessions evs
    by (induction evs arbitrary: b)
      (simp, force simp: bar_on_debugger_def Let_def split: debugger_event.splits option.splits)
  have "0 \<in> set (bar_sessions (wb_bar (debugger_moves (stopSession ?d) (debugger_moves ?d new_workbench))))"
    using keeps [of "wb_bar (debugger_moves ?d new_workbench)"] \<open>bar_sessions _ = [0]\<close>
    by (auto simp: debugger_moves_def [of "stopSession ?d"])
  from bar_shown_without_session [OF this, of s] show ?thesis
    by (simp add: debugger_moves_def)
qed

text \<open>The prompt does not hold the session: when the session has been stopped meanwhile, for which the close of
  its socket is enough, the answered command throws.\<close>

theorem prompt_outlives_session:
  "validateInput v = Inr None \<Longrightarrow> answer_prompt sessions GoToPrompt (Some v) (stopSession d) = no_session"
  using accepted_text [of v]
  by (auto simp: answer_prompt_def goToTime_def inputTime_def no_session_def)

end
