(* ===== verification/Display.thy ===== *)
theory Display
  imports Sidebar
begin

text \<open>
  What the side bar shows over time.  An element of the tree is rendered from the observer's value
  (\<open>TreeDataProvider.getValue\<close> in \<open>src/src/ui/sidebar.ts\<close>) and from the settings; afterwards the
  observer, the session, the design and the settings go on changing, and the editor renders an element
  again when it is told to, by an event for the element or for the whole tree.  The theory shows that
  it is always told: what is on display is current, or is announced to have changed.
\<close>

section \<open>The display\<close>

text \<open>
  A rendering keeps what the element was rendered from, and how many session changes, refreshes of the
  tree and calls of callbacks there had been.
\<close>

record rendering =
  rendered_designation :: designation
  rendered_value :: "desig_value option"
  rendered_style :: display_style
  rendered_options :: "(string \<times> variable_options) list option"
  at_session :: nat
  at_refreshes :: nat
  at_called :: nat

record watch_rendering =
  rendered_items :: "watch_item list"
  watch_at_session :: nat
  watch_at_refreshes :: nat
  watch_at_watch :: nat

record display =
  provider :: tree_provider
  settings :: configuration
  session_changes :: nat
  renderings :: "nat \<Rightarrow> rendering option"
  watch_rendering :: "watch_rendering option"

definition calls_of :: "tree_provider \<Rightarrow> nat list" where
  "calls_of p = (case provider_observer p of None \<Rightarrow> [] | Some ob \<Rightarrow> map fst (called ob))"

definition value_now :: "tree_provider \<Rightarrow> designation \<Rightarrow> desig_value option" where
  "value_now p d = (case provider_observer p of None \<Rightarrow> None | Some ob \<Rightarrow> observer_query d ob)"

definition start_display :: "configuration \<Rightarrow> display" where
  "start_display cfg =
     \<lparr>provider = no_provider, settings = cfg, session_changes = 0, renderings = Map.empty, watch_rendering = None\<rparr>"

text \<open>The callback of \<open>getValue\<close> announces the element it was registered for, and is one-shot.\<close>

definition render :: "nat \<Rightarrow> designation \<Rightarrow> display \<Rightarrow> display" where
  "render e d D =
     (let (v, p) = getValue d e (provider D)
      in D\<lparr>provider := p,
           renderings := (renderings D)(e \<mapsto>
             \<lparr>rendered_designation = d, rendered_value = v, rendered_style = cfg_displayStyle (settings D),
              rendered_options = cfg_variableOptions (settings D), at_session = session_changes D,
              at_refreshes = refreshes p, at_called = length (calls_of p)\<rparr>)\<rparr>)"

definition render_watch :: "display \<Rightarrow> display" where
  "render_watch D =
     D\<lparr>watch_rendering :=
         Some \<lparr>rendered_items = watch_get (settings D), watch_at_session = session_changes D,
           watch_at_refreshes = refreshes (provider D), watch_at_watch = watch_refreshes (provider D)\<rparr>\<rparr>"

inductive observer_moves :: "observer \<Rightarrow> observer \<Rightarrow> bool" where
  "observer_moves ob (cursor_moved ob)"
| "observer_moves ob (refresh_turn (\<lambda>_ _. False) ob)"
| "observer_moves ob (refresh_reply reply ob)"
| "observer_moves ob (ob\<lparr>obs_session := s\<rparr>)"

text \<open>The editor names every section that has changed.\<close>

definition truthful :: "(string \<Rightarrow> bool) \<Rightarrow> configuration \<Rightarrow> configuration \<Rightarrow> bool" where
  "truthful affects old new \<longleftrightarrow>
     (affects ''rtlDebugger.displayStyle'' \<or> cfg_displayStyle new = cfg_displayStyle old) \<and>
     (affects ''rtlDebugger.variableOptions'' \<or> cfg_variableOptions new = cfg_variableOptions old) \<and>
     (affects ''rtlDebugger.watchList'' \<or> cfg_watchList new = cfg_watchList old)"

inductive display_step :: "display \<Rightarrow> display \<Rightarrow> bool" where
  rendered: "display_step D (render e d D)"
| rendered_watch: "watchTreeItem (provider D) \<Longrightarrow> display_step D (render_watch D)"
| observed: "provider_observer (provider D) = Some ob \<Longrightarrow> observer_moves ob ob' \<Longrightarrow>
    display_step D (D\<lparr>provider := (provider D)\<lparr>provider_observer := Some ob'\<rparr>\<rparr>)"
| session: "display_step D (D\<lparr>provider := session_changed new (provider D), session_changes := Suc (session_changes D)\<rparr>)"
| root: "display_step D (D\<lparr>provider := root_arrived i sc (provider D)\<rparr>)"
| configured: "truthful affects (settings D) cfg \<Longrightarrow>
    display_step D (D\<lparr>settings := cfg,
      provider := watch_list_changed affects cfg (configuration_changed affects (provider D))\<rparr>)"

definition displays :: "configuration \<Rightarrow> display \<Rightarrow> bool" where
  "displays cfg = rtranclp display_step (start_display cfg)"

section \<open>What the observer announces\<close>

text \<open>
  Each callback registered on an observable is still registered on it, the value being the same, or
  has been called.
\<close>

definition announces :: "observer \<Rightarrow> observer \<Rightarrow> bool" where
  "announces ob ob' \<longleftrightarrow>
     (\<exists>new. called ob' = called ob @ new \<and>
       (\<forall>k x. map_of (observables ob) k = Some x \<longrightarrow>
         (\<exists>x'. map_of (observables ob') k = Some x' \<and>
           (\<forall>e \<in> set (obs_callbacks x). e \<in> set (obs_callbacks x') \<and> obs_value x' = obs_value x \<or> e \<in> fst ` set new))))"

lemma announces_same: "called ob' = called ob \<Longrightarrow> observables ob' = observables ob \<Longrightarrow> announces ob ob'"
  by (auto simp: announces_def)

lemma announces_known:
  "announces ob ob' \<Longrightarrow> map_of (observables ob) k = Some x \<Longrightarrow> \<exists>x'. map_of (observables ob') k = Some x'"
  unfolding announces_def by blast

lemma announces_trans:
  assumes "announces ob ob1" "announces ob1 ob2"
  shows "announces ob ob2"
proof -
  obtain new1 where 1: "called ob1 = called ob @ new1"
    "\<And>k x. map_of (observables ob) k = Some x \<Longrightarrow> \<exists>x'. map_of (observables ob1) k = Some x' \<and>
       (\<forall>e \<in> set (obs_callbacks x). e \<in> set (obs_callbacks x') \<and> obs_value x' = obs_value x \<or> e \<in> fst ` set new1)"
    using assms(1) by (auto simp: announces_def)
  obtain new2 where 2: "called ob2 = called ob1 @ new2"
    "\<And>k x. map_of (observables ob1) k = Some x \<Longrightarrow> \<exists>x'. map_of (observables ob2) k = Some x' \<and>
       (\<forall>e \<in> set (obs_callbacks x). e \<in> set (obs_callbacks x') \<and> obs_value x' = obs_value x \<or> e \<in> fst ` set new2)"
    using assms(2) by (auto simp: announces_def)
  have "\<exists>x'. map_of (observables ob2) k = Some x' \<and>
      (\<forall>e \<in> set (obs_callbacks x). e \<in> set (obs_callbacks x') \<and> obs_value x' = obs_value x \<or> e \<in> fst ` set (new1 @ new2))"
    if "map_of (observables ob) k = Some x" for k x
    using 1(2) [OF that] 2(2) [of k] by (fastforce simp: image_Un)
  with 1(1) 2(1) show ?thesis by (auto simp: announces_def)
qed

lemma announces_entry:
  assumes "map_of (observables ob) k = Some x" "called ob' = called ob @ new"
    and "observables ob' = map_observable k f (observables ob)"
    and "\<And>e. e \<in> set (obs_callbacks x) \<Longrightarrow>
      e \<in> set (obs_callbacks (f x)) \<and> obs_value (f x) = obs_value x \<or> e \<in> fst ` set new"
  shows "announces ob ob'"
proof -
  have "\<exists>x'. map_of (observables ob') j = Some x' \<and>
      (\<forall>e \<in> set (obs_callbacks y). e \<in> set (obs_callbacks x') \<and> obs_value x' = obs_value y \<or> e \<in> fst ` set new)"
    if "map_of (observables ob) j = Some y" for j y
    using that assms(1,4) unfolding assms(3) map_of_map_observable by (cases "j = k") auto
  with assms(2) show ?thesis by (auto simp: announces_def)
qed

lemma announces_update_handles:
  "announces ob (fst (update_handles (\<lambda>_ _. False) smp hs ob))"
proof (induction "\<lambda>(_ :: nat) (_ :: desig_value). False" smp hs ob rule: update_handles.induct)
  case (1 smp ob)
  then show ?case by (simp add: announces_same)
next
  case (2 smp d h rest ob)
  show ?case
  proof (cases "\<exists>x sm v. map_of (observables ob) (canonicalKey d) = Some x \<and> smp = Some sm \<and> sample_extract sm h = Inr v")
    case True
    then obtain x sm v where x: "map_of (observables ob) (canonicalKey d) = Some x" "smp = Some sm" "sample_extract sm h = Inr v"
      by blast
    let ?ob = "ob\<lparr>observables := map_observable (canonicalKey d) (observable_update (\<lambda>_ _. False) v) (observables ob),
                  called := called ob @ map (\<lambda>cb. (cb, v)) (observable_calls v x)\<rparr>"
    have "announces ob ?ob"
      by (rule announces_entry [OF x(1)])
        (auto simp: observable_update_def observable_calls_def image_image split: if_splits)
    moreover have "announces ?ob (fst (update_handles (\<lambda>_ _. False) smp rest ?ob))"
      using 2(1) [OF refl x] .
    ultimately show ?thesis using x by (auto intro: announces_trans)
  next
    case False
    then show ?thesis by (auto simp: announces_same split: option.splits sum.splits)
  qed
qed

lemma announces_ensure: "announces ob (snd (ensure_reference ob))"
  by (rule announces_same) (simp_all add: ensure_reference_def Let_def split: option.split prod.split)

lemma announces_refresh_head: "announces ob (refresh_head ob)"
proof -
  obtain r ob1 where r: "ensure_reference (ob\<lparr>refreshNeeded := False\<rparr>) = (r, ob1)" by fastforce
  have "announces ob (ob\<lparr>refreshNeeded := False\<rparr>)" by (simp add: announces_same)
  moreover have "announces (ob\<lparr>refreshNeeded := False\<rparr>) ob1"
    using announces_ensure [of "ob\<lparr>refreshNeeded := False\<rparr>"] r by simp
  ultimately have one: "announces ob ob1" by (rule announces_trans)
  have "announces ob1 (refresh_head ob)" if "refreshNeeded ob"
    using that by (auto simp: refresh_head_def r Let_def intro!: announces_same split: prod.split)
  with one show ?thesis
    by (cases "refreshNeeded ob") (auto intro: announces_trans announces_same simp: refresh_head_def)
qed

lemma announces_invalidate: "announces ob (invalidate ob)"
proof -
  have "announces ob (ob\<lparr>refreshNeeded := True\<rparr>)" by (simp add: announces_same)
  moreover have "announces (ob\<lparr>refreshNeeded := True\<rparr>) (refresh_head (ob\<lparr>refreshNeeded := True\<rparr>))"
    by (rule announces_refresh_head)
  ultimately show ?thesis
    by (auto simp: invalidate_def Let_def intro: announces_trans split: refresh_phase.split)
qed

lemma announces_refresh_result: "announces ob (refresh_result (\<lambda>_ _. False) r result ob)"
proof (cases result)
  case (Inl e)
  then show ?thesis by (simp add: refresh_result_def announces_same)
next
  case (Inr samples)
  let ?u = "update_handles (\<lambda>_ _. False) (if samples = [] then None else Some (hd samples)) (allHandles (ref_unbound r)) ob"
  have one: "announces ob (fst ?u)" by (rule announces_update_handles)
  have "announces (fst ?u) (refresh_head (fst ?u))" by (rule announces_refresh_head)
  moreover have "announces (fst ?u) ((fst ?u)\<lparr>refreshing := ph\<rparr>)" for ph by (simp add: announces_same)
  ultimately show ?thesis using one Inr
    by (auto simp: refresh_result_def intro: announces_trans split: prod.split option.split)
qed

lemma announces_moves: "observer_moves ob ob' \<Longrightarrow> announces ob ob'"
proof (induction rule: observer_moves.induct)
  case (1 ob)
  then show ?case by (simp add: cursor_moved_def announces_invalidate announces_same)
next
  case (2 ob)
  then show ?case
    by (auto simp: refresh_turn_def announces_refresh_result announces_same Let_def
        split: refresh_phase.split outcome.split prod.split)
next
  case (3 reply ob)
  then show ?case
    by (auto simp: refresh_reply_def announces_same Let_def split: refresh_phase.split outcome.split prod.split)
qed (simp add: announces_same)

text \<open>Observing one more callback leaves the others as they are, and arms the new one.\<close>

lemma observe_armed:
  "announces ob (observe d e ob) \<and>
   (\<exists>x. map_of (observables (observe d e ob)) (canonicalKey d) = Some x \<and> e \<in> set (obs_callbacks x) \<and>
      obs_value x = observer_query d (observe d e ob))"
proof -
  let ?k = "canonicalKey d"
  define ob1 where "ob1 = (case map_of (observables ob) ?k of
      Some x \<Rightarrow> ob
    | None \<Rightarrow> invalidate (ob\<lparr>observables := observables ob @ [(?k, new_Observable d)], obs_reference := None\<rparr>))"
  let ?ob2 = "ob\<lparr>observables := observables ob @ [(?k, new_Observable d)], obs_reference := None\<rparr>"
  have "announces ob ?ob2"
    by (auto simp: announces_def map_add_def)
  then have one: "announces ob ob1"
    using announces_invalidate [of ?ob2] by (auto simp: ob1_def announces_same intro: announces_trans split: option.split)
  have "\<exists>x. map_of (observables ob1) ?k = Some x"
  proof (cases "map_of (observables ob) ?k")
    case None
    then have "map_of (observables ?ob2) ?k = Some (new_Observable d)" by (simp add: map_add_def)
    from announces_known [OF announces_invalidate this] None show ?thesis by (simp add: ob1_def)
  qed (simp add: ob1_def)
  then obtain x where x: "map_of (observables ob1) ?k = Some x" by blast
  have o: "observe d e ob = ob1\<lparr>observables := map_observable ?k (observable_register e) (observables ob1)\<rparr>"
    by (simp add: observe_def ob1_def Let_def)
  have "announces ob1 (observe d e ob)"
    unfolding o by (rule announces_entry [OF x]) (auto simp: observable_register_def)
  with one have "announces ob (observe d e ob)" by (rule announces_trans)
  moreover have "map_of (observables (observe d e ob)) ?k = Some (observable_register e x)"
    by (simp add: o map_of_map_observable x)
  ultimately show ?thesis by (simp add: observer_query_def) (simp add: observable_register_def)
qed

section \<open>The invariant\<close>

definition announced :: "display \<Rightarrow> nat \<Rightarrow> rendering \<Rightarrow> bool" where
  "announced D e r \<longleftrightarrow>
     at_refreshes r < refreshes (provider D) \<or>
     (if at_session r < session_changes D then awaited (provider D) \<noteq> []
      else e \<in> set (drop (at_called r) (calls_of (provider D))))"

definition armed :: "tree_provider \<Rightarrow> nat \<Rightarrow> rendering \<Rightarrow> bool" where
  "armed p e r \<longleftrightarrow>
     (case provider_observer p of
        None \<Rightarrow> rendered_value r = None
      | Some ob \<Rightarrow> \<exists>x. map_of (observables ob) (canonicalKey (rendered_designation r)) = Some x \<and>
          e \<in> set (obs_callbacks x) \<and> obs_value x = rendered_value r)"

definition in_sync :: "display \<Rightarrow> nat \<Rightarrow> rendering \<Rightarrow> bool" where
  "in_sync D e r \<longleftrightarrow>
     at_session r = session_changes D \<and> rendered_style r = cfg_displayStyle (settings D) \<and>
     rendered_options r = cfg_variableOptions (settings D) \<and> armed (provider D) e r"

definition rendering_ok :: "display \<Rightarrow> nat \<Rightarrow> rendering \<Rightarrow> bool" where
  "rendering_ok D e r \<longleftrightarrow>
     at_session r \<le> session_changes D \<and> at_refreshes r \<le> refreshes (provider D) \<and>
     (at_session r = session_changes D \<longrightarrow> at_called r \<le> length (calls_of (provider D))) \<and>
     (in_sync D e r \<or> announced D e r)"

text \<open>A step of the observer, or another rendering, keeps a rendering as it is or announces its element.\<close>

lemma ok_announces:
  assumes "rendering_ok D e r" "provider_observer (provider D) = Some ob" "announces ob ob'"
    and "provider D' = (provider D)\<lparr>provider_observer := Some ob'\<rparr>" "settings D' = settings D"
    and "session_changes D' = session_changes D"
  shows "rendering_ok D' e r"
proof -
  obtain new where new: "called ob' = called ob @ new"
    "\<And>k x. map_of (observables ob) k = Some x \<Longrightarrow> \<exists>x'. map_of (observables ob') k = Some x' \<and>
       (\<forall>e \<in> set (obs_callbacks x). e \<in> set (obs_callbacks x') \<and> obs_value x' = obs_value x \<or> e \<in> fst ` set new)"
    using assms(3) by (auto simp: announces_def)
  have calls: "calls_of (provider D) = map fst (called ob)"
    "calls_of ((provider D)\<lparr>provider_observer := Some ob'\<rparr>) = map fst (called ob) @ map fst new"
    using assms(2) new(1) by (simp_all add: calls_of_def)
  have kept: "announced D e r \<Longrightarrow> announced D' e r"
    using assms(4,6) by (auto simp: announced_def calls)
  have "in_sync D' e r \<or> announced D' e r" if "in_sync D e r"
  proof -
    have "\<exists>x. map_of (observables ob) (canonicalKey (rendered_designation r)) = Some x \<and>
        e \<in> set (obs_callbacks x) \<and> obs_value x = rendered_value r"
      using that assms(2) by (simp add: in_sync_def armed_def)
    then obtain x where x: "map_of (observables ob) (canonicalKey (rendered_designation r)) = Some x"
      "e \<in> set (obs_callbacks x)" "obs_value x = rendered_value r" by blast
    obtain x' where x': "map_of (observables ob') (canonicalKey (rendered_designation r)) = Some x'"
      "e \<in> set (obs_callbacks x') \<and> obs_value x' = obs_value x \<or> e \<in> fst ` set new"
      using new(2) [OF x(1)] x(2) by blast
    have "at_called r \<le> length (called ob)"
      using assms(1) that by (simp add: rendering_ok_def in_sync_def calls)
    with x' x(3) that show ?thesis
      using assms(2,4,5,6) by (auto simp: in_sync_def armed_def announced_def calls)
  qed
  with kept assms(1,4,6) show ?thesis by (auto simp: rendering_ok_def calls)
qed

lemma ok_refreshed:
  assumes "rendering_ok D e r" "refreshes (provider D) < refreshes (provider D')" "session_changes D \<le> session_changes D'"
    and "session_changes D' = session_changes D \<Longrightarrow> calls_of (provider D') = calls_of (provider D)"
  shows "rendering_ok D' e r"
  using assms by (auto simp: rendering_ok_def announced_def)

lemma ok_unchanged:
  assumes "rendering_ok D e r" "provider_observer (provider D') = provider_observer (provider D)"
    and "refreshes (provider D') = refreshes (provider D)" "awaited (provider D') = awaited (provider D)"
    and "session_changes D' = session_changes D" "cfg_displayStyle (settings D') = cfg_displayStyle (settings D)"
    and "cfg_variableOptions (settings D') = cfg_variableOptions (settings D)"
  shows "rendering_ok D' e r"
proof -
  have "calls_of (provider D') = calls_of (provider D)" using assms(2) by (simp add: calls_of_def)
  moreover have "in_sync D' e r \<longleftrightarrow> in_sync D e r" using assms(2,5-7) by (simp add: in_sync_def armed_def)
  moreover have "announced D' e r \<longleftrightarrow> announced D e r" using assms(3-5) calculation by (simp add: announced_def)
  ultimately show ?thesis using assms(1,3,5) by (simp add: rendering_ok_def)
qed

definition watch_announced :: "display \<Rightarrow> watch_rendering \<Rightarrow> bool" where
  "watch_announced D w \<longleftrightarrow>
     watch_at_refreshes w < refreshes (provider D) \<or>
     (if watch_at_session w < session_changes D then awaited (provider D) \<noteq> []
      else watch_at_watch w < watch_refreshes (provider D))"

definition watch_ok :: "display \<Rightarrow> watch_rendering \<Rightarrow> bool" where
  "watch_ok D w \<longleftrightarrow>
     watch_at_session w \<le> session_changes D \<and> watch_at_refreshes w \<le> refreshes (provider D) \<and>
     watch_at_watch w \<le> watch_refreshes (provider D) \<and>
     (watch_announced D w \<or>
      watch_at_session w = session_changes D \<and> watchTreeItem (provider D) \<and> rendered_items w = watch_get (settings D))"

lemma watch_refreshed:
  assumes "watch_ok D w" "refreshes (provider D) < refreshes (provider D')" "session_changes D \<le> session_changes D'"
    and "watch_refreshes (provider D) \<le> watch_refreshes (provider D')"
  shows "watch_ok D' w"
  using assms by (auto simp: watch_ok_def watch_announced_def)

lemma watch_unchanged:
  assumes "watch_ok D w" "refreshes (provider D') = refreshes (provider D)" "awaited (provider D') = awaited (provider D)"
    and "session_changes D' = session_changes D" "watchTreeItem (provider D') = watchTreeItem (provider D)"
    and "watch_refreshes (provider D') = watch_refreshes (provider D)" "watch_get (settings D') = watch_get (settings D)"
  shows "watch_ok D' w"
  using assms by (auto simp: watch_ok_def watch_announced_def split: if_splits)

definition display_inv :: "display \<Rightarrow> bool" where
  "display_inv D \<longleftrightarrow> (\<forall>e r. renderings D e = Some r \<longrightarrow> rendering_ok D e r)"

definition watch_inv :: "display \<Rightarrow> bool" where
  "watch_inv D \<longleftrightarrow> (\<forall>w. watch_rendering D = Some w \<longrightarrow> watch_ok D w)"

lemma render_ok:
  assumes "display_inv D"
  shows "display_inv (render e d D)"
proof -
  have "rendering_ok (render e d D) e' r" if "renderings (render e d D) e' = Some r" for e' r
  proof (cases "provider_observer (provider D)")
    case None
    then have g: "getValue d e (provider D) = (None, provider D)" by (simp add: getValue_def)
    show ?thesis
    proof (cases "e' = e")
      case True
      then show ?thesis using that None by (auto simp: render_def g rendering_ok_def in_sync_def armed_def calls_of_def)
    next
      case False
      then have "rendering_ok D e' r" using that assms by (auto simp: render_def g display_inv_def)
      then show ?thesis by (rule ok_unchanged) (simp_all add: render_def g)
    qed
  next
    case (Some ob)
    let ?p = "(provider D)\<lparr>provider_observer := Some (observe d e ob)\<rparr>"
    have g: "getValue d e (provider D) = (observer_query d (observe d e ob), ?p)"
      using Some by (simp add: getValue_def Let_def)
    show ?thesis
    proof (cases "e' = e")
      case True
      then show ?thesis using that observe_armed [of ob d e]
        by (auto simp: render_def g rendering_ok_def in_sync_def armed_def)
    next
      case False
      then have "rendering_ok D e' r" using that assms by (auto simp: render_def g display_inv_def)
      then show ?thesis
        by (rule ok_announces [OF _ Some conjunct1 [OF observe_armed [of ob d e]]]) (simp_all add: render_def g)
    qed
  qed
  then show ?thesis by (simp add: display_inv_def)
qed

lemma display_inv_step: "display_step D D' \<Longrightarrow> display_inv D \<Longrightarrow> display_inv D'"
proof (induction rule: display_step.induct)
  case (rendered D e d)
  then show ?case by (rule render_ok)
next
  case (rendered_watch D)
  have "rendering_ok (render_watch D) e r" if "rendering_ok D e r" for e r
    by (rule ok_unchanged [OF that]) (simp_all add: render_watch_def)
  with rendered_watch show ?case by (simp add: display_inv_def render_watch_def)
next
  case (observed D ob ob')
  then show ?case
    using ok_announces [OF _ observed(1) announces_moves [OF observed(2)]] by (auto simp: display_inv_def)
next
  case (session D new)
  have "rendering_ok (D\<lparr>provider := session_changed new (provider D), session_changes := Suc (session_changes D)\<rparr>) e r"
    if "rendering_ok D e r" for e r
    using that by (cases new) (auto simp: rendering_ok_def announced_def session_changed_def)
  with session show ?case by (simp add: display_inv_def)
next
  case (root D i sc)
  have "rendering_ok (D\<lparr>provider := root_arrived i sc (provider D)\<rparr>) e r" if "rendering_ok D e r" for e r
  proof (cases "i \<in> set (awaited (provider D))")
    case True
    then show ?thesis by (intro ok_refreshed [OF that]) (simp_all add: root_arrived_def calls_of_def)
  next
    case False
    then show ?thesis by (intro ok_unchanged [OF that]) (simp_all add: root_arrived_def)
  qed
  with root show ?case by (simp add: display_inv_def)
next
  case (configured affects D cfg)
  let ?p = "watch_list_changed affects cfg (configuration_changed affects (provider D))"
  have same: "provider_observer ?p = provider_observer (provider D)" "awaited ?p = awaited (provider D)"
    by (simp_all add: watch_list_changed_def configuration_changed_def watch_onDidChange_def)
  have "rendering_ok (D\<lparr>settings := cfg, provider := ?p\<rparr>) e r" if "rendering_ok D e r" for e r
  proof (cases "affects ''rtlDebugger.displayStyle'' \<or> affects ''rtlDebugger.variableOptions''")
    case True
    then show ?thesis
      by (intro ok_refreshed [OF that])
        (simp_all add: watch_list_changed_def configuration_changed_def watch_onDidChange_def calls_of_def)
  next
    case False
    then show ?thesis using configured(1)
      by (intro ok_unchanged [OF that] same)
        (simp_all add: truthful_def same watch_list_changed_def configuration_changed_def watch_onDidChange_def)
  qed
  with configured show ?case by (simp add: display_inv_def)
qed

lemma watch_inv_step: "display_step D D' \<Longrightarrow> watch_inv D \<Longrightarrow> watch_inv D'"
proof (induction rule: display_step.induct)
  case (rendered D e d)
  have "watch_ok (render e d D) w" if "watch_ok D w" for w
    by (rule watch_unchanged [OF that])
      (auto simp: render_def getValue_def Let_def split: option.split prod.split)
  with rendered show ?case by (auto simp: watch_inv_def render_def split: prod.splits)
next
  case (rendered_watch D)
  then show ?case by (simp add: watch_inv_def render_watch_def watch_ok_def)
next
  case (observed D ob ob')
  have "watch_ok (D\<lparr>provider := (provider D)\<lparr>provider_observer := Some ob'\<rparr>\<rparr>) w" if "watch_ok D w" for w
    by (rule watch_unchanged [OF that]) simp_all
  with observed show ?case by (simp add: watch_inv_def)
next
  case (session D new)
  have "watch_ok (D\<lparr>provider := session_changed new (provider D), session_changes := Suc (session_changes D)\<rparr>) w"
    if "watch_ok D w" for w
    using that by (cases new) (auto simp: watch_ok_def watch_announced_def session_changed_def)
  with session show ?case by (simp add: watch_inv_def)
next
  case (root D i sc)
  have "watch_ok (D\<lparr>provider := root_arrived i sc (provider D)\<rparr>) w" if "watch_ok D w" for w
  proof (cases "i \<in> set (awaited (provider D))")
    case True
    then show ?thesis by (intro watch_refreshed [OF that]) (simp_all add: root_arrived_def)
  next
    case False
    then show ?thesis by (intro watch_unchanged [OF that]) (simp_all add: root_arrived_def)
  qed
  with root show ?case by (simp add: watch_inv_def)
next
  case (configured affects D cfg)
  have "watch_ok (D\<lparr>settings := cfg, provider := watch_list_changed affects cfg (configuration_changed affects (provider D))\<rparr>) w"
    if "watch_ok D w" for w
    using that configured(1)
    by (auto simp: watch_ok_def watch_announced_def watch_list_changed_def configuration_changed_def watch_onDidChange_def
        truthful_def watch_get_def)
  with configured show ?case by (simp add: watch_inv_def)
qed

lemma displays_inv: "displays cfg D \<Longrightarrow> display_inv D \<and> watch_inv D"
  unfolding displays_def
proof (induction rule: rtranclp_induct)
  case base
  then show ?case by (simp add: start_display_def display_inv_def watch_inv_def)
next
  case (step D D')
  then show ?case using display_inv_step watch_inv_step by blast
qed

section \<open>Properties\<close>

text \<open>C6: the side bar never shows a stale value unannounced.  However rendering, cursor moves, refreshes of
  the observer, session changes and changes of the settings follow each other, an element on display
  has the observer's present value of its designation and is rendered in the present style and
  options, or the editor has been told since to render it again, as an element or with the whole
  tree, or the root scope of a new session is still awaited, whose arrival tells it.\<close>

theorem display_never_stale:
  assumes "displays cfg D" and "renderings D e = Some r"
  shows "rendered_value r = value_now (provider D) (rendered_designation r) \<and>
      rendered_style r = cfg_displayStyle (settings D) \<and> rendered_options r = cfg_variableOptions (settings D)
    \<or> announced D e r"
proof -
  have "rendering_ok D e r" using displays_inv [OF assms(1)] assms(2) by (simp add: display_inv_def)
  then show ?thesis
    by (auto simp: rendering_ok_def in_sync_def armed_def value_now_def observer_query_def split: option.splits)
qed

definition example_settings :: "display_style \<Rightarrow> configuration" where
  "example_settings style = \<lparr>cfg_variableOptions = None, cfg_watchList = None, cfg_displayStyle = style\<rparr>"

text \<open>An element rendered in a new session, after which the style is changed.\<close>

definition example_display :: display where
  "example_display =
     (let D = start_display (example_settings Python);
          D = D\<lparr>provider := session_changed (Some (0, blank_session)) (provider D), session_changes := Suc (session_changes D)\<rparr>;
          D = render 7 (ScalarDesignation (ScalarVariable [''a''] None 0 8)) D
      in D\<lparr>settings := example_settings VHDL, provider := watch_list_changed (\<lambda>_. True) (example_settings VHDL)
             (configuration_changed (\<lambda>_. True) (provider D))\<rparr>)"

lemma example_displays: "displays (example_settings Python) example_display"
proof -
  let ?D0 = "start_display (example_settings Python)"
  let ?D1 = "?D0\<lparr>provider := session_changed (Some (0, blank_session)) (provider ?D0), session_changes := Suc (session_changes ?D0)\<rparr>"
  let ?D2 = "render 7 (ScalarDesignation (ScalarVariable [''a''] None 0 8)) ?D1"
  have "truthful (\<lambda>_. True) (settings ?D2) (example_settings VHDL)" by (simp add: truthful_def)
  from configured [OF this] have last: "display_step ?D2 example_display"
    by (simp only: example_display_def Let_def)
  have "rtranclp display_step ?D0 ?D1" by (rule r_into_rtranclp) (rule session)
  moreover have "display_step ?D1 ?D2" by (rule rendered)
  ultimately show ?thesis using last unfolding displays_def by (meson rtranclp.rtrancl_into_rtrancl)
qed

theorem display_never_stale_witness:
  "\<exists>r. renderings example_display 7 = Some r \<and> rendered_style r = Python \<and>
     cfg_displayStyle (settings example_display) = VHDL \<and> announced example_display 7 r"
proof -
  obtain r where r: "renderings example_display 7 = Some r" "rendered_style r = Python"
    "cfg_displayStyle (settings example_display) = VHDL"
    by (cases "getValue (ScalarDesignation (ScalarVariable [''a''] None 0 8)) 7
          (session_changed (Some (0, blank_session)) no_provider)")
      (simp add: example_display_def render_def example_settings_def start_display_def Let_def)
  from display_never_stale [OF example_displays r(1)] r show ?thesis by simp
qed

text \<open>The watch list on display is the one of the settings, or the editor has been told to render it again.\<close>

theorem watch_list_never_stale:
  assumes "displays cfg D" and "watch_rendering D = Some w"
  shows "rendered_items w = watch_get (settings D) \<or> watch_announced D w"
  using displays_inv [OF assms(1)] assms(2) by (auto simp: watch_inv_def watch_ok_def)

end
