(* ===== verification/Json.thy ===== *)
theory Json
  imports Proto "HOL-Library.AList"
begin

text \<open>
  \<open>JSON.parse\<close>, as \<open>src/src/cxxrtl/link.ts\<close> applies it to the text of a packet.  \<open>parse_value\<close>,
  \<open>parse_elements\<close> and \<open>parse_members\<close> read a value, the rest of an array and the rest of an object
  from the front of a text and return what is left of it; their first argument bounds the depth of
  the recursion, and twice the length of the text is enough (\<open>json_parse_fuel\<close>).  An integer is read as
  such; a number with a fraction or an exponent, which nothing in the program reads, is kept as text
  (\<open>JReal\<close>).  Code units above 255, which the strings of the model do not have, are rejected.
\<close>

section \<open>Lexical elements\<close>

definition json_space :: "char \<Rightarrow> bool" where
  "json_space c \<longleftrightarrow> (of_char c :: nat) \<in> {9, 10, 13, 32}"

definition skip_space :: "string \<Rightarrow> string" where
  "skip_space s = dropWhile json_space s"

definition hex_val :: "char \<Rightarrow> nat option" where
  "hex_val c =
     (let n = (of_char c :: nat) in
      if 48 \<le> n \<and> n \<le> 57 then Some (n - 48)
      else if 97 \<le> n \<and> n \<le> 102 then Some (n - 87)
      else if 65 \<le> n \<and> n \<le> 70 then Some (n - 55)
      else None)"

definition unicode_escape :: "char \<Rightarrow> char \<Rightarrow> char \<Rightarrow> char \<Rightarrow> char option" where
  "unicode_escape a b c d =
     (case (hex_val a, hex_val b, hex_val c, hex_val d) of
        (Some 0, Some 0, Some x, Some y) \<Rightarrow> Some (char_of (x * 16 + y))
      | _ \<Rightarrow> None)"

definition simple_escape :: "char \<Rightarrow> char option" where
  "simple_escape c =
     (let n = (of_char c :: nat) in
      if n = 34 \<or> n = 92 \<or> n = 47 then Some c
      else if n = 98 then Some CHR 0x08 else if n = 102 then Some CHR 0x0C
      else if n = 110 then Some CHR 0x0A else if n = 114 then Some CHR 0x0D
      else if n = 116 then Some CHR 0x09 else None)"

text \<open>The inside of a string, after its opening quote.\<close>

fun parse_chars :: "string \<Rightarrow> (string \<times> string) option" where
  "parse_chars [] = None"
| "parse_chars (c # s) =
     (if c = CHR 0x22 then Some ([], s)
      else if c = CHR 0x5C then
        (case s of
           [] \<Rightarrow> None
         | e # s1 \<Rightarrow>
             if e = CHR ''u'' then
               (case s1 of
                  h1 # h2 # h3 # h4 # s2 \<Rightarrow>
                    (case unicode_escape h1 h2 h3 h4 of
                       None \<Rightarrow> None
                     | Some x \<Rightarrow> map_option (map_prod (Cons x) id) (parse_chars s2))
                | _ \<Rightarrow> None)
             else
               (case simple_escape e of
                  None \<Rightarrow> None
                | Some x \<Rightarrow> map_option (map_prod (Cons x) id) (parse_chars s1)))
      else if (of_char c :: nat) < 32 then None
      else map_option (map_prod (Cons c) id) (parse_chars s))"

text \<open>An optional part that starts with one of the given characters and goes on with digits.\<close>

definition digits_after :: "char list \<Rightarrow> char list \<Rightarrow> string \<Rightarrow> (string \<times> string) option" where
  "digits_after starts signs s =
     (case s of
        [] \<Rightarrow> Some ([], s)
      | c # r \<Rightarrow>
          if c \<notin> set starts then Some ([], s)
          else (let sign = (if r \<noteq> [] \<and> hd r \<in> set signs then [hd r] else []);
                    ds = takeWhile is_digit (drop (length sign) r)
                in if ds = [] then None
                   else Some (c # sign @ ds, dropWhile is_digit (drop (length sign) r))))"

definition parse_number :: "string \<Rightarrow> (json \<times> string) option" where
  "parse_number s =
     (let sign = (if s \<noteq> [] \<and> hd s = CHR ''-'' then [CHR ''-''] else []);
          ds = takeWhile is_digit (drop (length sign) s);
          r = dropWhile is_digit (drop (length sign) s)
      in if ds = [] \<or> (1 < length ds \<and> hd ds = CHR ''0'') then None
         else (case digits_after [CHR ''.''] [] r of
                 None \<Rightarrow> None
               | Some (fraction, r1) \<Rightarrow>
                   (case digits_after [CHR ''e'', CHR ''E''] [CHR ''+'', CHR ''-''] r1 of
                      None \<Rightarrow> None
                    | Some (exponent, r2) \<Rightarrow>
                        Some (if fraction = [] \<and> exponent = []
                              then JInt (if sign = [] then int (str_nat 10 ds) else - int (str_nat 10 ds))
                              else JReal (sign @ ds @ fraction @ exponent), r2))))"

definition parse_literal :: "string \<Rightarrow> (json \<times> string) option" where
  "parse_literal s =
     (if take 4 s = ''null'' then Some (JNull, drop 4 s)
      else if take 4 s = ''true'' then Some (JBool True, drop 4 s)
      else if take 5 s = ''false'' then Some (JBool False, drop 5 s)
      else parse_number s)"

section \<open>Values\<close>

text \<open>
  An object keeps the last value given for a key, at the key's first place; its keys are enumerated
  with the array indices first, in ascending order.
\<close>

definition array_index :: "string \<Rightarrow> bool" where
  "array_index k \<longleftrightarrow> k \<noteq> [] \<and> list_all is_digit k \<and> nat_str 10 (str_nat 10 k) = k \<and> str_nat 10 k < 2 ^ 32 - 1"

definition object_of :: "(string \<times> json) list \<Rightarrow> (string \<times> json) list" where
  "object_of fs =
     (let es = fold (\<lambda>(k, v). AList.update k v) fs []
      in sort_key (\<lambda>(k, v). str_nat 10 k) (filter (\<lambda>(k, v). array_index k) es) @
         filter (\<lambda>(k, v). \<not> array_index k) es)"

fun parse_value :: "nat \<Rightarrow> string \<Rightarrow> (json \<times> string) option"
  and parse_elements :: "nat \<Rightarrow> string \<Rightarrow> (json list \<times> string) option"
  and parse_members :: "nat \<Rightarrow> string \<Rightarrow> ((string \<times> json) list \<times> string) option" where
  "parse_value 0 s = None"
| "parse_value (Suc n) s =
     (case skip_space s of
        [] \<Rightarrow> None
      | c # r \<Rightarrow>
          if c = CHR 0x22 then map_option (map_prod JString id) (parse_chars r)
          else if c = CHR ''['' then
            (case skip_space r of
               [] \<Rightarrow> None
             | d # r1 \<Rightarrow> if d = CHR '']'' then Some (JArray [], r1)
                         else map_option (map_prod JArray id) (parse_elements n r))
          else if c = CHR ''{'' then
            (case skip_space r of
               [] \<Rightarrow> None
             | d # r1 \<Rightarrow> if d = CHR ''}'' then Some (JObject [], r1)
                         else map_option (map_prod (\<lambda>fs. JObject (object_of fs)) id) (parse_members n r))
          else parse_literal (c # r))"
| "parse_elements 0 s = None"
| "parse_elements (Suc n) s =
     (case parse_value n s of
        None \<Rightarrow> None
      | Some (v, r) \<Rightarrow>
          (case skip_space r of
             [] \<Rightarrow> None
           | d # r1 \<Rightarrow>
               if d = CHR '','' then map_option (map_prod (Cons v) id) (parse_elements n r1)
               else if d = CHR '']'' then Some ([v], r1)
               else None))"
| "parse_members 0 s = None"
| "parse_members (Suc n) s =
     (case skip_space s of
        [] \<Rightarrow> None
      | q # r \<Rightarrow>
          if q \<noteq> CHR 0x22 then None
          else (case parse_chars r of
              None \<Rightarrow> None
            | Some (k, r1) \<Rightarrow>
                (case skip_space r1 of
                   [] \<Rightarrow> None
                 | c # r2 \<Rightarrow>
                     if c \<noteq> CHR '':'' then None
                     else (case parse_value n r2 of
                         None \<Rightarrow> None
                       | Some (v, r3) \<Rightarrow>
                           (case skip_space r3 of
                              [] \<Rightarrow> None
                            | d # r4 \<Rightarrow>
                                if d = CHR '','' then map_option (map_prod (Cons (k, v)) id) (parse_members n r4)
                                else if d = CHR ''}'' then Some ([(k, v)], r4)
                                else None)))))"

text \<open>Nothing but white space may follow the value.\<close>

definition parse_text :: "nat \<Rightarrow> string \<Rightarrow> json option" where
  "parse_text n s =
     (case parse_value n s of
        None \<Rightarrow> None
      | Some (v, r) \<Rightarrow> if skip_space r = [] then Some v else None)"

definition json_parse :: "string \<Rightarrow> json option" where
  "json_parse s = parse_text (2 * length s + 2) s"

section \<open>The bound on the recursion\<close>

lemma length_skip_space: "length (skip_space s) \<le> length s"
  by (simp add: skip_space_def length_dropWhile_le)

lemma skip_space_Cons: "skip_space s = c # r \<Longrightarrow> length r < length s"
  using length_skip_space [of s] by simp

lemma parse_chars_shorter: "parse_chars s = Some (t, r) \<Longrightarrow> length r < length s"
proof (induction s arbitrary: t r rule: length_induct)
  case (1 s)
  have IH: "length r' < length u" if "parse_chars u = Some (t', r')" "length u < length s" for u t' r'
    using "1.IH" that by blast
  show ?case
  proof (cases s)
    case (Cons c u)
    with "1.prems" show ?thesis
      by (auto split: if_splits list.splits option.splits dest!: IH)
  qed (use "1.prems" in simp)
qed

lemma digits_after_shorter: "digits_after starts signs s = Some (t, r) \<Longrightarrow> length r \<le> length s"
  by (auto simp: digits_after_def Let_def split: list.splits if_splits
      intro: order_trans [OF length_dropWhile_le])

lemma parse_literal_shorter:
  assumes "parse_literal s = Some (v, r)"
  shows "length r < length s"
proof (cases "take 4 s = ''null'' \<or> take 4 s = ''true'' \<or> take 5 s = ''false''")
  case True
  moreover have "s \<noteq> []" using True by auto
  ultimately show ?thesis using assms by (cases s) (auto simp: parse_literal_def split: if_splits)
next
  case False
  then have "parse_number s = Some (v, r)" using assms by (simp add: parse_literal_def split: if_splits)
  moreover have "takeWhile is_digit u \<noteq> [] \<Longrightarrow> length (dropWhile is_digit u) < length u" for u
    by (cases u) (auto simp: le_imp_less_Suc length_dropWhile_le split: if_splits)
  ultimately show ?thesis
    by (fastforce simp: parse_number_def Let_def split: if_splits option.splits
        dest!: digits_after_shorter dest: less_le_trans le_less_trans)
qed

lemma parse_shorter:
  "parse_value n s = Some (v, r) \<Longrightarrow> length r < length s"
  "parse_elements n s = Some (vs, r) \<Longrightarrow> length r < length s"
  "parse_members n s = Some (fs, r) \<Longrightarrow> length r < length s"
proof (induction n arbitrary: s v vs fs r)
  case (Suc n)
  {
    case 1
    then show ?case
      by (auto split: list.splits if_splits dest!: skip_space_Cons parse_chars_shorter parse_literal_shorter Suc.IH)
  next
    case 2
    then show ?case
      by (auto split: list.splits if_splits option.splits dest!: skip_space_Cons Suc.IH)
  next
    case 3
    then show ?case
      by (auto split: list.splits if_splits option.splits dest!: skip_space_Cons parse_chars_shorter Suc.IH)
  }
qed simp_all

declare parse_value.simps(2) [simp del] parse_elements.simps(2) [simp del] parse_members.simps(2) [simp del]

lemma parse_more:
  "2 * length s < n \<Longrightarrow> parse_value (Suc n) s = parse_value n s"
  "2 * length s + 1 < n \<Longrightarrow> parse_elements (Suc n) s = parse_elements n s"
  "2 * length s + 1 < n \<Longrightarrow> parse_members (Suc n) s = parse_members n s"
proof (induction n arbitrary: s)
  case (Suc n)
  {
    case 1
    have "parse_elements (Suc n) r = parse_elements n r" "parse_members (Suc n) r = parse_members n r"
      if "skip_space s = c # r" for c r
      using skip_space_Cons [OF that] 1 by (simp_all add: Suc.IH)
    then show ?case
      by (subst parse_value.simps(2), subst parse_value.simps(2)) (simp split: list.split)
  next
    case 2
    have v: "parse_value (Suc n) s = parse_value n s" using 2 by (simp add: Suc.IH)
    have "parse_elements (Suc n) r1 = parse_elements n r1" if "parse_value n s = Some (x, r)" "skip_space r = d # r1" for x r d r1
      using parse_shorter(1) [OF that(1)] skip_space_Cons [OF that(2)] 2 by (simp add: Suc.IH)
    then show ?case
      by (subst parse_elements.simps(2), subst parse_elements.simps(2)) (simp only: v, simp split: option.split list.split)
  next
    case 3
    have v: "parse_value (Suc n) r2 = parse_value n r2"
      if "skip_space s = q # r" "parse_chars r = Some (k, r1)" "skip_space r1 = c # r2" for q r k r1 c r2
      using skip_space_Cons [OF that(1)] parse_chars_shorter [OF that(2)] skip_space_Cons [OF that(3)] 3
      by (simp add: Suc.IH)
    have m: "parse_members (Suc n) r4 = parse_members n r4"
      if "skip_space s = q # r" "parse_chars r = Some (k, r1)" "skip_space r1 = c # r2"
        "parse_value n r2 = Some (x, r3)" "skip_space r3 = d # r4" for q r k r1 c r2 x r3 d r4
      using skip_space_Cons [OF that(1)] parse_chars_shorter [OF that(2)] skip_space_Cons [OF that(3)]
        parse_shorter(1) [OF that(4)] skip_space_Cons [OF that(5)] 3
      by (simp add: Suc.IH)
    show ?case
      by (subst parse_members.simps(2), subst parse_members.simps(2)) (simp add: v m split: option.split list.split)
  }
qed simp_all

lemma parse_value_fuel: "2 * length s < n \<Longrightarrow> parse_value (n + k) s = parse_value n s"
  by (induction k) (simp_all add: parse_more)

text \<open>More depth than \<open>json_parse\<close> allows never changes the result: it rejects a text because it is not JSON.\<close>

theorem json_parse_fuel:
  assumes "2 * length s + 2 \<le> n"
  shows "parse_text n s = json_parse s"
proof -
  obtain k where n: "n = 2 * length s + 2 + k" using le_Suc_ex [OF assms] by blast
  have "parse_value n s = parse_value (2 * length s + 2) s" unfolding n by (rule parse_value_fuel) simp
  then show ?thesis by (simp only: json_parse_def parse_text_def)
qed

section \<open>Reading what \<open>JSON.stringify\<close> writes\<close>

lemma hex_val_digit: "d < 16 \<Longrightarrow> hex_val (digit_char d) = Some d"
  by (auto simp: hex_val_def digit_char_def Let_def)

lemma short_hex: "n < 32 \<Longrightarrow> padStart 2 CHR ''0'' (nat_str 16 n) = [digit_char (n div 16), digit_char (n mod 16)]"
proof -
  assume n: "n < 32"
  show ?thesis
  proof (cases "n < 16")
    case True
    then show ?thesis by (subst nat_str.simps) (simp add: padStart_def digit_char_0)
  next
    case False
    with n have "n div 16 < 16" by simp
    then have "nat_str 16 (n div 16) = [digit_char (n div 16)]" by (subst nat_str.simps) simp
    with False show ?thesis by (subst nat_str.simps) (simp add: padStart_def)
  qed
qed

lemma char_codes:
  "char_of (34 :: nat) = CHR 0x22" "char_of (92 :: nat) = CHR 0x5C" "char_of (8 :: nat) = CHR 0x08"
  "char_of (9 :: nat) = CHR 0x09" "char_of (10 :: nat) = CHR 0x0A" "char_of (12 :: nat) = CHR 0x0C"
  "char_of (13 :: nat) = CHR 0x0D"
  by code_simp+

lemma parse_escaped: "parse_chars (escape_char c @ s) = map_option (map_prod (Cons c) id) (parse_chars s)"
proof -
  let ?n = "of_char c :: nat"
  have code: "c = char_of k" if "?n = k" for k using that by (metis char_of_char)
  consider "?n = 34" | "?n = 92" | "?n = 8" | "?n = 9" | "?n = 10" | "?n = 12" | "?n = 13"
    | "?n < 32" "?n \<notin> {8, 9, 10, 12, 13}" | "32 \<le> ?n" "?n \<noteq> 34" "?n \<noteq> 92" by fastforce
  then show ?thesis
  proof cases
    case 8
    have "unicode_escape CHR ''0'' CHR ''0'' (digit_char (?n div 16)) (digit_char (?n mod 16)) = Some c"
      using 8(1) hex_val_digit [of 0] by (simp add: unicode_escape_def hex_val_digit digit_char_0)
    with 8 show ?thesis by (simp add: escape_char_def Let_def short_hex)
  next
    case 9
    then have "c \<noteq> CHR 0x22" "c \<noteq> CHR 0x5C" by auto
    with 9 show ?thesis by (simp add: escape_char_def Let_def)
  qed (use code in \<open>simp_all add: escape_char_def Let_def simple_escape_def char_codes\<close>)
qed

lemma parse_quoted: "parse_chars (concat (map escape_char t) @ CHR 0x22 # rest) = Some (t, rest)"
  by (induction t) (simp_all add: parse_escaped)

text \<open>A number must not be followed by what would continue it.\<close>

definition number_ends :: "string \<Rightarrow> bool" where
  "number_ends rest \<longleftrightarrow> rest = [] \<or> \<not> is_digit (hd rest) \<and> hd rest \<notin> {CHR ''.'', CHR ''e'', CHR ''E''}"

lemma nat_str_no_leading_zero: "1 < length (nat_str 10 n) \<Longrightarrow> hd (nat_str 10 n) \<noteq> CHR ''0''"
proof (induction "10 :: nat" n rule: nat_str.induct)
  case (1 n)
  have small: "nat_str 10 m = [digit_char m]" if "m < 10" for m using that by (subst nat_str.simps) simp
  show ?case
  proof (cases "n < 10")
    case True
    with "1.prems" show ?thesis by (simp add: small)
  next
    case False
    have step: "nat_str 10 n = nat_str 10 (n div 10) @ [digit_char (n mod 10)]"
      using False by (subst nat_str.simps) simp
    show ?thesis
    proof (cases "n div 10 < 10")
      case True
      then have "hd (nat_str 10 n) = digit_char (n div 10)" by (simp add: step small)
      moreover have "digit_char (n div 10) \<noteq> CHR ''0''"
        using digit_char_inj [of "n div 10" 0] True False by (auto simp: digit_char_0)
      ultimately show ?thesis by simp
    next
      case more: False
      then have "1 < length (nat_str 10 (n div 10))"
        by (subst nat_str.simps) simp
      then have "hd (nat_str 10 (n div 10)) \<noteq> CHR ''0''" using 1 False by simp
      then show ?thesis by (simp add: step)
    qed
  qed
qed

lemma no_digits_after: "number_ends rest \<Longrightarrow> set starts \<subseteq> {CHR ''.'', CHR ''e'', CHR ''E''} \<Longrightarrow> digits_after starts signs rest = Some ([], rest)"
  by (cases rest) (auto simp: number_ends_def digits_after_def)

lemma parse_int_str:
  assumes "number_ends rest"
  shows "parse_number (int_str z @ rest) = Some (JInt z, rest)"
proof -
  define ds where "ds = nat_str 10 (nat \<bar>z\<bar>)"
  have ds: "list_all is_digit ds" "ds \<noteq> []" "1 < length ds \<Longrightarrow> hd ds \<noteq> CHR ''0''" "str_nat 10 ds = nat \<bar>z\<bar>"
    using nat_str_no_leading_zero by (simp_all add: ds_def nat_str_decimal_all str_nat_nat_str)
  have cut: "takeWhile is_digit (ds @ rest) = ds" "dropWhile is_digit (ds @ rest) = rest"
    using ds(1) assms by (auto intro!: takeWhile_digits dropWhile_digits simp: number_ends_def)
  have none: "digits_after [CHR ''.''] [] rest = Some ([], rest)"
    "digits_after [CHR ''e'', CHR ''E''] [CHR ''+'', CHR ''-''] rest = Some ([], rest)"
    using assms by (simp_all add: no_digits_after)
  have plus: "hd (ds @ rest) \<noteq> CHR ''-''" using ds(1,2) by (cases ds) auto
  show ?thesis
  proof (cases "z < 0")
    case True
    then have "int_str z = CHR ''-'' # ds" by (simp add: int_str_def ds_def)
    with True show ?thesis using ds cut none by (auto simp: parse_number_def Let_def)
  next
    case False
    then have "int_str z = ds" by (simp add: int_str_def ds_def)
    with False show ?thesis using ds cut none plus by (auto simp: parse_number_def Let_def)
  qed
qed

lemma parse_literal_int:
  assumes "number_ends rest"
  shows "parse_literal (int_str z @ rest) = Some (JInt z, rest)"
proof -
  obtain c s where z: "int_str z = c # s" "is_digit c \<or> c = CHR ''-''"
    using int_str_chars [of _ z] by (cases "int_str z") (auto simp: int_str_def split: if_splits)
  then have "c \<noteq> CHR ''n''" "c \<noteq> CHR ''t''" "c \<noteq> CHR ''f''" by auto (auto simp: is_digit_def)
  then have "parse_literal (int_str z @ rest) = parse_number (int_str z @ rest)"
    by (simp add: parse_literal_def z(1))
  then show ?thesis by (simp add: parse_int_str [OF assms])
qed

text \<open>Values as \<open>JSON.parse\<close> gives them: no reals, and objects with their keys in the order they are enumerated.\<close>

fun canonical :: "json \<Rightarrow> bool" where
  "canonical (JReal t) = False"
| "canonical (JArray xs) = list_all canonical xs"
| "canonical (JObject fs) = (object_of fs = fs \<and> list_all (\<lambda>(k, v). canonical v) fs)"
| "canonical _ = True"

lemma stringify_head:
  assumes "canonical v"
  obtains c s where "stringify v = c # s" "\<not> json_space c" "c \<noteq> CHR '']''" "c \<noteq> CHR ''}''"
proof (cases v)
  case (JInt z)
  obtain c s where z: "int_str z = c # s" "is_digit c \<or> c = CHR ''-''"
    using int_str_chars [of _ z] by (cases "int_str z") (auto simp: int_str_def split: if_splits)
  then have "\<not> json_space c" "c \<noteq> CHR '']''" "c \<noteq> CHR ''}''" by (auto simp: json_space_def is_digit_def)
  then show ?thesis using that JInt z(1) by simp
next
  case (JBool b)
  then show ?thesis using that by (cases b) (simp_all add: json_space_def)
qed (use that assms in \<open>auto simp: quote_def json_space_def split: if_splits\<close>)

lemma skip_space_stringify: "canonical v \<Longrightarrow> skip_space (stringify v @ rest) = stringify v @ rest"
  by (rule stringify_head [of v]) (simp_all add: skip_space_def)

lemma skip_space_punctuation [simp]:
  "skip_space (CHR '','' # s) = CHR '','' # s" "skip_space (CHR '']'' # s) = CHR '']'' # s"
  "skip_space (CHR ''}'' # s) = CHR ''}'' # s" "skip_space (CHR '':'' # s) = CHR '':'' # s"
  "skip_space (CHR 0x22 # s) = CHR 0x22 # s"
  by (simp_all add: skip_space_def json_space_def)

lemma ends_punctuation [simp]:
  "number_ends (CHR '','' # s)" "number_ends (CHR '']'' # s)" "number_ends (CHR ''}'' # s)"
  by (simp_all add: number_ends_def is_digit_def)

lemma parse_elements_join:
  assumes "\<And>x m r. x \<in> set xs \<Longrightarrow> number_ends r \<Longrightarrow> 2 * length (stringify x) < m \<Longrightarrow>
      parse_value m (stringify x @ r) = Some (x, r)"
  shows "xs \<noteq> [] \<Longrightarrow> 2 * length (join '','' (map stringify xs)) + 1 < n \<Longrightarrow>
    parse_elements n (join '','' (map stringify xs) @ CHR '']'' # rest) = Some (xs, rest)"
  using assms
proof (induction xs arbitrary: n)
  case (Cons x xs)
  obtain m where n: "n = Suc m" using Cons.prems(2) by (cases n) auto
  show ?case
  proof (cases "xs = []")
    case True
    have "parse_value m (stringify x @ CHR '']'' # rest) = Some (x, CHR '']'' # rest)"
      using Cons.prems by (intro Cons.prems(3)) (simp_all add: n True)
    then show ?thesis by (simp add: n True parse_elements.simps(2))
  next
    case False
    let ?j = "join '','' (map stringify xs)"
    have whole: "join '','' (map stringify (x # xs)) = stringify x @ CHR '','' # ?j" using False by (simp add: join_Cons)
    have "parse_value m (stringify x @ CHR '','' # ?j @ CHR '']'' # rest) = Some (x, CHR '','' # ?j @ CHR '']'' # rest)"
      using Cons.prems(2) by (intro Cons.prems(3)) (simp_all add: n whole del: list.map)
    moreover have "parse_elements m (?j @ CHR '']'' # rest) = Some (xs, rest)"
      using Cons.prems(2) by (intro Cons.IH False Cons.prems(3)) (simp_all add: n whole del: list.map)
    ultimately show ?thesis unfolding whole n by (simp add: parse_elements.simps(2))
  qed
qed simp

definition member_text :: "string \<times> json \<Rightarrow> string" where
  "member_text = (\<lambda>(k, v). quote k @ '':'' @ stringify v)"

lemma parse_members_join:
  assumes "\<And>k x m r. (k, x) \<in> set fs \<Longrightarrow> number_ends r \<Longrightarrow> 2 * length (stringify x) < m \<Longrightarrow>
      parse_value m (stringify x @ r) = Some (x, r)"
  shows "fs \<noteq> [] \<Longrightarrow> 2 * length (join '','' (map member_text fs)) + 1 < n \<Longrightarrow>
    parse_members n (join '','' (map member_text fs) @ CHR ''}'' # rest) = Some (fs, rest)"
  using assms
proof (induction fs arbitrary: n)
  case (Cons kx fs)
  obtain k x where kx: "kx = (k, x)" by fastforce
  obtain m where n: "n = Suc m" using Cons.prems(2) by (cases n) auto
  have member: "member_text (k, x) @ r = CHR 0x22 # concat (map escape_char k) @ CHR 0x22 # CHR '':'' # stringify x @ r" for r
    by (simp add: member_text_def quote_def)
  show ?case
  proof (cases "fs = []")
    case True
    have "2 * length (stringify x) < m" using Cons.prems(2) by (simp add: n True kx member_text_def)
    then have "parse_value m (stringify x @ CHR ''}'' # rest) = Some (x, CHR ''}'' # rest)"
      by (intro Cons.prems(3) [of k]) (simp_all add: kx)
    then show ?thesis by (simp add: n True kx member parse_members.simps(2) parse_quoted)
  next
    case False
    let ?j = "join '','' (map member_text fs)"
    have whole: "join '','' (map member_text (kx # fs)) = member_text kx @ CHR '','' # ?j" using False by (simp add: join_Cons)
    have fuel: "2 * length (stringify x) < m" "2 * length ?j + 1 < m"
      using Cons.prems(2) unfolding whole by (simp_all add: n kx member_text_def)
    have "parse_value m (stringify x @ CHR '','' # ?j @ CHR ''}'' # rest) = Some (x, CHR '','' # ?j @ CHR ''}'' # rest)"
      using fuel(1) by (intro Cons.prems(3) [of k]) (simp_all add: kx)
    moreover have "parse_members m (?j @ CHR ''}'' # rest) = Some (fs, rest)"
    proof (rule Cons.IH [OF False fuel(2)])
      fix k x m r
      assume "(k, x) \<in> set fs" "number_ends r" "2 * length (stringify x) < m"
      then show "parse_value m (stringify x @ r) = Some (x, r)" using Cons.prems(3) [of k x r m] by simp
    qed
    ultimately show ?thesis unfolding whole n by (simp add: kx member parse_members.simps(2) parse_quoted)
  qed
qed simp

lemma parse_stringify_array:
  assumes "canonical (JArray xs)" "number_ends rest" "2 * length (stringify (JArray xs)) < n"
    and "\<And>x l r. x \<in> set xs \<Longrightarrow> canonical x \<Longrightarrow> number_ends r \<Longrightarrow> 2 * length (stringify x) < l \<Longrightarrow>
      parse_value l (stringify x @ r) = Some (x, r)"
  shows "parse_value n (stringify (JArray xs) @ rest) = Some (JArray xs, rest)"
proof -
  obtain m where n: "n = Suc m" using assms(3) by (cases n) auto
  show ?thesis
  proof (cases xs)
    case Nil
    then show ?thesis by (simp add: n parse_value.simps(2) skip_space_def json_space_def)
  next
    case (Cons x ys)
    let ?j = "join '','' (map stringify xs)"
    have "canonical x" using assms(1) by (simp add: Cons)
    then obtain c s where x: "stringify x = c # s" "\<not> json_space c" "c \<noteq> CHR '']''" by (rule stringify_head)
    have j: "\<exists>u. ?j = c # u" using x(1) by (cases ys) (simp_all add: Cons)
    have "parse_elements m (?j @ CHR '']'' # rest) = Some (xs, rest)"
    proof (rule parse_elements_join)
      show "xs \<noteq> []" by (simp add: Cons)
      show "2 * length ?j + 1 < m" using assms(3) by (simp add: n)
      fix x l r
      assume "x \<in> set xs" "number_ends r" "2 * length (stringify x) < l"
      then show "parse_value l (stringify x @ r) = Some (x, r)" using assms(1,4) by (simp add: list_all_iff)
    qed
    then show ?thesis
      using j x by (auto simp: n parse_value.simps(2) skip_space_def json_space_def)
  qed
qed

lemma parse_stringify_object:
  assumes "canonical (JObject fs)" "number_ends rest" "2 * length (stringify (JObject fs)) < n"
    and "\<And>k x l r. (k, x) \<in> set fs \<Longrightarrow> canonical x \<Longrightarrow> number_ends r \<Longrightarrow> 2 * length (stringify x) < l \<Longrightarrow>
      parse_value l (stringify x @ r) = Some (x, r)"
  shows "parse_value n (stringify (JObject fs) @ rest) = Some (JObject fs, rest)"
proof -
  obtain m where n: "n = Suc m" using assms(3) by (cases n) auto
  show ?thesis
  proof (cases fs)
    case Nil
    then show ?thesis by (simp add: n parse_value.simps(2) skip_space_def json_space_def)
  next
    case (Cons kx ys)
    let ?j = "join '','' (map member_text fs)"
    have j: "\<exists>u. ?j = CHR 0x22 # u"
      by (cases kx; cases ys) (simp_all add: Cons member_text_def quote_def)
    have whole: "stringify (JObject fs) = CHR ''{'' # ?j @ ''}''" by (simp add: member_text_def)
    have "parse_members m (?j @ CHR ''}'' # rest) = Some (fs, rest)"
    proof (rule parse_members_join)
      show "fs \<noteq> []" by (simp add: Cons)
      show "2 * length ?j + 1 < m" using assms(3) by (simp add: n whole del: stringify.simps)
      fix k x l r
      assume "(k, x) \<in> set fs" "number_ends r" "2 * length (stringify x) < l"
      moreover have "canonical x" using assms(1) \<open>(k, x) \<in> set fs\<close> by (auto simp: list_all_iff)
      ultimately show "parse_value l (stringify x @ r) = Some (x, r)" using assms(4) by blast
    qed
    then show ?thesis
      unfolding whole using j assms(1) by (auto simp: n parse_value.simps(2) skip_space_def json_space_def)
  qed
qed

lemma parse_stringify:
  "canonical v \<Longrightarrow> number_ends rest \<Longrightarrow> 2 * length (stringify v) < n \<Longrightarrow>
     parse_value n (stringify v @ rest) = Some (v, rest)"
proof (induction v arbitrary: n rest rule: stringify.induct)
  case (3 z)
  then obtain m where n: "n = Suc m" by (cases n) auto
  obtain c s where z: "int_str z = c # s" "is_digit c \<or> c = CHR ''-''"
    using int_str_chars [of _ z] by (cases "int_str z") (auto simp: int_str_def split: if_splits)
  then have "c \<noteq> CHR 0x22" "c \<noteq> CHR ''[''" "c \<noteq> CHR ''{''" by (auto simp: is_digit_def)
  then show ?case
    using skip_space_stringify [of "JInt z" rest] parse_literal_int [OF "3.prems"(2), of z] by (simp add: n z parse_value.simps(2))
next
  case (5 s)
  then obtain m where n: "n = Suc m" by (cases n) auto
  then show ?case by (simp add: quote_def parse_value.simps(2) parse_quoted)
next
  case (6 xs)
  show ?case by (rule parse_stringify_array [OF 6(2-4)]) (rule 6(1))
next
  case (7 fs)
  show ?case by (rule parse_stringify_object [OF 7(2-4)]) (rule 7(1) [OF _ refl])
next
  case 1
  then obtain m where n: "n = Suc m" by (cases n) auto
  show ?case by (simp add: n parse_value.simps(2) skip_space_def json_space_def parse_literal_def)
next
  case (2 b)
  then obtain m where n: "n = Suc m" by (cases n) auto
  show ?case by (cases b) (simp_all add: n parse_value.simps(2) skip_space_def json_space_def parse_literal_def)
qed simp_all

text \<open>\<open>JSON.parse\<close> reads back what \<open>JSON.stringify\<close> writes.\<close>

theorem json_roundtrip:
  assumes "canonical v"
  shows "json_parse (stringify v) = Some v"
proof -
  have "number_ends []" by (simp add: number_ends_def)
  from parse_stringify [OF assms this, of "2 * length (stringify v) + 2"]
  show ?thesis by (simp add: json_parse_def parse_text_def skip_space_def)
qed

end
