(* ===== verification/Packets.thy ===== *)
theory Packets
  imports Json Link
begin

text \<open>
  The server's packets as JSON: \<open>json_server_packet\<close> writes a packet in the shape that
  \<open>src/src/cxxrtl/proto.ts\<close> declares, and \<open>read_packet\<close> is \<open>JSON.parse(packetText) as
  proto.ServerPacket\<close> of \<open>src/src/cxxrtl/link.ts\<close>: the text is parsed, and its value taken for a packet
  by its \<open>type\<close>, \<open>command\<close>, \<open>event\<close> and \<open>status\<close> fields.  The cast itself checks nothing: the program
  trusts that the server's texts have the declared shape, so a text of another shape, which the
  program would go on with as it is, is outside the model (\<open>None\<close>, as a malformed text).
\<close>

section \<open>Reading the fields of a value\<close>

definition misfit :: "js_error + 'a" where
  "misfit = Inl (TypeError ''shape'')"

definition and_then :: "js_error + 'a \<Rightarrow> ('a \<Rightarrow> js_error + 'b) \<Rightarrow> js_error + 'b" where
  "and_then m f = (case m of Inl e \<Rightarrow> Inl e | Inr a \<Rightarrow> f a)"

lemma and_then_simps [simp]: "and_then (Inr a) f = f a" "and_then (Inl e) f = Inl e"
  by (simp_all add: and_then_def)

definition read_string :: "json \<Rightarrow> js_error + string" where
  "read_string v = (case v of JString s \<Rightarrow> Inr s | _ \<Rightarrow> misfit)"

definition read_int :: "json \<Rightarrow> js_error + int" where
  "read_int v = (case v of JInt z \<Rightarrow> Inr z | _ \<Rightarrow> misfit)"

definition read_nat :: "json \<Rightarrow> js_error + nat" where
  "read_nat v = (case v of JInt z \<Rightarrow> if 0 \<le> z then Inr (nat z) else misfit | _ \<Rightarrow> misfit)"

definition read_bool :: "json \<Rightarrow> js_error + bool" where
  "read_bool v = (case v of JBool b \<Rightarrow> Inr b | _ \<Rightarrow> misfit)"

definition read_null_or :: "(json \<Rightarrow> js_error + 'a) \<Rightarrow> json \<Rightarrow> js_error + 'a option" where
  "read_null_or f v = (if v = JNull then Inr None else map_sum id Some (f v))"

definition read_list :: "(json \<Rightarrow> js_error + 'a) \<Rightarrow> json \<Rightarrow> js_error + 'a list" where
  "read_list f v = (case v of JArray xs \<Rightarrow> sum_map f xs | _ \<Rightarrow> misfit)"

definition read_map :: "(json \<Rightarrow> js_error + 'a) \<Rightarrow> json \<Rightarrow> js_error + (string \<times> 'a) list" where
  "read_map f v =
     (case v of JObject fs \<Rightarrow> sum_map (\<lambda>(k, x). map_sum id (Pair k) (f x)) fs | _ \<Rightarrow> misfit)"

definition lookup :: "string \<Rightarrow> json \<Rightarrow> json option" where
  "lookup k v = (case v of JObject fs \<Rightarrow> map_of fs k | _ \<Rightarrow> None)"

definition field :: "string \<Rightarrow> (json \<Rightarrow> js_error + 'a) \<Rightarrow> json \<Rightarrow> ('a \<Rightarrow> js_error + 'b) \<Rightarrow> js_error + 'b" where
  "field k f v g = (case lookup k v of None \<Rightarrow> misfit | Some x \<Rightarrow> and_then (f x) g)"

definition optional_field ::
  "string \<Rightarrow> (json \<Rightarrow> js_error + 'a) \<Rightarrow> json \<Rightarrow> ('a option \<Rightarrow> js_error + 'b) \<Rightarrow> js_error + 'b" where
  "optional_field k f v g = (case lookup k v of None \<Rightarrow> g None | Some x \<Rightarrow> and_then (f x) (\<lambda>a. g (Some a)))"

lemma field_object [simp]:
  "field k f (JObject fs) g = (case map_of fs k of None \<Rightarrow> misfit | Some x \<Rightarrow> and_then (f x) g)"
  "optional_field k f (JObject fs) h = (case map_of fs k of None \<Rightarrow> h None | Some x \<Rightarrow> and_then (f x) (\<lambda>a. h (Some a)))"
  by (simp_all add: field_def optional_field_def lookup_def)

lemma read_basic [simp]:
  "read_string (JString s) = Inr s" "read_int (JInt z) = Inr z" "read_nat (JInt (int n)) = Inr n"
  "read_bool (JBool b) = Inr b" "read_null_or read_string (json_opt x) = Inr x"
  by (simp_all add: read_string_def read_int_def read_nat_def read_bool_def read_null_or_def json_opt_def
      split: option.split)

lemma read_list_map [simp]:
  "(\<And>x. x \<in> set xs \<Longrightarrow> f (enc x) = Inr x) \<Longrightarrow> read_list f (JArray (map enc xs)) = Inr xs"
  by (induction xs) (auto simp: read_list_def)

lemma read_map_map [simp]:
  "(\<And>k x. (k, x) \<in> set xs \<Longrightarrow> f (enc x) = Inr x) \<Longrightarrow>
     read_map f (JObject (map (\<lambda>(k, x). (k, enc x)) xs)) = Inr xs"
proof (induction xs)
  case (Cons kx xs)
  obtain k x where kx: "kx = (k, x)" by fastforce
  have "f (enc x) = Inr x" using Cons.prems [of k x] by (simp add: kx)
  moreover have "read_map f (JObject (map (\<lambda>(k, x). (k, enc x)) xs)) = Inr xs"
  proof (rule Cons.IH)
    show "f (enc x) = Inr x" if "(k, x) \<in> set xs" for k x using that Cons.prems [of k x] by simp
  qed
  ultimately show ?case by (simp add: read_map_def kx)
qed (simp add: read_map_def)

section \<open>Objects whose keys are kept in order\<close>

definition plain_keys :: "string list \<Rightarrow> bool" where
  "plain_keys ks \<longleftrightarrow> distinct ks \<and> list_all (\<lambda>k. \<not> array_index k) ks"

lemma update_new: "k \<notin> set (map fst fs) \<Longrightarrow> AList.update k v fs = fs @ [(k, v)]"
  by (induction fs) auto

lemma object_of_plain: "plain_keys (map fst fs) \<Longrightarrow> object_of fs = fs"
proof -
  have run: "distinct (map fst (es @ fs)) \<Longrightarrow> fold (\<lambda>(k, v). AList.update k v) fs es = es @ fs" for es
  proof (induction fs arbitrary: es)
    case (Cons f fs)
    then show ?case using Cons.IH [of "es @ [f]"] by (cases f) (simp add: update_new)
  qed simp
  assume plain: "plain_keys (map fst fs)"
  then have "filter (\<lambda>(k, v). array_index k) fs = []" "filter (\<lambda>(k, v). \<not> array_index k) fs = fs"
    by (auto simp: plain_keys_def list_all_iff filter_empty_conv filter_id_conv)
  with plain run [of "[]"] show ?thesis by (simp add: object_of_def plain_keys_def)
qed

lemma not_index_alpha [simp]: "\<not> is_digit c \<Longrightarrow> \<not> array_index (c # s)"
  by (simp add: array_index_def)

lemma is_digit_letters [simp]:
  "\<not> is_digit CHR ''t''" "\<not> is_digit CHR ''v''" "\<not> is_digit CHR ''c''" "\<not> is_digit CHR ''e''"
  "\<not> is_digit CHR ''i''" "\<not> is_digit CHR ''d''" "\<not> is_digit CHR ''a''" "\<not> is_digit CHR ''l''"
  "\<not> is_digit CHR ''w''" "\<not> is_digit CHR ''o''" "\<not> is_digit CHR ''z''"
  by (simp_all add: is_digit_def)

section \<open>Parts of the packets\<close>

text \<open>\<open>AttributeMap\<close> is declared without a leaf; members that are not objects have no place in it.\<close>

fun json_attributes :: "attribute_map \<Rightarrow> json" where
  "json_attributes (AttributeMap fs) = JObject (map (\<lambda>(k, a). (k, json_attributes a)) fs)"

definition is_object :: "json \<Rightarrow> bool" where
  "is_object v = (case v of JObject _ \<Rightarrow> True | _ \<Rightarrow> False)"

fun attributes_of :: "json \<Rightarrow> attribute_map" where
  "attributes_of (JObject fs) =
     AttributeMap (map (\<lambda>(k, v). (k, attributes_of v)) (filter (\<lambda>(k, v). is_object v) fs))"
| "attributes_of _ = AttributeMap []"

definition read_attributes :: "json \<Rightarrow> js_error + attribute_map" where
  "read_attributes v = (if is_object v then Inr (attributes_of v) else misfit)"

fun plain_attributes :: "attribute_map \<Rightarrow> bool" where
  "plain_attributes (AttributeMap fs) \<longleftrightarrow> plain_keys (map fst fs) \<and> list_all (\<lambda>(k, a). plain_attributes a) fs"

lemma is_object_attributes [simp]: "is_object (json_attributes a)"
  by (cases a) (simp add: is_object_def)

lemma attributes_of_json [simp]: "attributes_of (json_attributes a) = a"
proof (induction a rule: json_attributes.induct)
  case (1 fs)
  have all: "filter (\<lambda>(k, v). is_object v) (map (\<lambda>(k, a). (k, json_attributes a)) fs) =
      map (\<lambda>(k, a). (k, json_attributes a)) fs"
    by (auto simp: filter_id_conv)
  have "map (\<lambda>(k, v). (k, attributes_of v)) (map (\<lambda>(k, a). (k, json_attributes a)) fs) = fs"
    using 1 by (induction fs) auto
  then show ?case by (simp only: json_attributes.simps attributes_of.simps all)
qed

lemma read_attributes_json [simp]: "read_attributes (json_attributes a) = Inr a"
  by (simp add: read_attributes_def)

definition json_scope :: "scope_description \<Rightarrow> json" where
  "json_scope sd =
     JObject [(''type'', JString ''module''),
       (''definition'', JObject [(''src'', json_opt (def_src (definition_of sd))), (''name'', json_opt (def_name (definition_of sd))),
          (''attributes'', json_attributes (def_attributes (definition_of sd)))]),
       (''instantiation'', JObject [(''src'', json_opt (inst_src (instantiation_of sd))),
          (''attributes'', json_attributes (inst_attributes (instantiation_of sd)))])]"

definition read_scope :: "json \<Rightarrow> js_error + scope_description" where
  "read_scope v =
     field ''definition'' Inr v (\<lambda>d. field ''instantiation'' Inr v (\<lambda>i.
     field ''src'' (read_null_or read_string) d (\<lambda>dsrc. field ''name'' (read_null_or read_string) d (\<lambda>dname.
     field ''attributes'' read_attributes d (\<lambda>dattr.
     field ''src'' (read_null_or read_string) i (\<lambda>isrc. field ''attributes'' read_attributes i (\<lambda>iattr.
       Inr (ScopeDescriptionModule (ScopeDefinition dsrc dname dattr) (ScopeInstantiation isrc iattr)))))))))"

lemma read_scope_json [simp]: "read_scope (json_scope sd) = Inr sd"
  by (cases sd; cases "definition_of sd"; cases "instantiation_of sd") (auto simp: read_scope_def json_scope_def)

definition json_item :: "item_description \<Rightarrow> json" where
  "json_item it =
     (case it of
        ItemDescriptionNode src lsb w i out settable attrs \<Rightarrow>
          JObject [(''src'', json_opt src), (''type'', JString ''node''), (''lsb_at'', JInt lsb), (''width'', JInt (int w)),
            (''input'', JBool i), (''output'', JBool out), (''settable'', JBool settable), (''attributes'', json_attributes attrs)]
      | ItemDescriptionMemory src lsb w zero depth settable attrs \<Rightarrow>
          JObject [(''src'', json_opt src), (''type'', JString ''memory''), (''lsb_at'', JInt lsb), (''width'', JInt (int w)),
            (''zero_at'', JInt zero), (''depth'', JInt (int depth)), (''settable'', JBool settable),
            (''attributes'', json_attributes attrs)])"

definition read_item :: "json \<Rightarrow> js_error + item_description" where
  "read_item v =
     field ''type'' read_string v (\<lambda>ty. field ''src'' (read_null_or read_string) v (\<lambda>src.
     field ''lsb_at'' read_int v (\<lambda>lsb. field ''width'' read_nat v (\<lambda>w. field ''settable'' read_bool v (\<lambda>settable.
     field ''attributes'' read_attributes v (\<lambda>attrs.
       if ty = ''node''
       then field ''input'' read_bool v (\<lambda>i. field ''output'' read_bool v (\<lambda>out.
              Inr (ItemDescriptionNode src lsb w i out settable attrs)))
       else if ty = ''memory''
       then field ''zero_at'' read_int v (\<lambda>zero. field ''depth'' read_nat v (\<lambda>depth.
              Inr (ItemDescriptionMemory src lsb w zero depth settable attrs)))
       else misfit))))))"

lemma read_item_json [simp]: "read_item (json_item it) = Inr it"
  by (cases it) (simp_all add: read_item_def json_item_def)

definition read_diagnostic_type :: "json \<Rightarrow> js_error + diagnostic_type" where
  "read_diagnostic_type v =
     (if v = JString ''break'' then Inr DiagBreak else if v = JString ''print'' then Inr DiagPrint
      else if v = JString ''assert'' then Inr DiagAssert else if v = JString ''assume'' then Inr DiagAssume else misfit)"

definition json_diagnostic :: "diagnostic \<Rightarrow> json" where
  "json_diagnostic d =
     JObject [(''type'', json_diagnostic_type (diag_type d)), (''text'', JString (diag_text d)), (''src'', json_opt (diag_src d))]"

definition read_diagnostic :: "json \<Rightarrow> js_error + diagnostic" where
  "read_diagnostic v =
     field ''type'' read_diagnostic_type v (\<lambda>ty. field ''text'' read_string v (\<lambda>txt'.
     field ''src'' (read_null_or read_string) v (\<lambda>src. Inr (Diagnostic ty txt' src))))"

lemma read_diagnostic_json [simp]: "read_diagnostic (json_diagnostic d) = Inr d"
proof -
  have "read_diagnostic_type (json_diagnostic_type t) = Inr t" for t by (cases t) (simp_all add: read_diagnostic_type_def)
  then show ?thesis by (cases d) (simp add: read_diagnostic_def json_diagnostic_def)
qed

text \<open>The two optional fields of a sample are left out when they are undefined.\<close>

definition json_sample :: "proto_sample \<Rightarrow> json" where
  "json_sample p =
     JObject ((''time'', JString (ps_time p)) #
       (case ps_item_values p of None \<Rightarrow> [] | Some b \<Rightarrow> [(''item_values'', JString b)]) @
       (case ps_diagnostics p of None \<Rightarrow> [] | Some ds \<Rightarrow> [(''diagnostics'', JArray (map json_diagnostic ds))]))"

definition read_sample :: "json \<Rightarrow> js_error + proto_sample" where
  "read_sample v =
     field ''time'' read_string v (\<lambda>time. optional_field ''item_values'' read_string v (\<lambda>vals.
     optional_field ''diagnostics'' (read_list read_diagnostic) v (\<lambda>ds. Inr (ProtoSample time vals ds))))"

lemma read_sample_json [simp]: "read_sample (json_sample p) = Inr p"
  by (cases p) (auto simp: read_sample_def json_sample_def split: option.split)

section \<open>Packets\<close>

definition json_strings :: "string list \<Rightarrow> json" where
  "json_strings xs = JArray (map JString xs)"

definition json_members :: "('a \<Rightarrow> json) \<Rightarrow> (string \<times> 'a) list \<Rightarrow> json" where
  "json_members enc fs = JObject (map (\<lambda>(k, x). (k, enc x)) fs)"

lemma read_strings [simp]: "read_list read_string (json_strings xs) = Inr xs"
  unfolding json_strings_def by (rule read_list_map) simp

lemma read_members [simp]: "(\<And>x. f (enc x) = Inr x) \<Longrightarrow> read_map f (json_members enc fs) = Inr fs"
  unfolding json_members_def by (rule read_map_map) simp

definition json_response :: "any_response \<Rightarrow> (string \<times> json) list" where
  "json_response r =
     (case r of
        ResListScopes x \<Rightarrow> [(''command'', JString ''list_scopes''), (''scopes'', json_members json_scope (ls_scopes x))]
      | ResListItems x \<Rightarrow> [(''command'', JString ''list_items''), (''items'', json_members json_item (li_items x))]
      | ResReferenceItems x \<Rightarrow> [(''command'', JString ''reference_items'')]
      | ResQueryInterval x \<Rightarrow>
          [(''command'', JString ''query_interval''), (''samples'', JArray (map json_sample (qi_samples x)))]
      | ResGetSimulationStatus x \<Rightarrow>
          (''command'', JString ''get_simulation_status'') #
          (case x of
             StatusPaused t n \<Rightarrow>
               [(''status'', JString ''paused''), (''latest_time'', JString t), (''next_sample_time'', JString n)]
           | StatusRunning t \<Rightarrow> [(''status'', JString ''running''), (''latest_time'', JString t)]
           | StatusFinished t \<Rightarrow> [(''status'', JString ''finished''), (''latest_time'', JString t)])
      | ResRunSimulation x \<Rightarrow> [(''command'', JString ''run_simulation'')]
      | ResPauseSimulation x \<Rightarrow> [(''command'', JString ''pause_simulation''), (''time'', JString (pause_time x))])"

definition json_server_packet :: "server_packet \<Rightarrow> json" where
  "json_server_packet p =
     (case p of
        SrvGreeting g \<Rightarrow>
          JObject [(''type'', JString ''greeting''), (''version'', JInt (sg_version g)),
            (''commands'', json_strings (sg_commands g)), (''events'', json_strings (sg_events g)),
            (''features'', JObject [(''item_values_encoding'', json_strings (item_values_encoding (sg_features g)))])]
      | SrvResponse r \<Rightarrow> JObject ((''type'', JString ''response'') # json_response r)
      | SrvEvent (EvSimulationPaused e) \<Rightarrow>
          JObject [(''type'', JString ''event''), (''event'', JString ''simulation_paused''),
            (''time'', JString (paused_time e)),
            (''cause'', JString (case paused_cause e of UntilTime \<Rightarrow> ''until_time'' | UntilDiagnostics \<Rightarrow> ''until_diagnostics''))]
      | SrvEvent (EvSimulationFinished e) \<Rightarrow>
          JObject [(''type'', JString ''event''), (''event'', JString ''simulation_finished''), (''time'', JString (finished_time e))]
      | SrvError e \<Rightarrow>
          JObject [(''type'', JString ''error''), (''error'', JString (error_code e)), (''message'', JString (error_message e))])"

definition read_response :: "json \<Rightarrow> js_error + any_response" where
  "read_response v =
     field ''command'' read_string v (\<lambda>cmd.
       if cmd = ''list_scopes''
       then field ''scopes'' (read_map read_scope) v (\<lambda>m. Inr (ResListScopes (ResponseListScopes m)))
       else if cmd = ''list_items''
       then field ''items'' (read_map read_item) v (\<lambda>m. Inr (ResListItems (ResponseListItems m)))
       else if cmd = ''reference_items'' then Inr (ResReferenceItems ResponseReferenceItems)
       else if cmd = ''query_interval''
       then field ''samples'' (read_list read_sample) v (\<lambda>xs. Inr (ResQueryInterval (ResponseQueryInterval xs)))
       else if cmd = ''get_simulation_status''
       then field ''status'' read_string v (\<lambda>st. field ''latest_time'' read_string v (\<lambda>t.
              if st = ''paused''
              then field ''next_sample_time'' read_string v (\<lambda>n. Inr (ResGetSimulationStatus (StatusPaused t n)))
              else if st = ''running'' then Inr (ResGetSimulationStatus (StatusRunning t))
              else if st = ''finished'' then Inr (ResGetSimulationStatus (StatusFinished t))
              else misfit))
       else if cmd = ''run_simulation'' then Inr (ResRunSimulation ResponseRunSimulation)
       else if cmd = ''pause_simulation''
       then field ''time'' read_string v (\<lambda>t. Inr (ResPauseSimulation (ResponsePauseSimulation t)))
       else misfit)"

definition read_event :: "json \<Rightarrow> js_error + any_event" where
  "read_event v =
     field ''event'' read_string v (\<lambda>ev. field ''time'' read_string v (\<lambda>t.
       if ev = ''simulation_paused''
       then field ''cause'' read_string v (\<lambda>c.
              if c = ''until_time'' then Inr (EvSimulationPaused (EventSimulationPaused t UntilTime))
              else if c = ''until_diagnostics'' then Inr (EvSimulationPaused (EventSimulationPaused t UntilDiagnostics))
              else misfit)
       else if ev = ''simulation_finished'' then Inr (EvSimulationFinished (EventSimulationFinished t))
       else misfit))"

definition read_server_packet :: "json \<Rightarrow> js_error + server_packet" where
  "read_server_packet v =
     field ''type'' read_string v (\<lambda>ty.
       if ty = ''greeting''
       then field ''version'' read_int v (\<lambda>ver. field ''commands'' (read_list read_string) v (\<lambda>cs.
              field ''events'' (read_list read_string) v (\<lambda>es. field ''features'' Inr v (\<lambda>fe.
              field ''item_values_encoding'' (read_list read_string) fe (\<lambda>enc.
                Inr (SrvGreeting (ServerGreeting ver cs es (Features enc))))))))
       else if ty = ''response'' then map_sum id SrvResponse (read_response v)
       else if ty = ''event'' then map_sum id SrvEvent (read_event v)
       else if ty = ''error''
       then field ''error'' read_string v (\<lambda>e. field ''message'' read_string v (\<lambda>m. Inr (SrvError (ErrorPacket e m))))
       else misfit)"

definition read_packet :: "string \<Rightarrow> server_packet option" where
  "read_packet packetText =
     (case json_parse packetText of
        None \<Rightarrow> None
      | Some v \<Rightarrow> (case read_server_packet v of Inl _ \<Rightarrow> None | Inr p \<Rightarrow> Some p))"

text \<open>The dictionaries of a packet have distinct keys that are not array indices.\<close>

definition plain_scope :: "scope_description \<Rightarrow> bool" where
  "plain_scope sd \<longleftrightarrow> plain_attributes (def_attributes (definition_of sd)) \<and> plain_attributes (inst_attributes (instantiation_of sd))"

definition plain_packet :: "server_packet \<Rightarrow> bool" where
  "plain_packet p =
     (case p of
        SrvResponse (ResListScopes x) \<Rightarrow>
          plain_keys (map fst (ls_scopes x)) \<and> list_all (\<lambda>(k, sd). plain_scope sd) (ls_scopes x)
      | SrvResponse (ResListItems x) \<Rightarrow>
          plain_keys (map fst (li_items x)) \<and> list_all (\<lambda>(k, it). plain_attributes (item_attributes it)) (li_items x)
      | _ \<Rightarrow> True)"

lemma read_response_json: "read_response (JObject ((''type'', JString ''response'') # json_response r)) = Inr r"
proof (cases r)
  case (ResGetSimulationStatus x)
  then show ?thesis by (cases x) (simp_all add: read_response_def json_response_def)
next
  case (ResReferenceItems x)
  then show ?thesis by (cases x) (simp add: read_response_def json_response_def)
next
  case (ResRunSimulation x)
  then show ?thesis by (cases x) (simp add: read_response_def json_response_def)
qed (simp_all add: read_response_def json_response_def)

lemma read_server_packet_json: "read_server_packet (json_server_packet p) = Inr p"
proof (cases p)
  case (SrvGreeting g)
  then show ?thesis
    by (cases g; cases "sg_features g") (auto simp: read_server_packet_def json_server_packet_def)
next
  case (SrvResponse r)
  then show ?thesis by (simp add: read_server_packet_def json_server_packet_def read_response_json)
next
  case (SrvEvent ev)
  show ?thesis
  proof (cases ev)
    case (EvSimulationPaused e)
    then show ?thesis using SrvEvent
      by (cases e; cases "paused_cause e") (auto simp: read_server_packet_def json_server_packet_def read_event_def)
  next
    case (EvSimulationFinished e)
    then show ?thesis using SrvEvent
      by (cases e) (simp add: read_server_packet_def json_server_packet_def read_event_def)
  qed
next
  case (SrvError e)
  then show ?thesis by (cases e) (simp add: read_server_packet_def json_server_packet_def)
qed

section \<open>The text of a packet\<close>

lemma canonical_object: "plain_keys (map fst fs) \<Longrightarrow> canonical (JObject fs) \<longleftrightarrow> list_all (\<lambda>(k, v). canonical v) fs"
  by (simp add: object_of_plain)

lemma canonical_opt [simp]: "canonical (json_opt x)"
  by (simp add: json_opt_def split: option.split)

lemma map_fst_pairs [simp]: "map fst (map (\<lambda>(k, x). (k, f x)) fs) = map fst fs"
  by (induction fs) auto

lemma canonical_members:
  "plain_keys (map fst fs) \<Longrightarrow> list_all (\<lambda>(k, x). canonical (enc x)) fs \<Longrightarrow> canonical (json_members enc fs)"
proof -
  assume keys: "plain_keys (map fst fs)" and mem: "list_all (\<lambda>(k, x). canonical (enc x)) fs"
  have "canonical (JObject (map (\<lambda>(k, x). (k, enc x)) fs)) =
      list_all (\<lambda>(k, v). canonical v) (map (\<lambda>(k, x). (k, enc x)) fs)"
    by (rule canonical_object) (simp only: map_fst_pairs keys)
  with mem show ?thesis by (auto simp: json_members_def list_all_iff)
qed

lemma canonical_attributes: "plain_attributes a \<Longrightarrow> canonical (json_attributes a)"
proof (induction a rule: json_attributes.induct)
  case (1 fs)
  then have "list_all (\<lambda>(k, a). canonical (json_attributes a)) fs" by (auto simp: list_all_iff)
  then show ?case using 1(2) canonical_members [of fs json_attributes] by (simp add: json_members_def)
qed

lemma canonical_scope: "plain_scope sd \<Longrightarrow> canonical (json_scope sd)"
  unfolding json_scope_def plain_scope_def
  by (simp add: canonical_object plain_keys_def canonical_attributes del: canonical.simps(3))

lemma canonical_item: "plain_attributes (item_attributes it) \<Longrightarrow> canonical (json_item it)"
  by (cases it) (simp_all add: json_item_def canonical_object plain_keys_def canonical_attributes del: canonical.simps(3))

lemma canonical_diagnostic: "canonical (json_diagnostic d)"
proof -
  have "canonical (json_diagnostic_type t)" for t by (cases t) simp_all
  then show ?thesis by (simp add: json_diagnostic_def canonical_object plain_keys_def del: canonical.simps(3))
qed

lemma canonical_sample: "canonical (json_sample p)"
  unfolding json_sample_def
  by (cases "ps_item_values p"; cases "ps_diagnostics p")
    (simp_all add: canonical_object plain_keys_def canonical_diagnostic list_all_iff del: canonical.simps(3))

lemma canonical_response:
  assumes "plain_packet (SrvResponse r)"
  shows "canonical (JObject ((''type'', JString ''response'') # json_response r))"
proof -
  have "canonical (json_members json_scope (ls_scopes x))" if "r = ResListScopes x" for x
    using assms that by (intro canonical_members) (auto simp: plain_packet_def list_all_iff canonical_scope)
  moreover have "canonical (json_members json_item (li_items x))" if "r = ResListItems x" for x
    using assms that by (intro canonical_members) (auto simp: plain_packet_def list_all_iff canonical_item)
  ultimately show ?thesis
    by (cases r; simp add: json_response_def canonical_object plain_keys_def canonical_sample list_all_iff
        del: canonical.simps(3) split: response_get_simulation_status.split)
qed

lemma canonical_packet: "plain_packet p \<Longrightarrow> canonical (json_server_packet p)"
proof (cases p)
  case (SrvResponse r)
  moreover assume "plain_packet p"
  ultimately show ?thesis using canonical_response [of r] by (simp add: json_server_packet_def)
next
  case (SrvEvent ev)
  then show ?thesis
    by (cases ev) (simp_all add: json_server_packet_def canonical_object plain_keys_def del: canonical.simps(3))
qed (simp_all add: json_server_packet_def json_strings_def canonical_object plain_keys_def list_all_iff del: canonical.simps(3))

section \<open>A server's stream\<close>

text \<open>The chunks of a stream, each handled to its end before the next.\<close>

fun receive_all ::
  "(string \<Rightarrow> 'p option) \<Rightarrow> ('p \<Rightarrow> 'h \<Rightarrow> bool \<times> 'h) \<Rightarrow> string list \<Rightarrow> string list \<Rightarrow> 'h \<Rightarrow>
     string list \<times> 'h \<times> 'p list" where
  "receive_all parse onRecv [] b h = (b, h, [])"
| "receive_all parse onRecv (c # cs) b h =
     (let (b', r) = onStreamData parse onRecv c b h;
          (b'', h'', ps) = receive_all parse onRecv cs b' (proc_handler r)
      in (b'', h'', map fst (proc_calls r) @ ps))"

definition written_by_server :: "server_packet list \<Rightarrow> string" where
  "written_by_server ps = concat (map (\<lambda>p. frame (json_server_packet p)) ps)"

lemma process_all:
  assumes "\<And>p h. fst (onRecv p h)" and "map parse ts = map Some ps"
  shows "proc_handler (process_packets parse onRecv ts paused h calls) = fold (\<lambda>p h. snd (onRecv p h)) ps h
    \<and> map fst (proc_calls (process_packets parse onRecv ts paused h calls)) = map fst calls @ ps"
  using assms(2)
proof (induction ts arbitrary: ps paused h calls)
  case (Cons t ts)
  then obtain p ps' where ps: "ps = p # ps'" "parse t = Some p" "map parse ts = map Some ps'"
    by (cases ps) auto
  obtain h' where "onRecv p h = (True, h')" using assms(1) [of p h] by (cases "onRecv p h") auto
  then show ?case using Cons.IH [OF ps(3), of False h' "calls @ [(p, paused)]"] ps by simp
qed simp

lemma receive_all_absorbed:
  assumes "\<And>p h. fst (onRecv p h)"
    and "map parse (snd (absorb_all split_chunk cs b)) = map Some ps"
  shows "receive_all parse onRecv cs b h =
    (fst (absorb_all split_chunk cs b), fold (\<lambda>p h. snd (onRecv p h)) ps h, ps)"
  using assms(2)
proof (induction cs arbitrary: b h ps)
  case (Cons c cs)
  obtain b' ts where c: "split_chunk c b = (b', ts)" by fastforce
  obtain b'' us where cs: "absorb_all split_chunk cs b' = (b'', us)" by fastforce
  from Cons.prems have all: "map parse ts @ map parse us = map Some ps" by (simp add: c cs)
  then obtain ps1 ps2 where ps: "ps = ps1 @ ps2" "map parse ts = map Some ps1" "map parse us = map Some ps2"
    by (metis append_eq_map_conv)
  let ?r = "process_packets parse onRecv ts True h []"
  have "receive_all parse onRecv cs b' (proc_handler ?r) =
      (b'', fold (\<lambda>p h. snd (onRecv p h)) ps2 (proc_handler ?r), ps2)"
    using Cons.IH [of b' ps2 "proc_handler ?r"] ps(3) by (simp add: cs)
  then show ?case
    using process_all [of onRecv parse ts ps1 True h "[]", OF assms(1) ps(2)]
    by (simp add: onStreamData_def c cs ps(1))
qed simp

section \<open>Properties\<close>

text \<open>A packet of the declared shape survives the wire: the link reads from its JSON text exactly the packet
  the server has written, whatever strings it contains, and the same text split off a stream
  contains no separator.\<close>

theorem packet_roundtrip:
  assumes "plain_packet p"
  shows "read_packet (stringify (json_server_packet p)) = Some p \<and> NUL \<notin> set (stringify (json_server_packet p))"
proof -
  have "canonical v \<Longrightarrow> integral v" for v
    by (induction v rule: integral.induct) (auto simp: list_all_iff)
  from this [OF canonical_packet [OF assms]] have "integral (json_server_packet p)" .
  from printable_stringify [OF this] have "CHR 0x00 \<notin> set (stringify (json_server_packet p))"
    by (auto simp: list_all_iff printable_def)
  then show ?thesis
    using json_roundtrip [OF canonical_packet [OF assms]] read_server_packet_json
    by (simp add: read_packet_def NUL_def)
qed

theorem packet_roundtrip_witness:
  "read_packet (stringify (json_server_packet (SrvError (ErrorPacket ''a b'' [CHR 0x22, CHR 0x0A, CHR 0x00])))) =
     Some (SrvError (ErrorPacket ''a b'' [CHR 0x22, CHR 0x0A, CHR 0x00]))"
  using packet_roundtrip [of "SrvError (ErrorPacket ''a b'' [CHR 0x22, CHR 0x0A, CHR 0x00])"]
  by (simp add: plain_packet_def)

text \<open>C19: whatever packets of the declared shape a server writes, and however the socket cuts the text into
  chunks, the link hands exactly those packets, in order, to a handler that returns; nothing stays in
  its buffer.\<close>

theorem server_packets_received:
  assumes "list_all plain_packet ps" and "concat cs = written_by_server ps" and "\<forall>p h. fst (onRecv p h)"
  shows "\<exists>b. receive_all read_packet onRecv cs [] h = (b, fold (\<lambda>p h. snd (onRecv p h)) ps h, ps) \<and> concat b = []"
proof -
  let ?ts = "map (\<lambda>p. stringify (json_server_packet p)) ps"
  have ok: "read_packet (stringify (json_server_packet p)) = Some p" "NUL \<notin> set (stringify (json_server_packet p))"
    if "p \<in> set ps" for p using packet_roundtrip [of p] that assms(1) by (auto simp: list_all_iff)
  have "concat cs = concat (map (\<lambda>t. t @ [NUL]) ?ts)"
    using assms(2) by (simp add: written_by_server_def frame_def comp_def)
  then have cut: "snd (absorb_all split_chunk cs []) = ?ts" "concat (fst (absorb_all split_chunk cs [])) = []"
    using stream.frames_roundtrip [of "[]" ?ts cs] ok(2) by auto
  then have "map read_packet (snd (absorb_all split_chunk cs [])) = map Some ps" using ok(1) by simp
  from receive_all_absorbed [of onRecv, OF _ this] assms(3) cut(2) show ?thesis by blast
qed

theorem server_packets_received_witness:
  "\<exists>b. receive_all read_packet (\<lambda>p n. (True, Suc n))
     [take 9 (written_by_server [SrvError (ErrorPacket ''e'' ''m''), SrvResponse (ResPauseSimulation (ResponsePauseSimulation ''1.0''))]),
      drop 9 (written_by_server [SrvError (ErrorPacket ''e'' ''m''), SrvResponse (ResPauseSimulation (ResponsePauseSimulation ''1.0''))])]
     [] (0::nat) =
     (b, 2, [SrvError (ErrorPacket ''e'' ''m''), SrvResponse (ResPauseSimulation (ResponsePauseSimulation ''1.0''))]) \<and> concat b = []"
  using server_packets_received
    [of "[SrvError (ErrorPacket ''e'' ''m''), SrvResponse (ResPauseSimulation (ResponsePauseSimulation ''1.0''))]"
      "[take 9 (written_by_server [SrvError (ErrorPacket ''e'' ''m''), SrvResponse (ResPauseSimulation (ResponsePauseSimulation ''1.0''))]),
        drop 9 (written_by_server [SrvError (ErrorPacket ''e'' ''m''), SrvResponse (ResPauseSimulation (ResponsePauseSimulation ''1.0''))])]"
      "\<lambda>p n. (True, Suc n)" "0::nat"]
  by (simp add: plain_packet_def numeral_2_eq_2 del: receive_all.simps concat_eq_Nil_conv)

end
