(* ===== verification/Served.thy ===== *)
theory Served
  imports Wire Packets Session_Walk
begin

text \<open>
  A session on the wire to a server that behaves: after its greeting it answers the commands it has
  been sent one by one, each reply in a chunk of its own, and reports no events.  The server is a
  function \<open>reply\<close> from the commands sent so far to the packet that answers the last of them; it
  counts the replies it has given, knows nothing of the client's queue, and its next reply is to the
  next of the commands it has received.  What arrives are the JSON texts of its packets, read by
  \<open>JSON.parse\<close>.

  Every history of the whole is a history of the session's tasks as a pool, in which each command gets
  the reply of the server to it (\<open>served_step_simulates\<close>), so what holds of the pool in every
  interleaving holds over the wire.
\<close>

section \<open>The server\<close>

type_synonym server = "any_command list \<Rightarrow> server_packet"

definition is_reply :: "server_packet \<Rightarrow> bool" where
  "is_reply p = (case p of SrvResponse r \<Rightarrow> True | SrvError e \<Rightarrow> True | _ \<Rightarrow> False)"

definition packet_result :: "server_packet \<Rightarrow> result" where
  "packet_result p =
     (case p of SrvResponse r \<Rightarrow> Inr r | SrvError e \<Rightarrow> Inl (CommandError (error_code e)) | _ \<Rightarrow> missing)"

definition well_formed_server :: "server \<Rightarrow> bool" where
  "well_formed_server reply \<longleftrightarrow> (\<forall>cs. is_reply (reply cs) \<and> plain_packet (reply cs))"

definition packet_text :: "server_packet \<Rightarrow> string" where
  "packet_text p = frame (json_server_packet p)"

text \<open>The commands among the packets that have reached the server.\<close>

definition received :: "connection \<Rightarrow> any_command list" where
  "received c = concat (map (\<lambda>p. case p of PktCommand cmd \<Rightarrow> [cmd] | _ \<Rightarrow> []) (outbox c))"

text \<open>
  The steps of the wire, the data being the server's.  The first component is the number of replies the
  server has given.  A reply takes longer than the turn after which its command joins the client's
  queue.
\<close>

type_synonym served_pool = "nat \<times> wire_pool"

inductive served_step :: "(session \<Rightarrow> (session, unit) async \<Rightarrow> bool) \<Rightarrow> server_greeting \<Rightarrow> server \<Rightarrow> served_pool \<Rightarrow> served_pool \<Rightarrow> bool" for api g reply where
  served_greeting: "flowing w \<Longrightarrow> conn_state (wire_conn w) = Initializing \<Longrightarrow>
    q = wire_onStreamData read_packet (packet_text (SrvGreeting g)) w \<Longrightarrow>
    served_step api g reply (k, w, ts) (k, fst q, ts @ [numbered q])"
| served_reply: "flowing w \<Longrightarrow> conn_state (wire_conn w) = Connected \<Longrightarrow> k < length (received (wire_conn w)) \<Longrightarrow>
    k \<notin> set (registering (wire_conn w)) \<Longrightarrow>
    q = wire_onStreamData read_packet (packet_text (reply (take (Suc k) (received (wire_conn w))))) w \<Longrightarrow>
    served_step api g reply (k, w, ts) (Suc k, fst q, ts @ [numbered q])"
| served_call: "api (wire_session w) m \<Longrightarrow> q = in_session m w \<Longrightarrow>
    served_step api g reply (k, w, ts) (k, fst q, ts @ [numbered q])"
| served_register: "served_step api g reply (k, w, ts) (k, w\<lparr>wire_conn := perform_register (wire_conn w)\<rparr>, ts)"
| served_turn: "i < length ts \<Longrightarrow> ts ! i = (n, Turn f) \<Longrightarrow> q = f w \<Longrightarrow>
    served_step api g reply (k, w, ts) (k, fst q, ts[i := numbered q])"
| served_settled: "i < length ts \<Longrightarrow> ts ! i = (n, Await c h) \<Longrightarrow> (n, r) \<in> set (settled (wire_conn w)) \<Longrightarrow> q = h r w \<Longrightarrow>
    served_step api g reply (k, w, ts) (k, fst q, ts[i := numbered q])"

abbreviation served_run :: "server_greeting \<Rightarrow> server \<Rightarrow> served_pool \<Rightarrow> served_pool \<Rightarrow> bool" where
  "served_run g reply \<equiv> rtranclp (served_step session_api g reply)"

text \<open>The same without calls from outside: what is under way is worked off.\<close>

abbreviation served_work :: "server_greeting \<Rightarrow> server \<Rightarrow> served_pool \<Rightarrow> served_pool \<Rightarrow> bool" where
  "served_work g reply \<equiv> rtranclp (served_step (\<lambda>_ _. False) g reply)"

lemma work_step: "served_step (\<lambda>_ _. False) g reply p q \<Longrightarrow> served_step api g reply p q"
  by (induction rule: served_step.induct) (auto intro: served_step.intros)

lemma work_run: "served_work g reply p q \<Longrightarrow> rtranclp (served_step api g reply) p q"
  by (induction rule: rtranclp_induct) (auto intro: work_step rtranclp.rtrancl_into_rtrancl)

lemma served_wire: "served_step session_api g reply p q \<Longrightarrow> wire_step read_packet (snd p) (snd q)"
  by (induction rule: served_step.induct) (auto intro: wire_step.intros)

lemma served_run_wire: "served_run g reply p q \<Longrightarrow> rtranclp (wire_step read_packet) (snd p) (snd q)"
  by (induction rule: rtranclp_induct) (auto intro: served_wire rtranclp.rtrancl_into_rtrancl)

lemma served_reachable: "served_run g reply (0, new_wire) (k, q) \<Longrightarrow> wire_reachable read_packet q"
  unfolding wire_reachable_def using served_run_wire by fastforce

section \<open>What a packet does\<close>

lemma one_packet:
  assumes "concat (recvBuffer w) = []" "plain_packet p"
  shows "wire_onStreamData read_packet (packet_text p) w =
      await (attempt (wire_onRecv p)) (\<lambda>r. case r of
          Inl e \<Rightarrow> return ()
        | Inr _ \<Rightarrow> (\<lambda>w. return () (set_flowing True w))) (w\<lparr>recvBuffer := [''''], resumed := False\<rparr>)"
proof -
  have parsed: "read_packet (stringify (json_server_packet p)) = Some p" "NUL \<notin> set (stringify (json_server_packet p))"
    using packet_roundtrip [OF assms(2)] by simp_all
  have "split_on NUL (packet_text p) = [stringify (json_server_packet p), '''']"
    using parsed(2) by (simp add: packet_text_def frame_def split_on_append_sep split_on_no_sep)
  then have "split_chunk (packet_text p) (recvBuffer w) = ([''''], [stringify (json_server_packet p)])"
    using assms(1) by (simp add: split_chunk_def)
  then show ?thesis by (simp add: wire_onStreamData_def parsed(1))
qed

text \<open>The connection after a reply, and after the greeting.\<close>

definition answer :: "result \<Rightarrow> connection \<Rightarrow> connection" where
  "answer r c =
     c\<lparr>timestamps := timestamps c - 1, recvIndex := Suc (recvIndex c), promises := tl (promises c),
       settled := settled c @ [(hd (promises c), r)]\<rparr>"

definition greet :: "server_greeting \<Rightarrow> connection \<Rightarrow> connection" where
  "greet g c =
     c\<lparr>conn_commands := sg_commands g, conn_events := sg_events g,
       conn_itemValuesEncodings := item_values_encoding (sg_features g), conn_state := Connected,
       notified := notified c @ [NotifyConnected]\<rparr>"

abbreviation resume :: "(wire, unit) async" where
  "resume \<equiv> \<lambda>w. return () (set_flowing True w)"

lemma reply_packet:
  assumes "concat (recvBuffer w) = []" "plain_packet p" "is_reply p"
    and "conn_state (wire_conn w) = Connected" "promises (wire_conn w) \<noteq> []" "0 < timestamps (wire_conn w)"
  shows "wire_onStreamData read_packet (packet_text p) w =
    (w\<lparr>recvBuffer := [''''], resumed := False, wire_conn := answer (packet_result p) (wire_conn w)\<rparr>, Turn resume)"
  unfolding one_packet [OF assms(1,2)] using assms(3-)
  by (cases p; cases "promises (wire_conn w)")
    (simp_all add: is_reply_def packet_result_def wire_onRecv_def onLinkRecv_def traceRecv_def receive_def settle_next_def
      answer_def await_def attempt_def return_def)

lemma greeting_packet:
  assumes "concat (recvBuffer w) = []" "conn_state (wire_conn w) = Initializing" "sg_version g = 0"
  shows "wire_onStreamData read_packet (packet_text (SrvGreeting g)) w =
    (w\<lparr>recvBuffer := [''''], resumed := False, wire_conn := greet g (wire_conn w)\<rparr>, Turn (\<lambda>w. (w, Turn resume)))"
  by (subst one_packet [OF assms(1)])
    (simp_all add: plain_packet_def assms(2,3) wire_onRecv_def onLinkRecv_def traceRecv_def receive_def greet_def
      await_def attempt_def return_def)

section \<open>The invariant of a served wire\<close>

definition served_conn :: "server \<Rightarrow> any_command list \<Rightarrow> connection \<Rightarrow> bool" where
  "served_conn reply cs c \<longleftrightarrow>
     conn_state c \<noteq> Disconnected \<and> timestamps c = length (promises c) + length (registering c) \<and>
     accounted c = [0..<length cs] \<and> next_command c = length cs \<and> received c = cs \<and>
     list_all (\<lambda>(i, r). r = packet_result (reply (take (Suc i) cs))) (settled c)"

definition served_inv :: "server \<Rightarrow> wire \<Rightarrow> bool" where
  "served_inv reply w \<longleftrightarrow> concat (recvBuffer w) = [] \<and> served_conn reply (wire_sent w) (wire_conn w)"

lemma served_registered: "served_conn reply cs c \<Longrightarrow> served_conn reply cs (perform_register c)"
  by (auto simp: served_conn_def perform_register_def accounted_def received_def split: list.split)

lemma served_greet: "served_conn reply cs c \<Longrightarrow> served_conn reply cs (greet g c)"
  by (simp add: served_conn_def greet_def accounted_def received_def)

lemma served_answer:
  assumes "served_conn reply cs c" "promises c = i # rest"
  shows "served_conn reply cs (answer (packet_result (reply (take (Suc i) cs))) c)"
  using assms by (simp add: served_conn_def answer_def accounted_def received_def)

lemma settled_below:
  assumes "served_conn reply cs c" "(i, r) \<in> set (settled c)"
  shows "i < length cs"
proof -
  have "i \<in> set (accounted c)" using assms(2) by (force simp: accounted_def)
  then show ?thesis using assms(1) by (simp add: served_conn_def)
qed

text \<open>The next reply is to the command at the head of the client's queue.\<close>

abbreviation given :: "wire \<Rightarrow> nat" where
  "given w \<equiv> length (settled (wire_conn w))"

lemma next_is_head:
  assumes "served_conn reply cs c" "length (settled c) < length cs" "length (settled c) \<notin> set (registering c)"
  shows "\<exists>rest. promises c = length (settled c) # rest"
proof -
  have all: "map fst (settled c) @ promises c @ registering c = [0..<length cs]"
    using assms(1) by (simp add: served_conn_def accounted_def)
  have "promises c @ registering c = [length (settled c)..<length cs]"
    using arg_cong [OF all, of "drop (length (settled c))"] by simp
  then have "promises c @ registering c = length (settled c) # [Suc (length (settled c))..<length cs]"
    using assms(2) by (simp add: upt_conv_Cons)
  then show ?thesis using assms(3) by (cases "promises c") auto
qed

lemma given_answer [simp]: "length (settled (answer r c)) = Suc (length (settled c))"
  by (simp add: answer_def)

lemma settled_greet [simp]: "settled (greet g c) = settled c"
  by (simp add: greet_def)

lemma settled_register [simp]: "settled (perform_register c) = settled c"
  by (simp add: perform_register_def split: list.split)

lemma served_perform: "served_conn reply cs c \<Longrightarrow> served_conn reply (cs @ [cmd]) (perform_start cmd c)"
proof -
  assume c: "served_conn reply cs c"
  have "list_all (\<lambda>(i, r). r = packet_result (reply (take (Suc i) (cs @ [cmd])))) (settled c)"
    unfolding list_all_iff
  proof (clarsimp)
    fix i r
    assume m: "(i, r) \<in> set (settled c)"
    then have "r = packet_result (reply (take (Suc i) cs))" using c by (auto simp: served_conn_def list_all_iff)
    with settled_below [OF c m] show "r = packet_result (reply (take (Suc i) cs @ take (Suc i - length cs) [cmd]))" by simp
  qed
  with c show ?thesis
    by (simp add: served_conn_def perform_start_def conn_send_def traceSend_def Let_def accounted_def received_def
        append_assoc [symmetric] del: append_assoc)
qed

lemma served_performs: "served_conn reply cs c \<Longrightarrow> served_conn reply (cs @ ds) (fold perform_start ds c)"
proof (induction ds arbitrary: cs c)
  case (Cons d ds)
  from Cons.IH [OF served_perform [OF Cons.prems, of d]] show ?case by simp
qed simp

lemma served_commit:
  assumes "served_inv reply w" "posting sent (wire_session w) q"
  shows "served_inv reply (commit (fst q) w)"
proof -
  obtain ds where ds: "sent (fst q) = wire_sent w @ ds" using assms(2) by (auto simp: posting_def)
  then show ?thesis using assms(1) served_performs [of reply "wire_sent w" "wire_conn w" ds]
    by (simp add: served_inv_def commit_def)
qed

lemma performs_fields:
  "promises (fold perform_start cs c) = promises c \<and>
   (conn_state c \<noteq> Disconnected \<longrightarrow> settled (fold perform_start cs c) = settled c) \<and>
   conn_state (fold perform_start cs c) = conn_state c"
proof (induction cs arbitrary: c)
  case (Cons cmd cs)
  show ?case using Cons [of "perform_start cmd c"]
    by (auto simp: perform_start_def conn_send_def traceSend_def Let_def)
qed simp

section \<open>Tasks of the session and housekeeping\<close>

text \<open>The handlers of the chunks only resume the stream.\<close>

inductive housekeeping :: "(wire, unit) outcome \<Rightarrow> bool" where
  housekeeping_Done: "housekeeping (Done r)"
| housekeeping_Turn: "(\<And>w. (fst (k w) = w \<or> fst (k w) = set_flowing True w) \<and> housekeeping (snd (k w))) \<Longrightarrow>
    housekeeping (Turn k)"

inductive_simps housekeeping_simps [simp]: "housekeeping (Done r)" "housekeeping (Turn k)" "housekeeping (Await c h)"

lemma housekeeping_resume: "housekeeping (Turn resume)"
  by (simp add: return_def)

text \<open>\<open>session_tasks ts os\<close>: the tasks on the wire are those of the pool, in order, among housekeeping.\<close>

inductive session_tasks :: "(nat \<times> (wire, unit) outcome) list \<Rightarrow> (session, unit) outcome list \<Rightarrow> bool" where
  tasks_none: "session_tasks [] []"
| tasks_session: "session_tasks ts os \<Longrightarrow> session_tasks ((n, lift_outcome o') # ts) (o' # os)"
| tasks_housekeeping: "session_tasks ts os \<Longrightarrow> housekeeping h \<Longrightarrow> session_tasks ((n, h) # ts) os"

lemma session_tasks_add:
  "session_tasks ts os \<Longrightarrow> session_tasks (ts @ [(n, lift_outcome o')]) (os @ [o'])"
  by (induction rule: session_tasks.induct) (auto intro: session_tasks.intros)

lemma session_tasks_skip: "session_tasks ts os \<Longrightarrow> housekeeping h \<Longrightarrow> session_tasks (ts @ [(n, h)]) os"
  by (induction rule: session_tasks.induct) (auto intro: session_tasks.intros)

lemma session_tasks_nth:
  assumes "session_tasks ts os" "i < length ts" "ts ! i = (n, t)"
  shows "housekeeping t \<and> (\<forall>m h. housekeeping h \<longrightarrow> session_tasks (ts[i := (m, h)]) os) \<or>
    (\<exists>j o'. j < length os \<and> os ! j = o' \<and> t = lift_outcome o' \<and>
       (\<forall>m o2. session_tasks (ts[i := (m, lift_outcome o2)]) (os[j := o2])))"
  using assms
proof (induction arbitrary: i rule: session_tasks.induct)
  case (tasks_session ts os n' o')
  show ?case
  proof (cases i)
    case 0
    then show ?thesis using tasks_session by (intro disjI2 exI [of _ 0]) (auto intro: session_tasks.intros)
  next
    case (Suc l)
    then have "l < length ts" "ts ! l = (n, t)" using tasks_session.prems by simp_all
    from tasks_session.IH [OF this] show ?thesis
    proof
      assume "\<exists>j o'. j < length os \<and> os ! j = o' \<and> t = lift_outcome o' \<and>
         (\<forall>m o2. session_tasks (ts[l := (m, lift_outcome o2)]) (os[j := o2]))"
      then obtain j where "j < length os" "t = lift_outcome (os ! j)"
        "\<And>m o2. session_tasks (ts[l := (m, lift_outcome o2)]) (os[j := o2])" by blast
      then show ?thesis using Suc by (intro disjI2 exI [of _ "Suc j"]) (auto intro: session_tasks.intros)
    qed (use Suc in \<open>auto intro: session_tasks.intros\<close>)
  qed
next
  case (tasks_housekeeping ts os h n')
  show ?case
  proof (cases i)
    case 0
    then show ?thesis using tasks_housekeeping by (auto intro: session_tasks.intros)
  next
    case (Suc l)
    then have "l < length ts" "ts ! l = (n, t)" using tasks_housekeeping.prems by simp_all
    from tasks_housekeeping.IH [OF this] show ?thesis
    proof
      assume "\<exists>j o'. j < length os \<and> os ! j = o' \<and> t = lift_outcome o' \<and>
         (\<forall>m o2. session_tasks (ts[l := (m, lift_outcome o2)]) (os[j := o2]))"
      then obtain j where "j < length os" "t = lift_outcome (os ! j)"
        "\<And>m o2. session_tasks (ts[l := (m, lift_outcome o2)]) (os[j := o2])" by blast
      then show ?thesis using Suc tasks_housekeeping.hyps
        by (intro disjI2 exI [of _ j]) (auto intro: session_tasks.intros)
    qed (use Suc tasks_housekeeping.hyps in \<open>auto intro: session_tasks.intros\<close>)
  qed
qed simp

section \<open>The simulation\<close>

text \<open>In the pool, a command may be answered with what the server answers to it after some commands before.\<close>

definition answered_by :: "server \<Rightarrow> any_command \<Rightarrow> result \<Rightarrow> bool" where
  "answered_by reply c r \<longleftrightarrow> (\<exists>cs. r = packet_result (reply (cs @ [c])))"

definition simulates :: "server \<Rightarrow> served_pool \<Rightarrow> session pool \<Rightarrow> bool" where
  "simulates reply kq p \<longleftrightarrow>
     (case kq of (k, q) \<Rightarrow>
       k = given (fst q) \<and> served_inv reply (fst q) \<and> wire_inv q \<and> wire_session (fst q) = fst p \<and>
       session_tasks (snd q) (snd p))"

lemma set_flowing_fields [simp]:
  "wire_conn (set_flowing b w) = wire_conn w" "wire_session (set_flowing b w) = wire_session w"
  "recvBuffer (set_flowing b w) = recvBuffer w" "resumed (set_flowing b w) = b"
  "stream_destroyed (set_flowing b w) = stream_destroyed w"
  by (simp_all add: set_flowing_def)

lemma served_inv_flow [simp]:
  "served_inv reply (set_flowing b w) = served_inv reply w"
  by (simp add: served_inv_def)

lemma lift_is_Turn: "lift_outcome o' = Turn k \<Longrightarrow> \<exists>k0. o' = Turn k0 \<and>
    k = (\<lambda>w. (commit (fst (k0 (wire_session w))) w, lift_outcome (snd (k0 (wire_session w)))))"
  by (cases o') (auto simp: lift_pair)

lemma lift_is_Await: "lift_outcome o' = Await c h \<Longrightarrow> \<exists>h0. o' = Await c h0 \<and>
    h = (\<lambda>r w. (commit (fst (h0 r (wire_session w))) w, lift_outcome (snd (h0 r (wire_session w)))))"
  by (cases o') (auto simp: lift_pair)

lemma lift_posted: "posting wire_sent w (commit (fst q) w, lift_outcome (snd q)) \<Longrightarrow> posting sent (wire_session w) q"
  by (cases q; cases "snd q") (auto simp: posting_def)

lemma packet_step:
  assumes "well_formed_server reply" "sg_version g = 0" "served_inv reply w"
  shows "conn_state (wire_conn w) = Initializing \<Longrightarrow>
      housekeeping (snd (wire_onStreamData read_packet (packet_text (SrvGreeting g)) w)) \<and>
      served_inv reply (fst (wire_onStreamData read_packet (packet_text (SrvGreeting g)) w)) \<and>
      wire_session (fst (wire_onStreamData read_packet (packet_text (SrvGreeting g)) w)) = wire_session w \<and>
      given (fst (wire_onStreamData read_packet (packet_text (SrvGreeting g)) w)) = given w"
    and "conn_state (wire_conn w) = Connected \<Longrightarrow> promises (wire_conn w) = i # rest \<Longrightarrow>
      housekeeping (snd (wire_onStreamData read_packet (packet_text (reply (take (Suc i) (wire_sent w)))) w)) \<and>
      served_inv reply (fst (wire_onStreamData read_packet (packet_text (reply (take (Suc i) (wire_sent w)))) w)) \<and>
      wire_session (fst (wire_onStreamData read_packet (packet_text (reply (take (Suc i) (wire_sent w)))) w)) = wire_session w \<and>
      given (fst (wire_onStreamData read_packet (packet_text (reply (take (Suc i) (wire_sent w)))) w)) = Suc (given w)"
proof -
  have c: "concat (recvBuffer w) = []" "served_conn reply (wire_sent w) (wire_conn w)"
    using assms(3) by (simp_all add: served_inv_def)
  show "conn_state (wire_conn w) = Initializing \<Longrightarrow>
      housekeeping (snd (wire_onStreamData read_packet (packet_text (SrvGreeting g)) w)) \<and>
      served_inv reply (fst (wire_onStreamData read_packet (packet_text (SrvGreeting g)) w)) \<and>
      wire_session (fst (wire_onStreamData read_packet (packet_text (SrvGreeting g)) w)) = wire_session w \<and>
      given (fst (wire_onStreamData read_packet (packet_text (SrvGreeting g)) w)) = given w"
    using greeting_packet [OF c(1) _ assms(2)] served_greet [OF c(2)]
    by (simp add: served_inv_def return_def)
  assume conn: "conn_state (wire_conn w) = Connected" and p: "promises (wire_conn w) = i # rest"
  have "0 < timestamps (wire_conn w)" using c(2) p by (simp add: served_conn_def)
  moreover have "plain_packet (reply (take (Suc i) (wire_sent w)))" "is_reply (reply (take (Suc i) (wire_sent w)))"
    using assms(1) by (simp_all add: well_formed_server_def)
  ultimately show "housekeeping (snd (wire_onStreamData read_packet (packet_text (reply (take (Suc i) (wire_sent w)))) w)) \<and>
      served_inv reply (fst (wire_onStreamData read_packet (packet_text (reply (take (Suc i) (wire_sent w)))) w)) \<and>
      wire_session (fst (wire_onStreamData read_packet (packet_text (reply (take (Suc i) (wire_sent w)))) w)) = wire_session w \<and>
      given (fst (wire_onStreamData read_packet (packet_text (reply (take (Suc i) (wire_sent w)))) w)) = Suc (given w)"
    using reply_packet [OF c(1) _ _ conn, of "reply (take (Suc i) (wire_sent w))"] p served_answer [OF c(2) p]
    by (simp add: served_inv_def return_def)
qed

lemma given_commit: "served_inv reply w \<Longrightarrow> given (commit s w) = given w"
  using performs_fields by (simp add: served_inv_def served_conn_def commit_def)

lemma reply_head:
  assumes "served_inv reply w" "given w < length (received (wire_conn w))" "given w \<notin> set (registering (wire_conn w))"
  shows "\<exists>rest. promises (wire_conn w) = given w # rest" "received (wire_conn w) = wire_sent w"
proof -
  have c: "served_conn reply (wire_sent w) (wire_conn w)" using assms(1) by (simp add: served_inv_def)
  then show "received (wire_conn w) = wire_sent w" by (simp add: served_conn_def)
  with next_is_head [OF c] assms(2,3) show "\<exists>rest. promises (wire_conn w) = given w # rest" by simp
qed

lemma waiting_posts:
  assumes "simulates reply (k, w, ts) (s, os)" "i < length ts" "ts ! i = (n, t)"
  shows "segments (posting wire_sent) t"
    and "case t of Await c h \<Rightarrow> n < length (wire_sent w) \<and> wire_sent w ! n = c | _ \<Rightarrow> True"
proof -
  have "task_ok (wire_sent w) (n, t)"
    using assms by (auto simp: simulates_def wire_inv_def list_all_length)
  then show "segments (posting wire_sent) t"
    "case t of Await c h \<Rightarrow> n < length (wire_sent w) \<and> wire_sent w ! n = c | _ \<Rightarrow> True"
    by (simp_all add: task_ok_def)
qed

lemma simulates_turn:
  assumes sim: "simulates reply (k, w, ts) (s, os)" and f: "i < length ts" "ts ! i = (n, Turn f)"
    and inv': "wire_inv (fst (f w), ts[i := numbered (f w)])"
  shows "\<exists>s' os'. simulates reply (k, fst (f w), ts[i := numbered (f w)]) (s', os') \<and>
    (pool_step session_api (answered_by reply) (s, os) (s', os') \<or> (s', os') = (s, os))"
proof -
  have inv: "served_inv reply w" "wire_session w = s" "session_tasks ts os" and count: "k = given w"
    using sim by (simp_all add: simulates_def)
  from session_tasks_nth [OF inv(3) f] show ?thesis
  proof
    assume h: "housekeeping (Turn f) \<and> (\<forall>m h. housekeeping h \<longrightarrow> session_tasks (ts[i := (m, h)]) os)"
    then have q: "fst (f w) = w \<or> fst (f w) = set_flowing True w" "housekeeping (snd (f w))" by simp_all
    then have "served_inv reply (fst (f w))" "wire_session (fst (f w)) = s" "k = given (fst (f w))" using inv(1,2) count by auto
    moreover have "session_tasks (ts[i := numbered (f w)]) os" using h q(2) by (simp add: numbered_def)
    ultimately show ?thesis using inv' by (intro exI [of _ s] exI [of _ os]) (simp add: simulates_def)
  next
    assume "\<exists>j o'. j < length os \<and> os ! j = o' \<and> Turn f = lift_outcome o' \<and>
      (\<forall>m o2. session_tasks (ts[i := (m, lift_outcome o2)]) (os[j := o2]))"
    then obtain j where j: "j < length os" "lift_outcome (os ! j) = Turn f"
      "\<And>m o2. session_tasks (ts[i := (m, lift_outcome o2)]) (os[j := o2])" by metis
    obtain f0 where f0: "os ! j = Turn f0"
      "f = (\<lambda>w. (commit (fst (f0 (wire_session w))) w, lift_outcome (snd (f0 (wire_session w)))))"
      using lift_is_Turn [OF j(2)] by blast
    have "posting sent (wire_session w) (f0 (wire_session w))"
      by (rule lift_posted) (use waiting_posts(1) [OF sim f] f0(2) in simp)
    from served_commit [OF inv(1) this] have "served_inv reply (fst (f w))" using f0(2) by simp
    moreover have "pool_step session_api (answered_by reply) (s, os) (fst (f0 s), os[j := snd (f0 s)])"
      by (rule pool_turn [OF j(1) f0(1)]) simp
    ultimately show ?thesis
      using f0(2) inv inv' j(3)
      by (intro exI [of _ "fst (f0 s)"] exI [of _ "os[j := snd (f0 s)]"]) (simp add: simulates_def numbered_def count given_commit [OF inv(1)])
  qed
qed

lemma simulates_settled:
  assumes sim: "simulates reply (k, w, ts) (s, os)" and h: "i < length ts" "ts ! i = (n, Await c h)"
    and r: "(n, r) \<in> set (settled (wire_conn w))" and inv': "wire_inv (fst (h r w), ts[i := numbered (h r w)])"
  shows "\<exists>s' os'. simulates reply (k, fst (h r w), ts[i := numbered (h r w)]) (s', os') \<and>
    pool_step session_api (answered_by reply) (s, os) (s', os')"
proof -
  have inv: "served_inv reply w" "wire_session w = s" "session_tasks ts os" and count: "k = given w"
    using sim by (simp_all add: simulates_def)
  from session_tasks_nth [OF inv(3) h] obtain j where j: "j < length os"
      "lift_outcome (os ! j) = Await c h" "\<And>m o2. session_tasks (ts[i := (m, lift_outcome o2)]) (os[j := o2])"
    by (metis housekeeping_simps(3))
  obtain h0 where h0: "os ! j = Await c h0"
    "h = (\<lambda>r w. (commit (fst (h0 r (wire_session w))) w, lift_outcome (snd (h0 r (wire_session w)))))"
    using lift_is_Await [OF j(2)] by blast
  have "posting sent (wire_session w) (h0 r (wire_session w))"
    by (rule lift_posted) (use waiting_posts(1) [OF sim h] h0(2) in simp)
  from served_commit [OF inv(1) this] have served: "served_inv reply (fst (h r w))" using h0(2) by simp
  have "r = packet_result (reply (take (Suc n) (wire_sent w)))"
    using inv(1) r by (auto simp: served_inv_def served_conn_def list_all_iff)
  moreover have "n < length (wire_sent w)" "wire_sent w ! n = c" using waiting_posts(2) [OF sim h] by simp_all
  ultimately have "answered_by reply c r" unfolding answered_by_def by (metis take_Suc_conv_app_nth)
  then have "pool_step session_api (answered_by reply) (s, os) (fst (h0 r s), os[j := snd (h0 r s)])"
    by (intro pool_reply [OF j(1) h0(1)]) simp_all
  then show ?thesis
    using served h0(2) inv inv' j(3)
    by (intro exI [of _ "fst (h0 r s)"] exI [of _ "os[j := snd (h0 r s)]"]) (simp add: simulates_def numbered_def count given_commit [OF inv(1)])
qed

lemma served_step_simulates:
  assumes server: "well_formed_server reply" "sg_version g = 0"
    and sim: "simulates reply (k, w, ts) (s, os)" and conn: "list_all (\<lambda>(n, t). keeps conn_follows t) ts"
    and step: "served_step session_api g reply (k, w, ts) (k', w', ts')"
  shows "\<exists>s' os'. simulates reply (k', w', ts') (s', os') \<and>
    (pool_step session_api (answered_by reply) (s, os) (s', os') \<or> (s', os') = (s, os))"
proof -
  have inv: "served_inv reply w" "wire_inv (w, ts)" "wire_session w = s" "session_tasks ts os"
    and count: "k = given w"
    using sim by (simp_all add: simulates_def)
  have inv': "wire_inv (w', ts')" by (rule wire_inv_step [OF inv(2) conn]) (use served_wire [OF step] in simp)
  show ?thesis
    using step
  proof (cases rule: served_step.cases)
    case (served_greeting q)
    then show ?thesis
      using packet_step(1) [OF server inv(1)] inv inv' session_tasks_skip [OF inv(4)] count
      by (intro exI [of _ s] exI [of _ os]) (simp add: simulates_def numbered_def)
  next
    case (served_reply q)
    then obtain rest where "promises (wire_conn w) = k # rest" "received (wire_conn w) = wire_sent w"
      using reply_head [OF inv(1)] count by blast
    then show ?thesis
      using served_reply packet_step(2) [OF server inv(1)] inv inv' session_tasks_skip [OF inv(4)] count
      by (intro exI [of _ s] exI [of _ os]) (simp add: simulates_def numbered_def)
  next
    case (served_call m q)
    then have "served_inv reply w'"
      using served_commit [OF inv(1), of "m (wire_session w)"] session_api_posts [of "wire_session w" m]
      by (simp add: in_session_pair posts_def posts_at_def)
    moreover have "pool_step session_api (answered_by reply) (s, os) (fst (m s), os @ [snd (m s)])"
      using served_call inv(3) by (intro pool_call) auto
    ultimately show ?thesis
      using served_call inv inv' session_tasks_add [OF inv(4)]
      by (intro exI [of _ "fst (m s)"] exI [of _ "os @ [snd (m s)]"]) (simp add: simulates_def in_session_pair numbered_def count given_commit [OF inv(1)])
  next
    case served_register
    then show ?thesis using inv inv' served_registered count
      by (intro exI [of _ s] exI [of _ os]) (simp add: simulates_def served_inv_def)
  next
    case (served_turn i n f q)
    then show ?thesis using simulates_turn [OF sim, of i n f] inv' by simp
  next
    case (served_settled i n c h r q)
    then show ?thesis using simulates_settled [OF sim, of i n c h r] inv' by auto
  qed
qed

lemma served_run_simulates:
  assumes "well_formed_server reply" "sg_version g = 0" "served_run g reply (k, q) (k', q')"
    and "simulates reply (k, q) (s, os)" "list_all (\<lambda>(n, t). keeps conn_follows t) (snd q)"
  shows "\<exists>s' os'. simulates reply (k', q') (s', os') \<and> pool_run session_api (answered_by reply) (s, os) (s', os')"
  using assms(3)
proof (induction rule: rtranclp_induct2)
  case refl
  then show ?case using assms(4) by blast
next
  case (step k1 q1 k2 q2)
  then obtain s1 os1 where 1: "simulates reply (k1, q1) (s1, os1)" "pool_run session_api (answered_by reply) (s, os) (s1, os1)"
    by blast
  have "rtranclp (wire_step read_packet) (fst q, snd q) (fst q1, snd q1)" using served_run_wire [OF step.hyps(1)] by simp
  then have "list_all (\<lambda>(n, t). keeps conn_follows t) (snd q1)"
    using conn_follows.wire_run_keeps assms(5) by blast
  from served_step_simulates [of reply g k1 "fst q1" "snd q1" s1 os1 k2 "fst q2" "snd q2", OF assms(1,2) _ this] 1 step.hyps(2)
  obtain s2 os2 where "simulates reply (k2, q2) (s2, os2)"
    "pool_step session_api (answered_by reply) (s1, os1) (s2, os2) \<or> (s2, os2) = (s1, os1)"
    by (metis prod.collapse)
  with 1(2) show ?case by (metis rtranclp.rtrancl_into_rtrancl)
qed

lemma new_wire_fields:
  "wire_session (fst new_wire) = fst new_Session" "snd new_wire = [(0, lift_outcome (snd new_Session))]"
  "recvBuffer (fst new_wire) = []" "flowing (fst new_wire)"
  "wire_conn (fst new_wire) = perform_start get_status_command new_Connection"
  by (simp_all add: new_wire_def Let_def in_session_pair new_Session_def [symmetric] start_wire_def numbered_def)
    (simp_all add: commit_def new_Session_eq post_def blank_session_def perform_start_def new_Connection_def conn_send_def
      traceSend_def blank_connection_def)

lemma new_wire_simulates: "simulates reply (0, new_wire) (fst new_Session, [snd new_Session])"
proof -
  have "wire_inv new_wire" using reachable_wire_inv [of read_packet "fst new_wire" "snd new_wire"]
    by (simp add: wire_reachable_def)
  moreover have "served_inv reply (fst new_wire)" "given (fst new_wire) = 0"
    unfolding served_inv_def new_wire_fields
    by (simp_all add: served_conn_def new_Session_eq post_def blank_session_def perform_start_def new_Connection_def conn_send_def
        traceSend_def blank_connection_def accounted_def received_def)
  ultimately show ?thesis
    by (simp add: simulates_def new_wire_fields(1,2)) (intro session_tasks.intros)
qed

lemma served_pool:
  assumes "well_formed_server reply" "sg_version g = 0" "served_run g reply (0, new_wire) (k, w, ts)"
  shows "\<exists>os. simulates reply (k, w, ts) (wire_session w, os) \<and> session_pool (answered_by reply) (wire_session w, os)"
proof -
  have "list_all (\<lambda>(n, t). keeps conn_follows t) (snd new_wire)"
    using conn_follows.wire_reachable_keeps [of read_packet "fst new_wire" "snd new_wire"] by (simp add: wire_reachable_def)
  from served_run_simulates [OF assms new_wire_simulates this]
  obtain s os where "simulates reply (k, w, ts) (s, os)"
    "pool_run session_api (answered_by reply) (fst new_Session, [snd new_Session]) (s, os)"
    by blast
  moreover from this(1) have "s = wire_session w" by (simp add: simulates_def)
  ultimately show ?thesis by (auto simp: session_pool_def)
qed

end
