(* ===== verification/Served_Steps.thy ===== *)
theory Served_Steps
  imports Served
begin

text \<open>
  What a served wire achieves: the work a method has started is done to its end with the result the
  method has against the server's answers alone (\<open>serve_task\<close>), from the greeting on
  (\<open>session_served\<close>) and through any sequence of step commands (\<open>steps_commanded\<close>).
\<close>

section \<open>Serving a task to its end\<close>

definition ready :: "server \<Rightarrow> wire \<Rightarrow> bool" where
  "ready reply w \<longleftrightarrow> flowing w \<and> conn_state (wire_conn w) = Connected \<and> served_inv reply w"

lemma last_served_turn:
  "served_work g reply (k, w, ts @ [numbered (v, Turn f)]) (k, fst (f w), ts @ [numbered (f w)])"
proof -
  have "served_step (\<lambda>_ _. False) g reply (k, w, ts @ [numbered (v, Turn f)]) (k, fst (f w), (ts @ [numbered (v, Turn f)])[length ts := numbered (f w)])"
    by (rule served_turn [where n = "fst (numbered (v, Turn f))" and f = f]) (simp_all add: numbered_def)
  then show ?thesis by simp
qed

text \<open>The head of the client's queue is the command the server replies to next.\<close>

lemma head_is_next:
  assumes "served_conn reply cs c" "promises c = i # rest"
  shows "i = length (settled c)" "i < length cs" "i \<notin> set (registering c)"
proof -
  have "map fst (settled c) @ i # rest @ registering c = [0..<length cs]"
    using assms by (simp add: served_conn_def accounted_def)
  from arg_cong [OF this, of "drop (length (settled c))"]
  have rest: "i # rest @ registering c = [length (settled c)..<length cs]" by simp
  then show below: "i < length cs" and "i = length (settled c)"
    by (metis upt_eq_Cons_conv)+
  then have "rest @ registering c = [Suc i..<length cs]" using rest by (simp add: upt_conv_Cons)
  then have "set (registering c) \<subseteq> {Suc i..<length cs}" by (metis Un_upper2 set_append set_upt)
  then show "i \<notin> set (registering c)" by auto
qed

text \<open>What has been settled are the first commands, each with its own reply.\<close>

lemma served_settled_exactly:
  assumes "served_conn reply cs c"
  shows "length (settled c) \<le> length cs"
    "settled c = map (\<lambda>i. (i, packet_result (reply (take (Suc i) cs)))) [0..<length (settled c)]"
proof -
  have all: "map fst (settled c) @ promises c @ registering c = [0..<length cs]"
    and replies: "list_all (\<lambda>(i, r). r = packet_result (reply (take (Suc i) cs))) (settled c)"
    using assms by (simp_all add: served_conn_def accounted_def)
  show le: "length (settled c) \<le> length cs" using arg_cong [OF all, of length] by simp
  have fsts: "map fst (settled c) = [0..<length (settled c)]"
    using arg_cong [OF all, of "take (length (settled c))"] le by simp
  have "settled c = map (\<lambda>p. (fst p, packet_result (reply (take (Suc (fst p)) cs)))) (settled c)"
    using replies by (intro map_idI [symmetric]) (auto simp: list_all_iff)
  also have "\<dots> = map (\<lambda>i. (i, packet_result (reply (take (Suc i) cs)))) (map fst (settled c))" by simp
  finally show "settled c = map (\<lambda>i. (i, packet_result (reply (take (Suc i) cs)))) [0..<length (settled c)]"
    by (simp only: fsts)
qed

lemma answer_first:
  assumes "well_formed_server reply" "ready reply w" "promises (wire_conn w) = i # rest"
  shows "\<exists>w' t. served_work g reply (given w, w, ts) (given w', w', ts @ [t]) \<and> ready reply w' \<and> wire_session w' = wire_session w \<and>
    promises (wire_conn w') = rest \<and> registering (wire_conn w') = registering (wire_conn w)"
proof -
  let ?p = "reply (take (Suc i) (wire_sent w))"
  let ?c = "answer (packet_result ?p) (wire_conn w)"
  let ?w = "w\<lparr>recvBuffer := [''''], resumed := False, wire_conn := ?c\<rparr>"
  have c: "concat (recvBuffer w) = []" "served_conn reply (wire_sent w) (wire_conn w)" "flowing w"
    "conn_state (wire_conn w) = Connected"
    using assms(2) by (simp_all add: ready_def served_inv_def)
  note i = head_is_next [OF c(2) assms(3)]
  have received: "received (wire_conn w) = wire_sent w" using c(2) by (simp add: served_conn_def)
  have "0 < timestamps (wire_conn w)" using c(2) assms(3) by (simp add: served_conn_def)
  then have q: "wire_onStreamData read_packet (packet_text ?p) w = (?w, Turn resume)"
    using assms(1,3) c(1,4) by (intro reply_packet) (simp_all add: well_formed_server_def)
  have "served_step (\<lambda>_ _. False) g reply (i, w, ts) (Suc i, fst (?w, Turn resume), ts @ [numbered (?w, Turn resume)])"
    by (rule served_reply [OF c(3,4) _ i(3)]) (simp_all add: received i(2) q)
  then have first: "served_work g reply (i, w, ts) (Suc i, ?w, ts @ [numbered (?w, Turn resume)])" by simp
  note second = last_served_turn [of g reply "Suc i" ?w ts ?w resume]
  have "served_work g reply (i, w, ts) (Suc i, set_flowing True ?w, ts @ [numbered (resume ?w)])"
    using rtranclp_trans [OF first second] by (simp only: return_def fst_conv)
  moreover have "given (set_flowing True ?w) = Suc i" by (simp add: i(1))
  ultimately have run: "served_work g reply (given w, w, ts)
      (given (set_flowing True ?w), set_flowing True ?w, ts @ [numbered (resume ?w)])"
    using i(1) by simp
  have "ready reply (set_flowing True ?w)"
    using served_answer [OF c(2) assms(3)] c(3,4) by (simp add: ready_def served_inv_def) (simp add: answer_def)
  moreover have "wire_session (set_flowing True ?w) = wire_session w" "promises (wire_conn (set_flowing True ?w)) = rest"
    "registering (wire_conn (set_flowing True ?w)) = registering (wire_conn w)"
    using assms(3) by (simp_all add: answer_def)
  ultimately show ?thesis using run by blast
qed

lemma answer_all:
  assumes "well_formed_server reply"
  shows "ready reply w \<Longrightarrow> promises (wire_conn w) = cs \<Longrightarrow>
    \<exists>w' us. served_work g reply (given w, w, ts) (given w', w', ts @ us) \<and> ready reply w' \<and> wire_session w' = wire_session w \<and>
      promises (wire_conn w') = [] \<and> registering (wire_conn w') = registering (wire_conn w)"
proof (induction cs arbitrary: w ts)
  case Nil
  then show ?case by (intro exI [of _ w] exI [of _ "[]"]) simp
next
  case (Cons i rest)
  obtain w1 t where 1: "served_work g reply (given w, w, ts) (given w1, w1, ts @ [t])" "ready reply w1" "wire_session w1 = wire_session w"
    "promises (wire_conn w1) = rest" "registering (wire_conn w1) = registering (wire_conn w)"
    using answer_first [OF assms Cons.prems] by blast
  obtain w' us where 2: "served_work g reply (given w1, w1, ts @ [t]) (given w', w', (ts @ [t]) @ us)" "ready reply w'"
    "wire_session w' = wire_session w1" "promises (wire_conn w') = []"
    "registering (wire_conn w') = registering (wire_conn w1)"
    using Cons.IH [OF 1(2,4), of "ts @ [t]"] by blast
  from rtranclp_trans [OF 1(1) 2(1)] 1 2 show ?case by (intro exI [of _ w'] exI [of _ "t # us"]) simp
qed

lemma register_all:
  "ready reply w \<Longrightarrow> registering (wire_conn w) = cs \<Longrightarrow>
    \<exists>w'. served_work g reply (given w, w, ts) (given w', w', ts) \<and> ready reply w' \<and> wire_session w' = wire_session w \<and>
      registering (wire_conn w') = []"
proof (induction cs arbitrary: w)
  case Nil
  then show ?case by (intro exI [of _ w]) simp
next
  case (Cons i rest)
  let ?w = "w\<lparr>wire_conn := perform_register (wire_conn w)\<rparr>"
  have "ready reply ?w" using Cons.prems served_registered [of reply "wire_sent w" "wire_conn w"]
    by (simp add: ready_def served_inv_def) (simp add: perform_register_def)
  moreover have "registering (wire_conn ?w) = rest" using Cons.prems by (simp add: perform_register_def)
  ultimately obtain w' where "served_work g reply (given ?w, ?w, ts) (given w', w', ts)" "ready reply w'" "wire_session w' = wire_session ?w"
    "registering (wire_conn w') = []"
    using Cons.IH [of ?w] by blast
  moreover have "served_step (\<lambda>_ _. False) g reply (given w, w, ts) (given ?w, ?w, ts)"
    using served_step.served_register [of "\<lambda>_ _. False" g reply "given w" w ts] by simp
  ultimately show ?case
    by (intro exI [of _ w']) (auto intro: converse_rtranclp_into_rtranclp [of "served_step (\<lambda>_ _. False) g reply"])
qed

text \<open>When all is answered, every command has its answer.\<close>

lemma serve_outstanding:
  assumes "well_formed_server reply" "ready reply w"
  obtains w' us where "served_work g reply (given w, w, ts) (given w', w', ts @ us)" "ready reply w'" "wire_session w' = wire_session w"
    "\<And>i. i < length (wire_sent w) \<Longrightarrow> (i, packet_result (reply (take (Suc i) (wire_sent w)))) \<in> set (settled (wire_conn w'))"
proof -
  obtain w1 where 1: "served_work g reply (given w, w, ts) (given w1, w1, ts)" "ready reply w1" "wire_session w1 = wire_session w"
    "registering (wire_conn w1) = []"
    using register_all [OF assms(2) refl, of g ts] by blast
  obtain w' us where 2: "served_work g reply (given w1, w1, ts) (given w', w', ts @ us)" "ready reply w'" "wire_session w' = wire_session w1"
    "promises (wire_conn w') = []" "registering (wire_conn w') = []"
    using answer_all [OF assms(1) 1(2) refl, of g ts] 1(4) by auto
  have c: "served_conn reply (wire_sent w') (wire_conn w')" using 2(2) by (simp add: ready_def served_inv_def)
  have sent: "wire_sent w' = wire_sent w" by (simp add: 2(3) 1(3))
  have nums: "map fst (settled (wire_conn w')) = [0..<length (wire_sent w)]"
    using c 2(4,5) by (simp add: served_conn_def accounted_def sent)
  have "(i, packet_result (reply (take (Suc i) (wire_sent w)))) \<in> set (settled (wire_conn w'))"
    if "i < length (wire_sent w)" for i
  proof -
    have "i \<in> set (map fst (settled (wire_conn w')))" using that by (simp add: nums)
    then show ?thesis using c by (auto simp: served_conn_def list_all_iff sent)
  qed
  with 1 2 show thesis by (intro that [of w' us]) (auto intro: rtranclp_trans)
qed

text \<open>A segment run on a ready wire leaves it ready, and a task that now waits has the number of the last command.\<close>

lemma ready_commit:
  assumes "ready reply w" "posting sent (wire_session w) q"
  shows "ready reply (commit (fst q) w)"
    and "case snd q of Await c h \<Rightarrow> Suc (next_command (wire_conn (commit (fst q) w)) - 1) = length (wire_sent (commit (fst q) w)) | _ \<Rightarrow> True"
proof -
  show ready: "ready reply (commit (fst q) w)" using assms(1) served_commit [OF _ assms(2), of reply] performs_fields
    by (simp add: ready_def) (simp add: commit_def)
  have "next_command (wire_conn (commit (fst q) w)) = length (wire_sent (commit (fst q) w))"
    using ready by (simp add: ready_def served_inv_def served_conn_def)
  then show "case snd q of Await c h \<Rightarrow> Suc (next_command (wire_conn (commit (fst q) w)) - 1) = length (wire_sent (commit (fst q) w)) | _ \<Rightarrow> True"
    using assms(2) by (auto simp: posting_def split: outcome.splits)
qed

text \<open>A task at work on a ready wire, run against the server's answers, ends there with the same result.\<close>

definition works_off :: "server_greeting \<Rightarrow> server \<Rightarrow> session \<Rightarrow> js_error + unit \<Rightarrow> (session, unit) outcome \<Rightarrow> bool" where
  "works_off g reply s' r o' \<longleftrightarrow>
     (\<forall>w ts i n. ready reply w \<and> i < length ts \<and> ts ! i = (n, lift_outcome o') \<and>
        (case o' of Await c h \<Rightarrow> Suc n = length (wire_sent w) | _ \<Rightarrow> True) \<and>
        finish (\<lambda>s. packet_result (reply (sent s))) o' (wire_session w) = (s', r) \<longrightarrow>
        (\<exists>w' ts' n'. served_work g reply (given w, w, ts) (given w', w', ts') \<and> ready reply w' \<and> wire_session w' = s' \<and>
          i < length ts' \<and> ts' ! i = (n', Done r)))"

lemma works_offD:
  assumes "works_off g reply s' r o'" "ready reply w" "i < length ts" "ts ! i = (n, lift_outcome o')"
    and "case o' of Await c h \<Rightarrow> Suc n = length (wire_sent w) | _ \<Rightarrow> True"
    and "finish (\<lambda>s. packet_result (reply (sent s))) o' (wire_session w) = (s', r)"
  shows "\<exists>w' ts' n'. served_work g reply (given w, w, ts) (given w', w', ts') \<and> ready reply w' \<and> wire_session w' = s' \<and>
    i < length ts' \<and> ts' ! i = (n', Done r)"
  using assms unfolding works_off_def by blast

lemma work_segment:
  assumes "ready reply w" "posting sent (wire_session w) q" "works_off g reply s' r (snd q)"
    and "finish (\<lambda>s. packet_result (reply (sent s))) (snd q) (fst q) = (s', r)" "i < length ts"
    and "served_step (\<lambda>_ _. False) g reply (given w, w, ts)
      (given w, commit (fst q) w, ts[i := numbered (commit (fst q) w, lift_outcome (snd q))])"
  shows "\<exists>w' ts' n'. served_work g reply (given w, w, ts) (given w', w', ts') \<and> ready reply w' \<and> wire_session w' = s' \<and>
    i < length ts' \<and> ts' ! i = (n', Done r)"
proof -
  let ?w = "commit (fst q) w"
  let ?ts = "ts[i := numbered (?w, lift_outcome (snd q))]"
  note commit = ready_commit [OF assms(1,2)]
  have given: "given ?w = given w" using assms(1) by (intro given_commit [of reply]) (simp add: ready_def)
  have at: "i < length ?ts" "?ts ! i = (next_command (wire_conn ?w) - 1, lift_outcome (snd q))"
    using assms(5) by (simp_all add: numbered_def)
  have "finish (\<lambda>s. packet_result (reply (sent s))) (snd q) (wire_session ?w) = (s', r)" using assms(4) by simp
  from works_offD [OF assms(3) commit(1) at commit(2) this] show ?thesis
    using converse_rtranclp_into_rtranclp [of "served_step (\<lambda>_ _. False) g reply", OF assms(6)] unfolding given by blast
qed

lemma serve_task:
  assumes "well_formed_server reply"
  shows "segments (posting sent) o' \<Longrightarrow> works_off g reply s' r o'"
proof (induction rule: segments.induct)
  case (segments_Done r0)
  then show ?case by (auto simp: works_off_def)
next
  case (segments_Turn k)
  show ?case unfolding works_off_def
  proof (intro allI impI, elim conjE)
    fix w ts i and n :: nat
    assume ready: "ready reply w" and at: "i < length ts" "ts ! i = (n, lift_outcome (Turn k))"
      and fin: "finish (\<lambda>s. packet_result (reply (sent s))) (Turn k) (wire_session w) = (s', r)"
    let ?q = "k (wire_session w)"
    have q: "posting sent (wire_session w) ?q" "works_off g reply s' r (snd ?q)"
      using segments_Turn [of "wire_session w"] by simp_all
    have fin': "finish (\<lambda>s. packet_result (reply (sent s))) (snd ?q) (fst ?q) = (s', r)"
      using fin by (simp add: split_beta)
    have "served_step (\<lambda>_ _. False) g reply (given w, w, ts) (given w, commit (fst ?q) w, ts[i := numbered (commit (fst ?q) w, lift_outcome (snd ?q))])"
      using served_turn [OF at(1), of n "\<lambda>w. (commit (fst (k (wire_session w))) w, lift_outcome (snd (k (wire_session w))))"
          "(commit (fst ?q) w, lift_outcome (snd ?q))" w "\<lambda>_ _. False" g reply "given w"] at(2) by (simp add: lift_pair)
    from work_segment [OF ready q fin' at(1) this]
    show "\<exists>w' ts' n'. served_work g reply (given w, w, ts) (given w', w', ts') \<and> ready reply w' \<and> wire_session w' = s' \<and>
      i < length ts' \<and> ts' ! i = (n', Done r)" .
  qed
next
  case (segments_Await h c)
  show ?case unfolding works_off_def
  proof (intro allI impI, elim conjE)
    fix w ts i and n :: nat
    assume ready: "ready reply w" and at: "i < length ts" "ts ! i = (n, lift_outcome (Await c h))"
      and num: "case Await c h of Await c h \<Rightarrow> Suc n = length (wire_sent w) | _ \<Rightarrow> True"
      and fin: "finish (\<lambda>s. packet_result (reply (sent s))) (Await c h) (wire_session w) = (s', r)"
    let ?r = "packet_result (reply (wire_sent w))"
    let ?q = "h ?r (wire_session w)"
    obtain w1 us where 1: "served_work g reply (given w, w, ts) (given w1, w1, ts @ us)" "ready reply w1" "wire_session w1 = wire_session w"
      "\<And>i. i < length (wire_sent w) \<Longrightarrow> (i, packet_result (reply (take (Suc i) (wire_sent w)))) \<in> set (settled (wire_conn w1))"
      using serve_outstanding [OF assms ready, of g ts] by blast
    have settled: "(n, ?r) \<in> set (settled (wire_conn w1))" using 1(4) [of n] num by simp
    have q: "posting sent (wire_session w1) ?q" "works_off g reply s' r (snd ?q)"
      using segments_Await [of "wire_session w" ?r] by (simp_all add: 1(3))
    have fin': "finish (\<lambda>s. packet_result (reply (sent s))) (snd ?q) (fst ?q) = (s', r)" using fin by (simp add: split_beta)
    have at': "i < length (ts @ us)"
        "(ts @ us) ! i = (n, Await c (\<lambda>r w. (commit (fst (h r (wire_session w))) w, lift_outcome (snd (h r (wire_session w))))))"
      using at by (simp_all add: nth_append lift_pair)
    have "served_step (\<lambda>_ _. False) g reply (given w1, w1, ts @ us)
        (given w1, commit (fst ?q) w1, (ts @ us)[i := numbered (commit (fst ?q) w1, lift_outcome (snd ?q))])"
      using served_settled [OF at', of ?r w1 "(commit (fst ?q) w1, lift_outcome (snd ?q))" "\<lambda>_ _. False" g reply "given w1"] settled 1(3) by simp
    from work_segment [OF 1(2) q fin' at'(1) this] rtranclp_trans [OF 1(1)] at(1)
    show "\<exists>w' ts' n'. served_work g reply (given w, w, ts) (given w', w', ts') \<and> ready reply w' \<and> wire_session w' = s' \<and>
      i < length ts' \<and> ts' ! i = (n', Done r)" by blast
  qed
qed

lemma serve_method:
  assumes "well_formed_server reply" "ready reply w" "posts sent m"
    and "run (\<lambda>s. packet_result (reply (sent s))) m (wire_session w) = (s', r)"
  shows "\<exists>w' ts' n'. served_work g reply (given w, fst (in_session m w), ts @ [numbered (in_session m w)]) (given w', w', ts') \<and>
      ready reply w' \<and> wire_session w' = s' \<and> length ts < length ts' \<and> ts' ! length ts = (n', Done r)"
proof -
  let ?q = "m (wire_session w)"
  let ?w = "commit (fst ?q) w"
  have q: "posting sent (wire_session w) ?q" "segments (posting sent) (snd ?q)"
    using assms(3) by (simp_all add: posts_def posts_at_def)
  have at: "length ts < length (ts @ [numbered (in_session m w)])"
    "(ts @ [numbered (in_session m w)]) ! length ts = (next_command (wire_conn ?w) - 1, lift_outcome (snd ?q))"
    by (simp_all add: numbered_def in_session_pair)
  have "finish (\<lambda>s. packet_result (reply (sent s))) (snd ?q) (wire_session ?w) = (s', r)"
    using assms(4) by (simp add: run_def split_beta)
  from works_offD [OF serve_task [OF assms(1) q(2)] ready_commit(1) [OF assms(2) q(1)] at ready_commit(2) [OF assms(2) q(1)] this, of g]
  show ?thesis using assms(2) given_commit [of reply w] by (simp add: in_session_pair ready_def)
qed

section \<open>From the start of a session\<close>

lemma greeting_served:
  assumes "sg_version g = 0"
  shows "\<exists>w t. served_work g reply (0, new_wire) (given w, w, snd new_wire @ [t]) \<and> ready reply w \<and> wire_session w = fst new_Session"
proof -
  let ?v = "fst new_wire" and ?ts = "snd new_wire"
  let ?w = "?v\<lparr>recvBuffer := [''''], resumed := False, wire_conn := greet g (wire_conn ?v)\<rparr>"
  let ?k = "\<lambda>w. (w, Turn resume)"
  have inv: "served_inv reply ?v" using new_wire_simulates [of reply] by (simp add: simulates_def)
  have init: "conn_state (wire_conn ?v) = Initializing"
    by (simp add: new_wire_fields perform_start_def new_Connection_def conn_send_def traceSend_def blank_connection_def)
  have q: "wire_onStreamData read_packet (packet_text (SrvGreeting g)) ?v = (?w, Turn ?k)"
    by (rule greeting_packet [OF _ init assms]) (simp add: new_wire_fields)
  have none: "given ?v = 0" using new_wire_simulates [of reply] by (simp add: simulates_def)
  have "served_step (\<lambda>_ _. False) g reply (0, ?v, ?ts) (0, fst (?w, Turn ?k), ?ts @ [numbered (?w, Turn ?k)])"
    by (rule served_greeting [OF new_wire_fields(4) init]) (rule q [symmetric])
  then have first: "served_work g reply (0, new_wire) (0, ?w, ?ts @ [numbered (?w, Turn ?k)])" by simp
  note second = last_served_turn [of g reply 0 ?w ?ts ?w ?k, unfolded fst_conv]
  note third = last_served_turn [of g reply 0 ?w ?ts ?w resume]
  have "served_work g reply (0, new_wire) (0, set_flowing True ?w, ?ts @ [numbered (resume ?w)])"
    using rtranclp_trans [OF rtranclp_trans [OF first second] third] by (simp only: return_def fst_conv)
  then have run: "served_work g reply (0, new_wire) (given (set_flowing True ?w), set_flowing True ?w, ?ts @ [numbered (resume ?w)])"
    using none by simp
  have "ready reply (set_flowing True ?w)"
    using inv new_wire_fields(4) served_greet [of reply "wire_sent ?v" "wire_conn ?v" g] by (simp add: ready_def served_inv_def) (simp add: greet_def)
  moreover have "wire_session (set_flowing True ?w) = fst new_Session" by (simp add: new_wire_fields)
  ultimately show ?thesis using run by blast
qed

lemma session_served:
  assumes "well_formed_server reply" "sg_version g = 0"
    and "run (\<lambda>s. packet_result (reply (sent s))) querySimulationStatus blank_session = (s', r)"
  shows "\<exists>w ts. served_work g reply (0, new_wire) (given w, w, ts) \<and> ready reply w \<and> wire_session w = s'"
proof -
  obtain w t where 1: "served_work g reply (0, new_wire) (given w, w, snd new_wire @ [t])" "ready reply w" "wire_session w = fst new_Session"
    using greeting_served [OF assms(2)] by blast
  have "posts_at sent blank_session new_Session"
    unfolding new_Session_def by (rule postsD [OF posts_querySimulationStatus])
  then have seg: "segments (posting sent) (snd new_Session)" by (simp add: posts_at_def)
  have at: "0 < length (snd new_wire @ [t])" "(snd new_wire @ [t]) ! 0 = (0, lift_outcome (snd new_Session))"
    by (simp_all add: new_wire_fields)
  have num: "case snd new_Session of Await c h \<Rightarrow> Suc 0 = length (wire_sent w) | _ \<Rightarrow> True"
    by (simp add: new_Session_eq 1(3) post_def blank_session_def)
  have fin: "finish (\<lambda>s. packet_result (reply (sent s))) (snd new_Session) (wire_session w) = (s', r)"
    using assms(3) by (simp add: 1(3) new_Session_def run_def split_beta)
  from works_offD [OF serve_task [OF assms(1) seg] 1(2) at num fin, of g] rtranclp_trans [OF 1(1)] show ?thesis by blast
qed

section \<open>Commands given one after the other\<close>

text \<open>
  The step commands \<open>ms\<close> are given in turn, each when the session is at rest: the work it has
  started is done to the end, and nothing else is called.
\<close>

inductive commanded :: "server_greeting \<Rightarrow> server \<Rightarrow> nat \<Rightarrow> step list \<Rightarrow> served_pool \<Rightarrow> served_pool \<Rightarrow> bool"
  for g reply fuel where
  no_command: "commanded g reply fuel [] q q"
| next_step: "q = in_session (forget (step_command fuel m)) w \<Longrightarrow>
    served_work g reply (k, fst q, ts @ [numbered q]) (k1, w1, ts1) \<Longrightarrow> length ts < length ts1 \<Longrightarrow>
    ts1 ! length ts = (n, Done (Inr ())) \<Longrightarrow> commanded g reply fuel ms (k1, w1, ts1) q' \<Longrightarrow>
    commanded g reply fuel (m # ms) (k, w, ts) q'"

lemma posts_step_command: "posts sent (forget (step_command fuel m))"
proof -
  have "posts sent (await stepBackward (\<lambda>t. return (Some t)))"
    by (intro postsI posts_await postsD [OF posts_stepBackward] posts_basic)
  then show ?thesis by (cases m) (simp_all add: step_command_def posts_forget posts_stepForward)
qed

lemma steps_commanded:
  assumes "well_formed_server reply" "serves ts (\<lambda>s. packet_result (reply (sent s)))" "raw (last ts) < 2 ^ fuel"
  shows "on_timeline ts (wire_session w) \<Longrightarrow> ready reply w \<Longrightarrow>
    \<exists>w' tasks'. commanded g reply (Suc fuel) ms (given w, w, tasks) (given w', w', tasks') \<and> ready reply w' \<and>
      timeCursor (wire_session w') = fold (walk_step ts) ms (timeCursor (wire_session w)) \<and>
      fired (wire_session w') = fired (wire_session w) @ map DidChangeTimeCursor (trail ts ms (timeCursor (wire_session w)))"
proof (induction ms arbitrary: w tasks)
  case Nil
  then show ?case by (intro exI [of _ w] exI [of _ tasks]) (simp add: no_command)
next
  case (Cons m ms)
  let ?s = "wire_session w" and ?server = "\<lambda>s. packet_result (reply (sent s))"
  obtain s1 where s1: "run ?server (step_command (Suc fuel) m) ?s = (s1, Inr (Some (timeCursor s1)))" "on_timeline ts s1"
      "timeCursor s1 = walk_step ts m (timeCursor ?s)" "fired s1 = fired ?s @ map DidChangeTimeCursor (trail ts [m] (timeCursor ?s))"
    using step_refines [OF Cons.prems(1) assms(2,3)] by blast
  have "run ?server (forget (step_command (Suc fuel) m)) ?s = (s1, Inr ())" by (simp add: forget_def s1(1))
  from serve_method [OF assms(1) Cons.prems(2) posts_step_command this, of g tasks]
  obtain w1 tasks1 n where w1: "served_work g reply (given w, fst (in_session (forget (step_command (Suc fuel) m)) w),
        tasks @ [numbered (in_session (forget (step_command (Suc fuel) m)) w)]) (given w1, w1, tasks1)"
      "ready reply w1" "wire_session w1 = s1" "length tasks < length tasks1" "tasks1 ! length tasks = (n, Done (Inr ()))"
    by blast
  obtain w' tasks' where w': "commanded g reply (Suc fuel) ms (given w1, w1, tasks1) (given w', w', tasks')" "ready reply w'"
      "timeCursor (wire_session w') = fold (walk_step ts) ms (timeCursor s1)"
      "fired (wire_session w') = fired s1 @ map DidChangeTimeCursor (trail ts ms (timeCursor s1))"
    using Cons.IH [of w1 tasks1] s1(2) w1(2) by (auto simp: w1(3))
  have "commanded g reply (Suc fuel) (m # ms) (given w, w, tasks) (given w', w', tasks')"
    by (rule next_step [OF refl w1(1,4,5) w'(1)])
  with w'(2-4) s1(3,4) show ?case unfolding trail_Cons [of ts m ms] by (intro exI [of _ w'] exI [of _ tasks']) simp
qed

section \<open>Properties\<close>

text \<open>C9: over the wire to a server that behaves, the session is the pool of its tasks.  Whatever is called and
  however calls, turns and packets interleave, the state the session has reached and its tasks are
  those of a history of the pool in which each command is answered by the server's reply to it; on the
  wire they are only numbered and mixed with the handlers of the chunks.  The server replies in the
  order in which it has received the commands and does not name them: its k replies so far have been
  matched by the client's queue with exactly the first k commands, each with the reply to it.\<close>

theorem served_refines_pool:
  assumes "well_formed_server reply" and "sg_version g = 0" and "served_run g reply (0, new_wire) (k, w, ts)"
  shows "\<exists>os. session_pool (answered_by reply) (wire_session w, os) \<and> session_tasks ts os \<and>
    k \<le> length (wire_sent w) \<and>
    settled (wire_conn w) = map (\<lambda>i. (i, packet_result (reply (take (Suc i) (wire_sent w))))) [0..<k]"
proof -
  obtain os where os: "simulates reply (k, w, ts) (wire_session w, os)" "session_pool (answered_by reply) (wire_session w, os)"
    using served_pool [OF assms] by blast
  then have c: "served_conn reply (wire_sent w) (wire_conn w)" "session_tasks ts os" "k = given w"
    by (simp_all add: simulates_def served_inv_def)
  note matched = served_settled_exactly [OF c(1), folded c(3)]
  with os(2) c(2) show ?thesis by blast
qed

text \<open>A server of a finished simulation with the given timeline.\<close>

definition timeline_reply :: "time_point list \<Rightarrow> server" where
  "timeline_reply ts cs =
     (case last cs of
        CmdQueryInterval q \<Rightarrow>
          (case interval_fromCXXRTL (qi_interval q) of
             Inl e \<Rightarrow> SrvError (ErrorPacket ''invalid_args'' '''')
           | Inr i \<Rightarrow> SrvResponse (timeline_response ts (begin_time i) (end_time i)))
      | CmdGetSimulationStatus _ \<Rightarrow> SrvResponse (ResGetSimulationStatus (StatusFinished (toCXXRTL (last ts))))
      | _ \<Rightarrow> SrvError (ErrorPacket ''invalid_command'' ''''))"

lemma timeline_reply_ok:
  "well_formed_server (timeline_reply ts)" "serves ts (\<lambda>s. packet_result (timeline_reply ts (sent s)))"
  "timeline_reply ts [get_status_command] = SrvResponse (ResGetSimulationStatus (StatusFinished (toCXXRTL (last ts))))"
proof -
  have "is_reply (timeline_reply ts cs) \<and> plain_packet (timeline_reply ts cs)" for cs
    by (cases "last cs") (simp_all add: timeline_reply_def is_reply_def plain_packet_def timeline_response_def split: sum.split)
  then show "well_formed_server (timeline_reply ts)" by (simp add: well_formed_server_def)
  show "serves ts (\<lambda>s. packet_result (timeline_reply ts (sent s)))"
    by (simp add: serves_def timeline_reply_def post_def probe_command_def packet_result_def le_ZERO time_le_raw
        interval_wire.dec_enc)
qed (simp add: timeline_reply_def get_status_command_def)

theorem served_refines_pool_witness:
  "\<exists>k w ts. served_run (ServerGreeting 0 [] [] (Features [])) (timeline_reply example_timeline) (0, new_wire) (k, w, ts) \<and>
     conn_state (wire_conn w) = Connected \<and>
     settled (wire_conn w) =
       map (\<lambda>i. (i, packet_result (timeline_reply example_timeline (take (Suc i) (wire_sent w))))) [0..<k]"
proof -
  let ?g = "ServerGreeting 0 [] [] (Features [])" and ?r = "timeline_reply example_timeline"
  have version: "sg_version ?g = 0" by simp
  obtain w t where w: "served_work ?g ?r (0, new_wire) (given w, w, snd new_wire @ [t])" "ready ?r w"
    using greeting_served [OF version, of ?r] by blast
  have run: "served_run ?g ?r (0, new_wire) (given w, w, snd new_wire @ [t])" using w(1) by (rule work_run)
  have "conn_state (wire_conn w) = Connected" using w(2) by (simp add: ready_def)
  with run served_refines_pool [OF timeline_reply_ok(1) version run] show ?thesis by blast
qed

text \<open>C3: stepping works from end to end.  A session is opened on the socket of a server whose simulation has
  finished; the server greets, answers the first status query and then every query from its timeline,
  all as JSON text.  Any sequence of step commands, given one after the other and each returning
  before the next, takes the time cursor exactly along the walk from time zero and announces exactly
  the samples the walk arrives at.\<close>

theorem stepping_over_the_wire:
  assumes "well_formed_server reply" and "sg_version g = 0" and "timeline ts"
    and "serves ts (\<lambda>s. packet_result (reply (sent s)))"
    and "reply [get_status_command] = SrvResponse (ResGetSimulationStatus (StatusFinished (toCXXRTL (last ts))))"
    and "raw (last ts) < 2 ^ fuel"
  shows "\<exists>q k w tasks. served_work g reply (0, new_wire) q \<and> commanded g reply (Suc fuel) ms q (k, w, tasks) \<and>
    timeCursor (wire_session w) = fold (walk_step ts) ms ZERO \<and>
    fired (wire_session w) = DidChangeSimulationStatus (SimulationStatus Finished (last ts) None) #
      map DidChangeTimeCursor (trail ts ms ZERO)"
proof -
  let ?server = "\<lambda>s. packet_result (reply (sent s))"
  let ?status = "SimulationStatus Finished (last ts) None"
  let ?s = "(post get_status_command blank_session)\<lparr>simulationStatus := ?status, fired := [DidChangeSimulationStatus ?status],
    seen := [(ZERO, ?status)]\<rparr>"
  have ts: "ts \<noteq> []" "ZERO \<in> set ts" "list_all (\<lambda>t. ZERO \<le> t) ts" using assms(3) by (auto simp: timeline_def)
  then have pos: "0 \<le> raw (last ts)" by (simp add: list_all_iff le_ZERO)
  have "run ?server querySimulationStatus blank_session = run ?server (await (request get_status_command) status_reply) blank_session"
    by (simp add: run_def querySimulationStatus_def clear_timeout_def blank_session_def)
  also have "\<dots> = (?s, Inr ())"
    by (simp add: run_def await_def request_def post_def blank_session_def packet_result_def assms(5) status_reply_def
        decode_status_def time_wire.dec_enc pos note_status_def status_changed_def)
  finally obtain w0 ts0 where w0: "served_work g reply (0, new_wire) (given w0, w0, ts0)" "ready reply w0" "wire_session w0 = ?s"
    using session_served [OF assms(1,2)] by blast
  have "on_timeline ts (wire_session w0)"
    using assms(3) ts(2) by (simp add: w0(3) on_timeline_def post_def blank_session_def)
  from steps_commanded [OF assms(1,4,6) this w0(2), of g ms ts0] w0(1)
  obtain w tasks where "commanded g reply (Suc fuel) ms (given w0, w0, ts0) (given w, w, tasks)"
    "timeCursor (wire_session w) = fold (walk_step ts) ms (timeCursor ?s)"
    "fired (wire_session w) = fired ?s @ map DidChangeTimeCursor (trail ts ms (timeCursor ?s))"
    unfolding w0(3) by blast
  with w0(1) show ?thesis by (simp add: post_def blank_session_def) blast
qed

theorem stepping_over_the_wire_witness:
  "\<exists>q k w tasks. served_work (ServerGreeting 0 [] [] (Features [])) (timeline_reply example_timeline) (0, new_wire) q \<and>
     commanded (ServerGreeting 0 [] [] (Features [])) (timeline_reply example_timeline) 81 [Ahead] q (k, w, tasks) \<and>
     timeCursor (wire_session w) = TimePoint 0 7"
proof -
  have small: "raw (last example_timeline) < 2 ^ 80" by (simp add: example_timeline_def RESOLUTION_def)
  have version: "sg_version (ServerGreeting 0 [] [] (Features [])) = 0" by simp
  have walk: "fold (walk_step example_timeline) [Ahead] ZERO = TimePoint 0 7" "Suc 80 = 81"
    by (simp_all add: walk_step_def example_facts(5))
  show ?thesis
    using stepping_over_the_wire [OF timeline_reply_ok(1) version example_facts(1) timeline_reply_ok(2,3) small, of "[Ahead]"]
    unfolding walk by blast
qed

end
