(* ===== verification/Served_Values.thy ===== *)
theory Served_Values
  imports Served_Steps
begin

text \<open>
  Values from end to end: a reference is bound and an interval queried over the wire to a server that
  holds the values of the design's items at the times of a timeline.  The theory follows the values
  from the server's words through their base64 text, the JSON packets and the session's decoding to
  the handles of the reference.
\<close>

section \<open>A server that holds values\<close>

text \<open>The items a name is bound to are those of the last command that binds it.\<close>

definition bound_items :: "string \<Rightarrow> any_command list \<Rightarrow> item_designation list option" where
  "bound_items name cs =
     fold (\<lambda>c items. case c of
         CmdReferenceItems r \<Rightarrow> if ri_reference r = name then ri_items r else items
       | _ \<Rightarrow> items) cs None"

lemma bound_items_simps [simp]:
  "bound_items name (cs @ [CmdReferenceItems (CommandReferenceItems n items)]) =
     (if n = name then items else bound_items name cs)"
  "bound_items name (cs @ [CmdQueryInterval q]) = bound_items name cs"
  by (simp_all add: bound_items_def)

definition values_response ::
  "time_point list \<Rightarrow> (time_point \<Rightarrow> item_designation \<Rightarrow> 32 word list) \<Rightarrow> item_designation list \<Rightarrow> time_point \<Rightarrow> time_point \<Rightarrow> any_response" where
  "values_response ts held items b e =
     ResQueryInterval (ResponseQueryInterval
       (map (\<lambda>t. ProtoSample (toCXXRTL t) (Some (encode_item_values (concat (map (held t) items)))) None)
         (samples_between ts b e)))"

definition serves_values ::
  "time_point list \<Rightarrow> (time_point \<Rightarrow> item_designation \<Rightarrow> 32 word list) \<Rightarrow> (session \<Rightarrow> result) \<Rightarrow> bool" where
  "serves_values ts held server \<longleftrightarrow>
     (\<forall>s b e ref collapse items. ZERO \<le> b \<and> b \<le> e \<and> bound_items (ref_name ref) (sent s) = Some items \<longrightarrow>
        server (post (query_interval_command (TimeInterval b e) collapse ref) s) = Inr (values_response ts held items b e))"

section \<open>A query\<close>

definition sample_of :: "(time_point \<Rightarrow> item_designation \<Rightarrow> 32 word list) \<Rightarrow> unbound_reference \<Rightarrow> time_point \<Rightarrow> sample" where
  "sample_of held u t = Sample t (reference_id u) (concat (map (held t) (cxxrtlItemDesignations u)))"

lemma decode_samples:
  assumes "list_all (\<lambda>t. ZERO \<le> t) us"
  shows "sum_map (decode_sample (new_Reference name epoch u))
      (map (\<lambda>t. ProtoSample (toCXXRTL t) (Some (encode_item_values (concat (map (held t) (cxxrtlItemDesignations u))))) None) us) =
    Inr (map (sample_of held u) us)"
  using assms
  by (induction us)
    (simp_all add: decode_sample_def time_wire.dec_enc le_ZERO decode_encode_item_values sample_of_def
      new_Reference_def freeze_def)

lemma samples_between_mem: "t \<in> set (samples_between ts b e) \<Longrightarrow> t \<in> set ts"
proof (cases "at_last (filter (\<lambda>t. t \<le> b) ts)")
  case (Some u)
  then have "u \<in> set ts" by (rule conjunct1 [OF at_last_filter])
  moreover assume "t \<in> set (samples_between ts b e)"
  ultimately show ?thesis using Some by (auto simp: samples_between_def)
qed (auto simp: samples_between_def)

lemma query_values:
  assumes "serves_values ts held server" "list_all (\<lambda>t. ZERO \<le> t) ts" "ZERO \<le> b" "b \<le> e"
    and "bindReference name u s = (ref, s1)"
  shows "run server (queryInterval (TimeInterval b e) ref collapse) s1 =
    (post (query_interval_command (TimeInterval b e) (case collapse of Some c \<Rightarrow> c | None \<Rightarrow> True) ref) s1,
     Inr (map (sample_of held u) (samples_between ts b e)))"
proof -
  obtain epoch where ref: "ref = new_Reference name epoch u" "checkReferenceEpoch name epoch s1 = Inr ()"
      "bound_items name (sent s1) = Some (cxxrtlItemDesignations u)"
    using assms(5) by (auto simp: bindReference_def advanceReferenceEpoch_def checkReferenceEpoch_def post_def
        reference_items_command_def Let_def)
  have name: "ref_name ref = name" "ref_epoch ref = epoch" by (simp_all add: ref(1) new_Reference_def)
  let ?c = "query_interval_command (TimeInterval b e) (case collapse of Some c \<Rightarrow> c | None \<Rightarrow> True) ref"
  have "server (post ?c s1) = Inr (values_response ts held (cxxrtlItemDesignations u) b e)"
    using assms(1,3,4) ref(3) unfolding serves_values_def name(1) [symmetric] by blast
  moreover have "list_all (\<lambda>t. ZERO \<le> t) (samples_between ts b e)"
    using assms(2) samples_between_mem by (auto simp: list_all_iff)
  ultimately have "sum_map (decode_sample ref) (map (\<lambda>t. ProtoSample (toCXXRTL t)
        (Some (encode_item_values (concat (map (held t) (cxxrtlItemDesignations u))))) None) (samples_between ts b e)) =
      Inr (map (sample_of held u) (samples_between ts b e))"
    and server: "server (post ?c s1) = Inr (values_response ts held (cxxrtlItemDesignations u) b e)"
    by (simp_all add: ref(1) decode_samples)
  moreover let ?m = "await (request ?c) (\<lambda>response. of_result (case response_samples response of
      Inl e \<Rightarrow> Inl e | Inr samples \<Rightarrow> sum_map (decode_sample ref) samples))"
  have "run server ?m s1 = (post ?c s1, case response_samples (values_response ts held (cxxrtlItemDesignations u) b e) of
      Inl e \<Rightarrow> Inl e | Inr samples \<Rightarrow> sum_map (decode_sample ref) samples)"
    using server by (simp add: run_def await_def request_def of_result_def)
  moreover have "queryInterval (TimeInterval b e) ref collapse s1 = ?m s1"
    by (simp add: queryInterval_def name ref(2))
  ultimately show ?thesis by (simp add: run_eta [of _ s1 ?m] values_response_def response_samples_def)
qed

section \<open>Values at their handles\<close>

lemma sample_of_extracts:
  assumes "wf_reference u" "map handle_designation (handles u) = ds"
    and "list_all (\<lambda>d. valid_value d (val d) \<and> held t (cxxrtlItemDesignation d) = encode_designation d (val d)) ds"
  shows "list_all2 (\<lambda>h d. sample_extract (sample_of held u t) h = Inr (val d)) (handles u) ds"
proof -
  have "map (\<lambda>h. held t (cxxrtlItemDesignation (handle_designation h))) (handles u) = map (\<lambda>d. held t (cxxrtlItemDesignation d)) ds"
    by (simp add: assms(2) [symmetric])
  also have "\<dots> = map (\<lambda>d. encode_designation d (val d)) ds" using assms(3) by (simp add: list_all_iff)
  also have "\<dots> = map2 encode_designation ds (map val ds)" by (induction ds) simp_all
  finally have data: "map (held t) (cxxrtlItemDesignations u) = map2 encode_designation ds (map val ds)"
    by (simp add: cxxrtlItemDesignations_def comp_def)
  have valid: "list_all2 valid_value ds (map val ds)"
    using assms(3) by (simp add: list_all2_conv_all_nth list_all_length)
  have "length (handles u) = length ds" using assms(2) by auto
  then show ?thesis
    using reference_layout [OF assms(1), of "map val ds" _ t] valid
    by (simp add: list_all2_conv_all_nth assms(2) sample_of_def data)
qed

text \<open>
  What the observer does in one segment, with whatever it then does with the samples: it binds the name
  and queries the interval.
\<close>

definition ask_values ::
  "string \<Rightarrow> unbound_reference \<Rightarrow> time_interval \<Rightarrow> (sample list \<Rightarrow> (session, unit) async) \<Rightarrow> (session, unit) async" where
  "ask_values name u i client s =
     (let (ref, s1) = bindReference name u s in await (queryInterval i ref None) client s1)"

lemma posts_ask_values:
  assumes "\<And>samples. posts sent (client samples)"
  shows "posts sent (ask_values name u i client)"
proof
  fix s
  obtain ref s1 where b: "bindReference name u s = (ref, s1)" by fastforce
  then have "sent s1 = sent s @ [reference_items_command name u]"
    by (auto simp: bindReference_def advanceReferenceEpoch_def post_def Let_def)
  moreover have "posts_at sent s1 (await (queryInterval i ref None) client s1)"
    by (intro posts_await postsD [OF posts_queryInterval] assms)
  ultimately show "posts_at sent s (ask_values name u i client s)"
    by (auto simp: ask_values_def b posts_at_def posting_def split: outcome.splits)
qed

lemma run_ask_values:
  assumes "serves_values ts held server" "list_all (\<lambda>t. ZERO \<le> t) ts" "ZERO \<le> b" "b \<le> e"
    and "bindReference name u s = (ref, s1)"
  shows "run server (ask_values name u (TimeInterval b e) client) s =
    run server (client (map (sample_of held u) (samples_between ts b e)))
      (post (query_interval_command (TimeInterval b e) True ref) s1)"
proof -
  have "ask_values name u (TimeInterval b e) client s = await (queryInterval (TimeInterval b e) ref None) client s1"
    by (simp add: ask_values_def assms(5))
  then have "run server (ask_values name u (TimeInterval b e) client) s =
      run server (await (queryInterval (TimeInterval b e) ref None) client) s1"
    by (simp add: run_def)
  then show ?thesis by (simp add: query_values [OF assms, of None])
qed

lemma reached_ready:
  assumes "well_formed_server reply" "sg_version g = 0" "served_run g reply (0, new_wire) (k, w, tasks)"
    and "flowing w" "conn_state (wire_conn w) = Connected"
  shows "ready reply w" "k = given w"
  using served_pool [OF assms(1-3)] assms(4,5) by (auto simp: ready_def simulates_def)

section \<open>Properties\<close>

text \<open>C4: values arrive from end to end.  In any history of the session on the wire, once it is connected and
  its stream flows, binding a reference and querying an interval can be worked off to the end, and
  what the caller goes on with are exactly the samples the server's timeline has for the interval, in
  order; reading one through the handles of the reference gives, for every designation, the value the
  server holds for it at that time.\<close>

theorem values_over_the_wire:
  assumes "well_formed_server reply" and "sg_version g = 0"
    and "serves_values ts held (\<lambda>s. packet_result (reply (sent s)))"
    and "list_all (\<lambda>t. ZERO \<le> t) ts" and "ZERO \<le> b" and "b \<le> e"
    and "served_run g reply (0, new_wire) (k, w, tasks)" and "flowing w" and "conn_state (wire_conn w) = Connected"
    and "add_all ds (new_UnboundReference uid) = Inr u"
    and "list_all (\<lambda>t. list_all (\<lambda>d. valid_value d (val t d) \<and>
           held t (cxxrtlItemDesignation d) = encode_designation d (val t d)) ds) ts"
    and "\<And>samples. posts sent (client samples)"
    and "bindReference name u (wire_session w) = (ref, s1)"
    and "call = in_session (ask_values name u (TimeInterval b e) client) w"
  shows "\<exists>k' w' tasks' n r samples.
    served_work g reply (k, fst call, tasks @ [numbered call]) (k', w', tasks') \<and>
    tasks' ! length tasks = (n, Done r) \<and>
    run (\<lambda>s. packet_result (reply (sent s))) (client samples) (post (query_interval_command (TimeInterval b e) True ref) s1) =
      (wire_session w', r) \<and>
    map sample_time samples = samples_between ts b e \<and>
    list_all (\<lambda>sm. list_all2 (\<lambda>h d. sample_extract sm h = Inr (val (sample_time sm) d)) (handles u) ds) samples"
proof -
  let ?server = "\<lambda>s. packet_result (reply (sent s))"
  let ?samples = "map (sample_of held u) (samples_between ts b e)"
  have ready: "ready reply w" "k = given w" by (rule reached_ready [OF assms(1,2,7-9)])+
  obtain s' r where run: "run ?server (ask_values name u (TimeInterval b e) client) (wire_session w) = (s', r)" by fastforce
  obtain w' tasks' n where w': "served_work g reply (k, fst call, tasks @ [numbered call]) (given w', w', tasks')"
      "wire_session w' = s'" "tasks' ! length tasks = (n, Done r)"
    unfolding ready(2) using serve_method [OF assms(1) ready(1) posts_ask_values [OF assms(12)] run, of g tasks]
    unfolding assms(14) [symmetric] by blast
  have "run ?server (client ?samples) (post (query_interval_command (TimeInterval b e) True ref) s1) = (wire_session w', r)"
    using run_ask_values [OF assms(3-6,13), of client] run w'(2) by simp
  moreover have "map sample_time ?samples = samples_between ts b e" by (simp add: sample_of_def comp_def)
  moreover have u: "wf_reference u" "map handle_designation (handles u) = ds"
    using add_all_result [of "new_UnboundReference uid" ds] assms(10) by auto
  have "list_all2 (\<lambda>h d. sample_extract (sample_of held u t) h = Inr (val t d)) (handles u) ds"
    if "t \<in> set (samples_between ts b e)" for t
    using sample_of_extracts [OF u, of "val t" held t] assms(11) samples_between_mem [OF that] by (simp add: list_all_iff)
  then have "list_all (\<lambda>sm. list_all2 (\<lambda>h d. sample_extract sm h = Inr (val (sample_time sm) d)) (handles u) ds) ?samples"
    by (auto simp: list_all_iff sample_of_def)
  ultimately show ?thesis using w'(1,3) by blast
qed

text \<open>A server of a finished simulation that holds values.\<close>

definition values_reply :: "time_point list \<Rightarrow> (time_point \<Rightarrow> item_designation \<Rightarrow> 32 word list) \<Rightarrow> server" where
  "values_reply ts held cs =
     (case last cs of
        CmdReferenceItems r \<Rightarrow> SrvResponse (ResReferenceItems ResponseReferenceItems)
      | CmdQueryInterval q \<Rightarrow>
          (case (interval_fromCXXRTL (qi_interval q), map_option (\<lambda>name. bound_items name cs) (qi_items q)) of
             (Inr i, Some (Some items)) \<Rightarrow> SrvResponse (values_response ts held items (begin_time i) (end_time i))
           | _ \<Rightarrow> SrvError (ErrorPacket ''invalid_args'' ''''))
      | CmdGetSimulationStatus _ \<Rightarrow> SrvResponse (ResGetSimulationStatus (StatusFinished (toCXXRTL (last ts))))
      | _ \<Rightarrow> SrvError (ErrorPacket ''invalid_command'' ''''))"

lemma values_reply_ok:
  "well_formed_server (values_reply ts held)" "serves_values ts held (\<lambda>s. packet_result (values_reply ts held (sent s)))"
proof -
  have "is_reply (values_reply ts held cs) \<and> plain_packet (values_reply ts held cs)" for cs
    by (cases "last cs") (simp_all add: values_reply_def is_reply_def plain_packet_def values_response_def
        split: sum.split option.split)
  then show "well_formed_server (values_reply ts held)" by (simp add: well_formed_server_def)
  show "serves_values ts held (\<lambda>s. packet_result (values_reply ts held (sent s)))"
    by (simp add: serves_values_def values_reply_def post_def query_interval_command_def packet_result_def
        interval_wire.dec_enc le_ZERO time_le_raw)
qed

theorem values_over_the_wire_witness:
  "\<exists>(w' :: wire) samples h ref.
     last (sent (wire_session w')) = query_interval_command (TimeInterval ZERO (TimePoint 0 7)) True ref \<and>
     map sample_time samples = [ZERO, TimePoint 0 7] \<and>
     list_all (\<lambda>sm. sample_extract sm h = Inr (Bits 7)) samples"
proof -
  let ?d = "ScalarDesignation (ScalarVariable [''a''] None 0 40)" and ?g = "ServerGreeting 0 [] [] (Features [])"
  let ?held = "\<lambda>t item. [0, 7] :: 32 word list" and ?client = "\<lambda>_. return () :: (session, unit) async"
  let ?r = "values_reply example_timeline ?held"
  have version: "sg_version ?g = 0" by simp
  obtain w t where w: "served_work ?g ?r (0, new_wire) (given w, w, snd new_wire @ [t])" "ready ?r w"
    using greeting_served [OF version, of ?r] by blast
  have w_ok: "flowing w" "conn_state (wire_conn w) = Connected" using w(2) by (simp_all add: ready_def)
  obtain u where u: "add_all [?d] (new_UnboundReference 0) = Inr u"
    using add_all_result [of "new_UnboundReference 0" "[?d]"] by (auto simp del: add_all.simps)
  obtain ref s1 where ref: "bindReference ''view'' u (wire_session w) = (ref, s1)" by fastforce
  have held: "list_all (\<lambda>t. list_all (\<lambda>d. valid_value d (Bits 7) \<and> ?held t (cxxrtlItemDesignation d) = encode_designation d (Bits 7)) [?d])
      example_timeline"
    by (simp add: list_all_iff valid_value_def narrow_def chunk_count_def encode_designation_def encode_chunks_two)
  have times: "list_all (\<lambda>t. ZERO \<le> t) example_timeline" "ZERO \<le> ZERO" "ZERO \<le> TimePoint 0 7"
      "samples_between example_timeline ZERO (TimePoint 0 7) = [ZERO, TimePoint 0 7]"
    using example_facts(1) by (simp_all add: timeline_def example_timeline_def samples_between_def at_last_def
        time_less_raw time_le_raw RESOLUTION_def)
  have posts: "posts sent (?client samples)" for samples by (intro postsI posts_basic)
  obtain w' :: wire and samples where samples: "map sample_time samples = samples_between example_timeline ZERO (TimePoint 0 7)"
      "list_all (\<lambda>sm. list_all2 (\<lambda>h d. sample_extract sm h = Inr (Bits 7)) (handles u) [?d]) samples"
      "post (query_interval_command (TimeInterval ZERO (TimePoint 0 7)) True ref) s1 = wire_session w'"
    using values_over_the_wire [where held = ?held and val = "\<lambda>t d. Bits 7" and client = ?client, OF values_reply_ok(1) version values_reply_ok(2) times(1-3) work_run [OF w(1)] w_ok u held
        posts ref refl]
    by (simp only: run_basic prod.inject) blast
  obtain h where "handles u = [h]" using samples(1,2) times(4) by (cases samples) (auto simp: list_all2_Cons2)
  with samples(1,2) times(4) have "map sample_time samples = [ZERO, TimePoint 0 7]"
      "list_all (\<lambda>sm. sample_extract sm h = Inr (Bits 7)) samples" by simp_all
  moreover have "last (sent (wire_session w')) = query_interval_command (TimeInterval ZERO (TimePoint 0 7)) True ref"
    by (simp add: samples(3) [symmetric] post_def)
  ultimately show ?thesis by (intro exI [of _ w'] exI [of _ samples] exI [of _ h] exI [of _ ref]) simp
qed

end
