(* ===== verification/Tree_Elements.thy ===== *)
theory Tree_Elements
  imports Extension "HOL-Library.Sublist"
begin

text \<open>
  The side bar as the editor drives it: it asks the provider for the children of an element and for
  the element's rendering (\<open>TreeDataProvider.getChildren\<close>, \<open>getTreeItem\<close> in \<open>src/src/ui/sidebar.ts\<close>),
  and offers commands on an element by its context value (\<open>package.json\<close>).  An element is a tree item
  with its metadata, the index of an entry of the watch list.

  \<open>tree_shows\<close> are the elements that come up in some history of a tree being unfolded, whatever the
  server replies and whatever happens to the session in between.  They are well typed, in the sense
  of the source's types and of the context values, so every command the tree offers on one succeeds.
\<close>

section \<open>The provider as the editor calls it\<close>

definition provider_displayStyle :: "configuration \<Rightarrow> display_style" where
  "provider_displayStyle cfg = cfg_displayStyle cfg"

definition item_displayStyle :: "configuration \<Rightarrow> display_style" where
  "item_displayStyle cfg = provider_displayStyle cfg"

definition item_env :: "(location \<Rightarrow> string) \<Rightarrow> (string \<Rightarrow> string) \<Rightarrow> configuration \<Rightarrow> ui_env" where
  "item_env link uri cfg =
     \<lparr>env_style = item_displayStyle cfg, env_options = (\<lambda>i. options_get i cfg), env_link = link, env_uri = uri\<rparr>"

type_synonym tree_element = "tree_item \<times> nat option"

text \<open>A class that does not override \<open>getChildren\<close> has the empty list.\<close>

definition default_children :: "tree_item list" where
  "default_children = []"

definition unindexed :: "tree_item list \<Rightarrow> tree_element list" where
  "unindexed ts = map (\<lambda>t. (t, None)) ts"

text \<open>The methods on an element wait for its \<open>getChildren\<close>, which dispatches on the class.\<close>

definition tree_getChildren ::
  "ui_env \<Rightarrow> configuration \<Rightarrow> tree_provider \<Rightarrow> tree_item option \<Rightarrow> (session, tree_element list) async" where
  "tree_getChildren env cfg p element =
     (case element of
        Some t \<Rightarrow>
          (case t of
             BitTreeItem d i ctx \<Rightarrow> await (return default_children) (\<lambda>ts. return (unindexed ts))
           | ScalarTreeItem d ctx \<Rightarrow> await (return (scalar_children env d)) (\<lambda>ts. return (unindexed ts))
           | ArrayTreeItem d ctx \<Rightarrow> await (return (array_children d)) (\<lambda>ts. return (unindexed ts))
           | ScopeTreeItem sc \<Rightarrow> await (scope_children sc) (\<lambda>ts. return (unindexed ts))
           | WatchTreeItem \<Rightarrow> await (watch_children p cfg) (\<lambda>ts. return (map (map_prod id Some) ts)))
      | None \<Rightarrow> return (unindexed (provider_children p)))"

definition item_getValue :: "designation \<Rightarrow> nat \<Rightarrow> tree_provider \<Rightarrow> desig_value option \<times> tree_provider" where
  "item_getValue d element p = getValue d element p"

text \<open>Rendering; \<open>element\<close> names the element in the callback registered for its value.\<close>

definition tree_getTreeItem ::
  "ui_env \<Rightarrow> configuration \<Rightarrow> nat \<Rightarrow> tree_item \<Rightarrow> tree_provider \<Rightarrow> (session, tree_view) async \<times> tree_provider" where
  "tree_getTreeItem env cfg element t p =
     (case t of
        BitTreeItem d i ctx \<Rightarrow> (let (x, p') = item_getValue d element p in (return (bit_view env x d i ctx), p'))
      | ScalarTreeItem d ctx \<Rightarrow> (let (x, p') = item_getValue d element p in (return (scalar_view env x d ctx), p'))
      | ArrayTreeItem d ctx \<Rightarrow> (return (array_view env d ctx), p)
      | ScopeTreeItem sc \<Rightarrow> (scope_view env sc, p)
      | WatchTreeItem \<Rightarrow> (return (watch_view cfg), p))"

section \<open>Elements of the tree\<close>

inductive tree_shows :: "tree_element \<Rightarrow> bool" where
  shows_top: "may_return (tree_getChildren env cfg p None) es \<Longrightarrow> e \<in> set es \<Longrightarrow> tree_shows e"
| shows_child: "tree_shows (t, j) \<Longrightarrow> may_return (tree_getChildren env cfg p (Some t)) es \<Longrightarrow> e \<in> set es \<Longrightarrow>
    tree_shows e"

text \<open>The context value of the rendered item, and the commands whose \<open>when\<close> clause matches it.\<close>

definition item_context :: "tree_item \<Rightarrow> string option" where
  "item_context t =
     (case t of
        BitTreeItem d i ctx \<Rightarrow> Some ctx
      | ScalarTreeItem d ctx \<Rightarrow> Some ctx
      | ArrayTreeItem d ctx \<Rightarrow> Some ctx
      | _ \<Rightarrow> None)"

definition menu_offers :: "string \<Rightarrow> string option \<Rightarrow> bool" where
  "menu_offers keyword context = (case context of None \<Rightarrow> False | Some ctx \<Rightarrow> sublist keyword ctx)"

text \<open>
  The types of the source: a bit or scalar item has the designation of a scalar variable or of a row
  of a memory, an array item that of a whole memory.  The bits and rows below the hierarchy are those
  of the variable; the entries of the watch list are what the settings say.
\<close>

definition single_designation :: "designation \<Rightarrow> bool" where
  "single_designation d \<longleftrightarrow>
     (case d of
        ScalarDesignation v \<Rightarrow> \<not> is_memory v
      | MemoryRowDesignation v i \<Rightarrow> is_memory v
      | MemoryRangeDesignation v a b \<Rightarrow> False)"

definition in_variable :: "variable \<Rightarrow> int \<Rightarrow> bool" where
  "in_variable v i \<longleftrightarrow> lsbAt v \<le> i \<and> i < lsbAt v + int (width v)"

definition in_memory :: "designation \<Rightarrow> bool" where
  "in_memory d \<longleftrightarrow>
     (case d of
        MemoryRowDesignation v i \<Rightarrow> zeroAt v \<le> i \<and> i < zeroAt v + int (depth v)
      | _ \<Rightarrow> True)"

definition whole_memory :: "designation \<Rightarrow> bool" where
  "whole_memory d \<longleftrightarrow> is_memory (desig_variable d) \<and> d = designation_of_memory (desig_variable d) None None"

definition element_typed :: "tree_element \<Rightarrow> bool" where
  "element_typed e \<longleftrightarrow>
     (case e of
        (BitTreeItem d i ctx, j) \<Rightarrow> single_designation d \<and>
          (if j = None then ctx = ''canWatch'' \<and> in_variable (desig_variable d) i else ctx = ''inWatchList'')
      | (ScalarTreeItem d ctx, j) \<Rightarrow> single_designation d \<and>
          (if j = None then in_memory d \<and>
             ctx = (if 1 < width (desig_variable d) \<and> \<not> is_memory (desig_variable d) then ''canWatch|canSetRadix'' else ''canWatch'')
           else ctx = (if 1 < width (desig_variable d) then ''inWatchList|canSetRadix'' else ''inWatchList''))
      | (ArrayTreeItem d ctx, j) \<Rightarrow> whole_memory d \<and>
          ctx = (if j = None then ''canWatch|canSetRadix'' else ''inWatchList|canSetRadix'')
      | (ScopeTreeItem sc, j) \<Rightarrow> j = None
      | (WatchTreeItem, j) \<Rightarrow> j = None)"

lemma whole_memory_designation [simp]: "whole_memory (designation_of_memory v None None) \<longleftrightarrow> is_memory v"
  by (simp add: whole_memory_def designation_of_memory_def)

lemma typed_variable: "element_typed (variable_item v, None)"
  by (cases v) (auto simp: variable_item_def element_typed_def single_designation_def is_memory_def in_memory_def
      designation_of_scalar_def)

lemma typed_bits: "single_designation d \<Longrightarrow> list_all element_typed (unindexed (scalar_children env d))"
  by (auto simp: unindexed_def scalar_children_def list_all_iff element_typed_def in_variable_def variableBitIndices_def
      split: display_style.splits)

lemma typed_rows: "whole_memory d \<Longrightarrow> list_all element_typed (unindexed (array_children d))"
  by (auto simp: unindexed_def array_children_def list_all_iff element_typed_def in_memory_def memoryRowIndices_def
      designation_of_memory_def single_designation_def whole_memory_def)

lemma typed_scope:
  assumes "may_return (scope_children sc) ts"
  shows "list_all element_typed (unindexed ts)"
proof -
  obtain ss vs where "ts = map ScopeTreeItem ss @ map variable_item vs"
    using assms unfolding scope_children_def by (fastforce dest: may_return_await)
  then show ?thesis by (auto simp: unindexed_def list_all_iff typed_variable) (simp add: element_typed_def)
qed

lemma typed_entry: "element_typed (watch_item_for w v, Some j)"
  by (cases v) (auto simp: watch_item_for_def watch_designation_def designation_of_scalar_def element_typed_def
      single_designation_def is_memory_def whole_memory_def designation_of_memory_def Let_def split: option.split)

lemma typed_entries:
  "may_return (watch_children_from p k ws) nodes \<Longrightarrow> list_all element_typed (map (map_prod id Some) nodes)"
proof (induction ws arbitrary: k nodes)
  case Nil
  then show ?case by simp
next
  case (Cons w ws)
  then obtain found rest where "may_return (watch_children_from p (Suc k) ws) rest"
      "nodes = (case found of None \<Rightarrow> rest | Some v \<Rightarrow> (watch_item_for w v, k) # rest)"
    by (fastforce dest: may_return_await)
  with Cons.IH show ?case by (cases found) (auto simp: typed_entry)
qed

lemma children_typed:
  assumes "element_typed (t, j)" "may_return (tree_getChildren env cfg p (Some t)) es"
  shows "list_all element_typed es"
proof (cases t)
  case (BitTreeItem d i ctx)
  with assms show ?thesis
    by (auto simp: tree_getChildren_def default_children_def unindexed_def dest!: may_return_await)
next
  case (ScalarTreeItem d ctx)
  with assms typed_bits [of d env] show ?thesis
    by (auto simp: tree_getChildren_def element_typed_def dest!: may_return_await)
next
  case (ArrayTreeItem d ctx)
  with assms show ?thesis
    by (auto simp: tree_getChildren_def element_typed_def typed_rows dest!: may_return_await)
next
  case (ScopeTreeItem sc)
  with assms show ?thesis by (auto simp: tree_getChildren_def typed_scope dest!: may_return_await)
next
  case WatchTreeItem
  with assms show ?thesis
    by (auto simp: tree_getChildren_def watch_children_def dest!: may_return_await typed_entries)
qed

lemma tree_shows_typed: "tree_shows e \<Longrightarrow> element_typed e"
proof (induction rule: tree_shows.induct)
  case (shows_top env cfg p es e)
  then show ?case
    by (auto simp: tree_getChildren_def unindexed_def provider_children_def element_typed_def
        split: if_splits option.splits)
next
  case (shows_child t j env cfg p es e)
  then show ?case using children_typed by (auto simp: list_all_iff)
qed

text \<open>What a context value offers.\<close>

lemma context_offers [simp]:
  "menu_offers ''canWatch'' (Some ''canWatch'')" "menu_offers ''canWatch'' (Some ''canWatch|canSetRadix'')"
  "\<not> menu_offers ''canWatch'' (Some ''inWatchList'')" "\<not> menu_offers ''canWatch'' (Some ''inWatchList|canSetRadix'')"
  "menu_offers ''inWatchList'' (Some ''inWatchList'')" "menu_offers ''inWatchList'' (Some ''inWatchList|canSetRadix'')"
  "\<not> menu_offers ''inWatchList'' (Some ''canWatch'')" "\<not> menu_offers ''inWatchList'' (Some ''canWatch|canSetRadix'')"
  "menu_offers ''canSetRadix'' (Some ''canWatch|canSetRadix'')" "menu_offers ''canSetRadix'' (Some ''inWatchList|canSetRadix'')"
  "\<not> menu_offers ''canSetRadix'' (Some ''canWatch'')" "\<not> menu_offers ''canSetRadix'' (Some ''inWatchList'')"
  by code_simp+

lemma item_context_simps [simp]:
  "item_context (BitTreeItem d i ctx) = Some ctx" "item_context (ScalarTreeItem d ctx) = Some ctx"
  "item_context (ArrayTreeItem d ctx) = Some ctx" "item_context (ScopeTreeItem sc) = None"
  "item_context WatchTreeItem = None" "\<not> menu_offers keyword None"
  by (simp_all add: item_context_def menu_offers_def)

lemma rendered_context:
  assumes "may_return (fst (tree_getTreeItem env cfg element t p)) view"
  shows "view_context view = item_context t"
proof (cases t)
  case (ScopeTreeItem sc)
  with assms show ?thesis
    by (auto simp: tree_getTreeItem_def scope_view_def plain_view_def Let_def split: if_splits dest!: may_return_await)
qed (use assms in \<open>auto simp: tree_getTreeItem_def bit_view_def scalar_view_def array_view_def watch_view_def
    plain_view_def Let_def split: prod.splits\<close>)

section \<open>Properties\<close>

text \<open>A design with one variable of eight bits, unfolded.\<close>

definition example_cached :: session where
  "example_cached = blank_session\<lparr>scopeCache := [ '''' \<mapsto> []], itemCache :=
     [ '''' \<mapsto> [(''a'', ItemDescriptionNode None 0 8 True False False (AttributeMap []))]]\<rparr>"

abbreviation example_element :: tree_item where
  "example_element \<equiv> ScalarTreeItem (ScalarDesignation (ScalarVariable [''a''] None 0 8)) ''canWatch|canSetRadix''"

definition example_configuration :: configuration where
  "example_configuration = \<lparr>cfg_variableOptions = None, cfg_watchList = None, cfg_displayStyle = Python\<rparr>"

abbreviation example_env :: ui_env where
  "example_env \<equiv> item_env (\<lambda>_. '''') id example_configuration"

lemma example_shown: "tree_shows (example_element, None)"
proof -
  let ?sc = "ModuleScope [] None [] None '''' ''''"
  let ?p = "no_provider\<lparr>scopeTreeItem := Some ?sc\<rparr>"
  have top: "may_return (tree_getChildren example_env example_configuration ?p None) [(ScopeTreeItem ?sc, None)]"
    by (simp add: tree_getChildren_def provider_children_def no_provider_def unindexed_def)
  have "run (\<lambda>_. missing) (tree_getChildren example_env example_configuration ?p (Some (ScopeTreeItem ?sc))) example_cached =
      (example_cached, Inr [(example_element, None)])"
    by (simp add: tree_getChildren_def scope_children_def scope_scopes_def scope_variables_def getScopesIn_def
        getVariablesIn_def items_memo.run_hit scopes_memo.run_hit example_cached_def scopes_of_def variables_of_def
        variable_fromCXXRTL_def location_fromCXXRTL_def variable_item_def designation_of_scalar_def unindexed_def)
  from shows_child [OF shows_top [OF top] run_may_return [OF this]] show ?thesis by simp
qed

text \<open>C18: the side bar is well typed.  Every element that comes up while the tree is unfolded, in any history of
  the session, the settings and the server's replies, holds what the source's types promise: bit and
  scalar items the designation of a scalar variable or of one row, array items that of a whole memory;
  below the hierarchy the bits are those of the variable and the rows those of the memory; the
  elements of the watch list, and only they, carry the index of an entry; and the context value the
  editor sees of the rendered item says which of these it is.\<close>

theorem tree_elements_typed:
  assumes "tree_shows (t, j)" and "may_return (fst (tree_getTreeItem env cfg element t p)) view"
  shows "element_typed (t, j) \<and> view_context view = item_context t \<and>
    (menu_offers ''inWatchList'' (view_context view) \<longleftrightarrow> j \<noteq> None)"
proof -
  have typed: "element_typed (t, j)" using assms(1) by (rule tree_shows_typed)
  moreover have "menu_offers ''inWatchList'' (item_context t) \<longleftrightarrow> j \<noteq> None"
    using typed by (cases t) (auto simp: element_typed_def split: if_splits)
  ultimately show ?thesis using rendered_context [OF assms(2)] by simp
qed

theorem tree_elements_typed_witness:
  "tree_shows (example_element, None) \<and> element_typed (example_element, None)"
proof -
  have "may_return (fst (tree_getTreeItem example_env example_configuration 0 example_element no_provider))
      (scalar_view example_env None (ScalarDesignation (ScalarVariable [''a''] None 0 8)) ''canWatch|canSetRadix'')"
    by (simp add: tree_getTreeItem_def item_getValue_def getValue_def no_provider_def)
  from tree_elements_typed [OF example_shown this] example_shown show ?thesis by blast
qed

text \<open>C33: every command the tree offers on an element succeeds and does what it says.  Where the menu offers
  the radix commands, the variable is shown in that radix from then on and no other is changed; where
  it offers watching, an entry for the element is appended to the watch list; where it offers
  unwatching, the element has an index and the entry at it is taken out.\<close>

theorem offered_on_elements:
  assumes "tree_shows (t, j)"
  shows "(menu_offers ''canSetRadix'' (item_context t) \<longrightarrow>
      (\<exists>cfg' v. setRadix r t cfg = Inr cfg' \<and> v = desig_variable (item_designation_of t) \<and>
        (cxxrtlIdentifier v \<noteq> ''__proto__'' \<longrightarrow> radix (options_get (cxxrtlIdentifier v) cfg') = Some r) \<and>
        (\<forall>i. i \<noteq> cxxrtlIdentifier v \<longrightarrow> options_get i cfg' = options_get i cfg))) \<and>
    (menu_offers ''canWatch'' (item_context t) \<longrightarrow>
      (\<exists>cfg' w. watchVariable t cfg = Inr cfg' \<and> getWatchItem t = Some w \<and> watch_get cfg' = watch_get cfg @ [w])) \<and>
    (menu_offers ''inWatchList'' (item_context t) \<longrightarrow>
      (\<exists>cfg' i. unWatchVariable (t, j) cfg = Inr cfg' \<and> j = Some i \<and>
        watch_get cfg' = take i (watch_get cfg) @ drop (Suc i) (watch_get cfg)))"
proof -
  have "element_typed (t, j)" using assms by (rule tree_shows_typed)
  then have j: "menu_offers ''inWatchList'' (item_context t) \<longrightarrow> j \<noteq> None"
    by (cases t) (auto simp: element_typed_def split: if_splits)
  have update: "(i \<noteq> ''__proto__'' \<longrightarrow> radix (options_get i (options_update i (VariableOptions (Some r)) cfg)) = Some r) \<and>
      (\<forall>k. k \<noteq> i \<longrightarrow> options_get k (options_update i (VariableOptions (Some r)) cfg) = options_get k cfg)" for i
    using options.lookup_put options.lookup_put_other by (simp add: options_update_def assign_options_def)
  have unwatch: "watch_get (watch_remove (int i) cfg) = take i (watch_get cfg) @ drop (Suc i) (watch_get cfg)" for i
    by (simp add: watch_remove_def watch_set_def watch_get_def splice1_nat)
  have watch: "watch_get (watch_append w cfg) = watch_get cfg @ [w]" for w
    by (simp add: watch_append_def watch_set_def watch_get_def)
  show ?thesis
    using j update unwatch watch
    by (cases t; cases j) (auto simp: setRadix_def watchVariable_def unWatchVariable_def getWatchItem_def Let_def)
qed

theorem offered_on_elements_witness:
  "\<exists>cfg'. setRadix 16 example_element example_configuration = Inr cfg' \<and> radix (options_get ''a'' cfg') = Some 16"
  using offered_on_elements [OF example_shown, of 16 example_configuration] by (auto simp: cxxrtlIdentifier_def)

end
