(* ===== verification/Spec2Isabelle.thy ===== *)
theory Spec2Isabelle
  imports Session_Walk Disposal Commands Display Served_Values Tree_Elements
begin

text \<open>
  A verification development for RTL Debugger, an editor extension that connects to a running CXXRTL
  simulation, shows the design's variables and lets the user run the simulation and move a cursor
  over its recorded time.  The implementation is the TypeScript under \<open>src/src\<close>.

  \<^bold>\<open>Parts and how they interact.\<close>  The debugger (\<open>debugger.ts\<close>) launches a simulation, opens a socket
  to it and creates a session over it.  The session (\<open>debug/session.ts\<close>) owns a connection
  (\<open>cxxrtl/client.ts\<close>), which numbers and queues commands and matches the server's replies with them;
  the connection sits on a link (\<open>cxxrtl/link.ts\<close>), which cuts the socket's text into JSON packets
  (\<open>cxxrtl/proto.ts\<close>).  The session turns packets into the model: scopes and variables
  (\<open>model/scope.ts\<close>, \<open>model/variable.ts\<close>), source locations (\<open>model/source.ts\<close>), times
  (\<open>model/time.ts\<close>), designations of values, references and samples (\<open>model/sample.ts\<close>).  An observer
  (\<open>debug/observer.ts\<close>) follows the session's time cursor and keeps the values of the designations on
  display; the side bar (\<open>ui/sidebar.ts\<close>) renders scopes, variables and watched items
  (\<open>debug/watch.ts\<close>) in the style and radix of \<open>model/styling.ts\<close> and \<open>debug/options.ts\<close>; the commands
  (\<open>extension.ts\<close>), the time prompt (\<open>ui/input.ts\<close>) and the status bar (\<open>ui/status.ts\<close>) act on the
  debugger's session.

  \<^bold>\<open>Theories.\<close>
    \<^item> \<open>Prelude\<close>, \<open>Digits\<close>: JavaScript's errors, arrays and strings as the sources use them (\<open>splice\<close>,
      \<open>indexOf\<close>, \<open>split\<close>, \<open>join\<close>, \<open>padStart\<close>, number to text and back), with their laws.
    \<^item> \<open>Time_Points\<close>: \<open>TimePoint\<close> and \<open>TimeInterval\<close>; exactness of the wire format, the displayed text
      and the typed text.
    \<^item> \<open>Proto\<close>: the packets as datatypes and \<open>JSON.stringify\<close> of those the client sends.
    \<^item> \<open>Json\<close>, \<open>Packets\<close>: \<open>JSON.parse\<close> with its inverse law, the server's packets as JSON texts, and the
      way of a server's packets through any cutting of the stream to the link's handler.
    \<^item> \<open>Locations\<close>, \<open>Variables\<close>: source locations; variables and scopes and their identifiers.
    \<^item> \<open>Samples\<close>: designations, the layout of their chunks, references and handles, extraction.
    \<^item> \<open>Settings\<close>, \<open>Styling\<close>: the two stores over the editor's configuration; the display styles.
    \<^item> \<open>Link\<close>, \<open>Client\<close>: framing and the packet loop, the scripted link; the command queue, with the order
      of replies and the accounting of every command over all reachable states.
    \<^item> \<open>Async\<close>: \<open>async\<close> methods as state-passing resumptions, tasks run alone or interleaved, and three
      ways to prove facts of every interleaving (\<open>keeps\<close>, \<open>watches\<close>, \<open>posts\<close>).
    \<^item> \<open>Base64\<close>, \<open>Session\<close>: the decoding of item values; all of \<open>session.ts\<close>.
    \<^item> \<open>Session_Design\<close>: the caches as instances of a memoising interface, the scope filter, the lookup of
      variables.  \<open>Session_Tasks\<close>, \<open>Session_Requests\<close>, \<open>Session_Invariants\<close>: what holds of the session in
      every interleaving of its methods: cursor, status and their events, reference epochs, polling.
      \<open>Session_Time\<close>, \<open>Session_Walk\<close>: the two step commands against a server's timeline, and their
      refinement of an abstract walk along it.
    \<^item> \<open>Wire\<close>: link, connection and session together, down to the text of the socket; the handler of a
      chunk without events implements the packet loop, the connection inside goes through a history
      of its own operations, the numbers of the waiting tasks are those of their commands, and two
      ways in which the pausing of the stream goes wrong when there are events.
    \<^item> \<open>Served\<close>, \<open>Served_Steps\<close>, \<open>Served_Values\<close>: the wire to a server that greets and then replies to the
      commands in the order it receives them, one reply a chunk, as JSON texts; it counts its replies
      itself.  Every history is one of the session's tasks as a pool in
      which each command gets the server's reply to it; a method called in any history can be worked off
      to the result it has against those replies alone; so the step commands walk along the server's
      samples, and queried values reach the handles of a reference, from socket to cursor and value.
    \<^item> \<open>Disposal\<close>: the end of a session destroys its stream; its commands are never settled afterwards.
    \<^item> \<open>Observer\<close>, \<open>Sidebar\<close>, \<open>Debugger\<close>, \<open>Extension\<close>, \<open>Commands\<close>, \<open>Display\<close>,
      \<open>Tree_Elements\<close>: the user's side: the displayed values, the tree,
      the life cycle of a session, the commands with their prompts, the status bar, the context keys,
      when exactly a command the user is offered finds its session, the success of every command on
      an element of the tree, the types of the tree's elements, and that nothing on display is stale
      unannounced.

  \<^bold>\<open>Correspondence.\<close>  A class is a record with the fields of the class, a method a definition of the same
  name on it; packets and tagged unions are datatypes with the constructors of the source.  Errors
  are values of \<open>js_error\<close> in a sum.  The event emitters and the calls of other objects are logged in the
  state (\<open>fired\<close>, \<open>seen\<close>, \<open>sent\<close>, \<open>outbox\<close>, \<open>settled\<close>).  Chunks of samples are 32-bit words; the bigints of
  times and values are \<open>int\<close> and \<open>nat\<close>, as the code's are unbounded.  The code between two \<open>await\<close>s is one
  atomic segment; \<open>await\<close> of a settled promise costs a turn (\<open>Turn\<close>), \<open>await\<close> of a reply waits for it
  (\<open>Await\<close>).  The observer and the debugger are machines whose steps are their callbacks.

  \<^bold>\<open>Fuel.\<close>  The only loop without a bound in the code is the search of \<open>stepForward\<close>; \<open>search_forward\<close>
  counts its rounds.  It returns within \<open>n\<close> rounds if and only if there is a later sample and the gap is
  at most \<open>step * 2 ^ k\<close> femtoseconds for some \<open>k < n\<close>
  (\<open>Session_Time.stepForward_returns_iff\<close>).  \<open>JSON.parse\<close> descends into the text; its model spends one
  unit of fuel a call, and twice the length of the text plus two is enough for every text
  (\<open>Json.json_parse_fuel\<close>).

  \<^bold>\<open>Parameters.\<close>  In \<open>Link\<close> and \<open>Wire\<close> the reading of a packet text, which their facts hold for in any
  form (\<open>Packets.read_packet\<close> is the program's: \<open>JSON.parse\<close> and the cast to a packet); the input box, the editor's rendering of URIs and links,
  the answers of the server.  The contracts assumed of the server are definitions: \<open>serves\<close> (interval
  queries answer from a timeline), \<open>status_answered\<close> (status queries are answered with a status),
  \<open>well_behaved\<close> (replies only to queued commands), \<open>well_formed_server\<close> (answers are responses or
  errors of the declared shape), \<open>serves_values\<close> (interval queries answer with the values of the items
  bound to the name).

  \<^bold>\<open>Not modelled.\<close>  Code units above 255 in a text, and the going on with a packet that lacks a declared
  field (\<open>read_packet\<close> gives \<open>None\<close>).  The console messages and the texts of error messages where nothing reads them; the
  timing of the trace; the getters that return a field; registration of commands and views with the
  editor, icons' theme objects and the terminal's options; disposal of event emitters, which nothing
  observes afterwards; the files that only build or package the extension.
\<close>

end
